(* ===== verification/Prelude.thy ===== *)
theory Prelude
  imports "HOL-Library.Word" "HOL-Library.AList"
begin

text \<open>
  Shared vocabulary of the PeerLink development.

  \<^item> Machine integers and bytes: the Rust widths as words, the little- and big-endian
    codecs that \<open>zerocopy\<close>'s \<open>U16\<close>/\<open>U32\<close> fields use.
  \<^item> Panics as values: a computation that may panic returns \<open>panic + 'a\<close>. Slicing,
    \<open>unwrap\<close> and checked \<open>usize\<close> arithmetic are the primitive panicking steps.
    Arithmetic follows the checked profile of Rust: an overflow is a panic.
  \<^item> Concurrent hash maps (\<open>DashMap\<close>, \<open>HashMap\<close>): association lists with distinct keys,
    whose list order stands for the unspecified iteration order.
  \<^item> Two interfaces as locales: \<open>keyed_store\<close> (lookup after insertion and removal) and
    \<open>versioned_merge\<close> (an entry is replaced only by a strictly newer one), with the
    consequences their clients need.
\<close>

unbundle bit_operations_syntax

section \<open>Machine integers\<close>

type_synonym byte = "8 word"
type_synonym u8 = "8 word"
type_synonym u16 = "16 word"
type_synonym u32 = "32 word"
type_synonym u64 = "64 word"
type_synonym usize = nat

named_theorems rust_Inr \<open>when an operation that may panic returns\<close>
named_theorems rust_simps \<open>evaluation of panicking computations\<close>
named_theorems codec_simps \<open>byte codecs\<close>
named_theorems dm_simps \<open>lookups in hash maps\<close>

lemma unat_lt: "unat (w :: 'a::len word) < 2 ^ LENGTH('a)"
  by (rule unsigned_less)

lemma unat_max_word: "unat (- 1 :: 'a::len word) = 2 ^ LENGTH('a) - 1"
  by (simp add: unsigned_minus_1_eq_mask mask_eq_exp_minus_1)

primrec le_bytes :: "nat \<Rightarrow> 'a::len word \<Rightarrow> byte list" where
  "le_bytes 0 w = []"
| "le_bytes (Suc n) w = ucast w # le_bytes n (drop_bit 8 w)"

primrec le_word :: "byte list \<Rightarrow> 'a::len word" where
  "le_word [] = 0"
| "le_word (b # bs) = ucast b OR push_bit 8 (le_word bs)"

definition be_bytes :: "nat \<Rightarrow> 'a::len word \<Rightarrow> byte list" where
  "be_bytes n w = rev (le_bytes n w)"

definition be_word :: "byte list \<Rightarrow> 'a::len word" where
  "be_word bs = le_word (rev bs)"

lemma length_le_bytes [simp, codec_simps]: "length (le_bytes n w) = n"
  by (induction n arbitrary: w) auto

lemma length_be_bytes [simp, codec_simps]: "length (be_bytes n w) = n"
  by (simp add: be_bytes_def)

lemma nth_le_bytes: "i < n \<Longrightarrow> le_bytes n w ! i = ucast (drop_bit (8 * i) w)"
proof (induction n arbitrary: w i)
  case 0
  then show ?case by simp
next
  case (Suc n)
  show ?case
  proof (cases i)
    case 0
    then show ?thesis by simp
  next
    case (Suc j)
    with Suc.prems have "j < n" by simp
    then show ?thesis
      using Suc by (simp add: Suc.IH algebra_simps)
  qed
qed

lemma bit_le_word:
  "bit (le_word bs :: 'a::len word) i \<longleftrightarrow>
     i < LENGTH('a) \<and> i div 8 < length bs \<and> bit (bs ! (i div 8)) (i mod 8)"
proof (induction bs arbitrary: i)
  case Nil
  then show ?case by simp
next
  case (Cons b bs)
  show ?case
  proof (cases "i < 8")
    case True
    then show ?thesis
      by (auto simp: bit_simps)
  next
    case False
    then have "i div 8 = Suc ((i - 8) div 8)" and "(i - 8) mod 8 = i mod 8"
      by (simp_all add: le_div_geq le_mod_geq)
    with False show ?thesis
      by (auto simp: bit_simps Cons.IH dest: bit_imp_le_length)
  qed
qed

lemma le_word_le_bytes [simp, codec_simps]:
  assumes "LENGTH('a) = 8 * n"
  shows "le_word (le_bytes n w) = (w :: 'a::len word)"
proof (rule bit_word_eqI)
  fix i assume "i < LENGTH('a)"
  then have "i div 8 < n" using assms by simp
  then show "bit (le_word (le_bytes n w) :: 'a word) i \<longleftrightarrow> bit w i"
    using \<open>i < LENGTH('a)\<close>
    by (simp add: bit_le_word nth_le_bytes bit_simps)
qed

lemma le_bytes_le_word [codec_simps]:
  assumes "LENGTH('a) = 8 * length bs"
  shows "le_bytes (length bs) (le_word bs :: 'a::len word) = bs"
proof (rule nth_equalityI)
  show "length (le_bytes (length bs) (le_word bs :: 'a word)) = length bs" by simp
next
  fix i assume "i < length (le_bytes (length bs) (le_word bs :: 'a word))"
  then have i: "i < length bs" by simp
  show "le_bytes (length bs) (le_word bs :: 'a word) ! i = bs ! i"
  proof (rule bit_word_eqI)
    fix j assume "j < LENGTH(8)"
    then have j: "j < 8" by simp
    then have "8 * i + j < LENGTH('a)" and "(8 * i + j) div 8 = i" and "(8 * i + j) mod 8 = j"
      using i assms by auto
    with i j show "bit (le_bytes (length bs) (le_word bs :: 'a word) ! i) j \<longleftrightarrow> bit (bs ! i) j"
      by (simp add: nth_le_bytes bit_simps bit_le_word)
  qed
qed

lemma be_word_be_bytes [simp, codec_simps]:
  "LENGTH('a) = 8 * n \<Longrightarrow> be_word (be_bytes n w) = (w :: 'a::len word)"
  by (simp add: be_word_def be_bytes_def)


section \<open>Panics as values\<close>

datatype panic =
    IndexOutOfRange   \<comment> \<open>slice or vector index outside the buffer\<close>
  | UnwrapNone        \<comment> \<open>\<open>unwrap\<close> of \<open>None\<close> or of an error\<close>
  | ArithOverflow     \<comment> \<open>checked integer arithmetic left its range\<close>
  | Unreachable       \<comment> \<open>\<open>unreachable!()\<close>\<close>
  | AssertFailed      \<comment> \<open>\<open>assert!\<close>, \<open>assert_eq!\<close>\<close>
  | ExplicitPanic     \<comment> \<open>\<open>panic!(..)\<close>\<close>

type_synonym 'a rust = "panic + 'a"

definition rbind :: "'a rust \<Rightarrow> ('a \<Rightarrow> 'b rust) \<Rightarrow> 'b rust" where
  "rbind m f = (case m of Inl e \<Rightarrow> Inl e | Inr x \<Rightarrow> f x)"

definition rmap :: "('a \<Rightarrow> 'b) \<Rightarrow> 'a rust \<Rightarrow> 'b rust" where
  "rmap f m = rbind m (\<lambda>x. Inr (f x))"

definition unwrap :: "'a option \<Rightarrow> 'a rust" where
  "unwrap x = (case x of None \<Rightarrow> Inl UnwrapNone | Some a \<Rightarrow> Inr a)"

definition checked_sub :: "nat \<Rightarrow> nat \<Rightarrow> nat rust" where
  "checked_sub a b = (if b \<le> a then Inr (a - b) else Inl ArithOverflow)"

definition checked_add :: "'a::len word \<Rightarrow> 'a word \<Rightarrow> 'a word rust" where
  "checked_add a b = (if unat a + unat b < 2 ^ LENGTH('a) then Inr (a + b) else Inl ArithOverflow)"

definition checked_add_usize :: "nat \<Rightarrow> nat \<Rightarrow> nat rust" where
  "checked_add_usize a b = (if a + b < 2 ^ 64 then Inr (a + b) else Inl ArithOverflow)"

text \<open>
  The bounds are compared in the word type and as integers, so that the definitions can be evaluated.
\<close>

lemma checked_add_code [code]: "checked_add a b = (if a \<le> a + b then Inr (a + b) else Inl ArithOverflow)"
  by (simp only: checked_add_def no_olen_add_nat)

lemma checked_add_usize_code [code]:
  "checked_add_usize a b =
     (if int a + int b < 18446744073709551616 then Inr (a + b) else Inl ArithOverflow)"
  unfolding checked_add_usize_def by simp

text \<open>\<open>&buf[off..]\<close>, \<open>&buf[from..to]\<close> and \<open>BytesMut::split_off(at)\<close>.\<close>

definition slice_from :: "'a list \<Rightarrow> nat \<Rightarrow> 'a list rust" where
  "slice_from buf off = (if off \<le> length buf then Inr (drop off buf) else Inl IndexOutOfRange)"

definition slice :: "'a list \<Rightarrow> nat \<Rightarrow> nat \<Rightarrow> 'a list rust" where
  "slice buf lo hi =
     (if lo \<le> hi \<and> hi \<le> length buf then Inr (take (hi - lo) (drop lo buf)) else Inl IndexOutOfRange)"

text \<open>
  \<open>buf[off..off + src.len()].copy_from_slice(src)\<close>: overwriting in place.
\<close>

definition write_at :: "'a list \<Rightarrow> nat \<Rightarrow> 'a list \<Rightarrow> 'a list rust" where
  "write_at buf off src =
     (if off + length src \<le> length buf
      then Inr (take off buf @ src @ drop (off + length src) buf)
      else Inl IndexOutOfRange)"

text \<open>\<open>buf[lo..hi].copy_from_slice(src)\<close>: panics unless the range is \<open>src.len()\<close> long.\<close>

definition copy_into :: "'a list \<Rightarrow> nat \<Rightarrow> nat \<Rightarrow> 'a list \<Rightarrow> 'a list rust" where
  "copy_into buf lo hi src =
     (if lo \<le> hi \<and> hi \<le> length buf \<and> hi - lo = length src then write_at buf lo src
      else Inl IndexOutOfRange)"

lemma rbind_simps [simp, rust_simps]:
  "rbind (Inl e) f = Inl e" "rbind (Inr x) f = f x"
  by (simp_all add: rbind_def)

lemma rbind_Inr_iff: "rbind m f = Inr y \<longleftrightarrow> (\<exists>x. m = Inr x \<and> f x = Inr y)"
  by (cases m) auto

lemma rbind_assoc: "rbind (rbind m f) g = rbind m (\<lambda>x. rbind (f x) g)"
  by (cases m) auto

lemma rmap_simps [simp, rust_simps]: "rmap f (Inl e) = Inl e" "rmap f (Inr x) = Inr (f x)"
  by (simp_all add: rmap_def)

lemma rmap_Inr_iff: "rmap f m = Inr y \<longleftrightarrow> (\<exists>x. m = Inr x \<and> y = f x)"
  by (cases m) auto

lemma unwrap_simps [simp, rust_simps]: "unwrap None = Inl UnwrapNone" "unwrap (Some a) = Inr a"
  by (simp_all add: unwrap_def)

lemma unwrap_Inr_iff: "unwrap x = Inr a \<longleftrightarrow> x = Some a"
  by (cases x) auto

lemma length_write_at: "write_at buf off src = Inr buf' \<Longrightarrow> length buf' = length buf"
  by (auto simp: write_at_def split: if_splits)

lemma drop_write_at:
  "write_at buf off src = Inr buf' \<Longrightarrow> off + length src \<le> k \<Longrightarrow> drop k buf' = drop k buf"
  by (auto simp: write_at_def split: if_splits)

lemma take_write_at:
  "write_at buf off src = Inr buf' \<Longrightarrow> k \<le> off \<Longrightarrow> take k buf' = take k buf"
  by (auto simp: write_at_def split: if_splits)

lemma read_write_at:
  "write_at buf off src = Inr buf' \<Longrightarrow> take (length src) (drop off buf') = src"
  by (auto simp: write_at_def split: if_splits)

declare rbind_Inr_iff [rust_Inr] rmap_Inr_iff [rust_Inr] unwrap_Inr_iff [rust_Inr]

lemma upt_split: "i \<le> j \<Longrightarrow> j \<le> k \<Longrightarrow> [i..<k] = [i..<j] @ [j..<k]"
  using upt_add_eq_append [of i j "k - j"] by simp

section \<open>Hash maps\<close>

text \<open>
  A \<open>DashMap<K, V>\<close> is an association list with distinct keys (\<open>dm_inv\<close>). The position of a
  key is where iteration meets it; no theorem fixes that order.
\<close>

type_synonym ('k, 'v) dmap = "('k \<times> 'v) list"

definition dm_inv :: "('k, 'v) dmap \<Rightarrow> bool" where
  "dm_inv m \<longleftrightarrow> distinct (map fst m)"

definition dm_get :: "('k, 'v) dmap \<Rightarrow> 'k \<Rightarrow> 'v option" where
  "dm_get m k = map_of m k"

definition dm_insert :: "'k \<Rightarrow> 'v \<Rightarrow> ('k, 'v) dmap \<Rightarrow> ('k, 'v) dmap" where
  "dm_insert k v m = AList.update k v m"

definition dm_remove :: "'k \<Rightarrow> ('k, 'v) dmap \<Rightarrow> ('k, 'v) dmap" where
  "dm_remove k m = AList.delete k m"

definition dm_retain :: "('k \<Rightarrow> 'v \<Rightarrow> bool) \<Rightarrow> ('k, 'v) dmap \<Rightarrow> ('k, 'v) dmap" where
  "dm_retain P m = filter (\<lambda>(k, v). P k v) m"

definition dm_contains :: "('k, 'v) dmap \<Rightarrow> 'k \<Rightarrow> bool" where
  "dm_contains m k \<longleftrightarrow> dm_get m k \<noteq> None"

text \<open>\<open>entry(k).and_modify(f).or_insert_with(|| d)\<close> and \<open>entry(k).or_insert_with(|| d)\<close>.\<close>

definition dm_upsert :: "'k \<Rightarrow> ('v \<Rightarrow> 'v) \<Rightarrow> 'v \<Rightarrow> ('k, 'v) dmap \<Rightarrow> ('k, 'v) dmap" where
  "dm_upsert k f d m =
     (case dm_get m k of Some v \<Rightarrow> dm_insert k (f v) m | None \<Rightarrow> dm_insert k d m)"

definition dm_or_insert :: "'k \<Rightarrow> 'v \<Rightarrow> ('k, 'v) dmap \<Rightarrow> ('k, 'v) dmap" where
  "dm_or_insert k d m = (case dm_get m k of Some v \<Rightarrow> m | None \<Rightarrow> dm_insert k d m)"

lemma dm_get_Nil [simp, dm_simps]: "dm_get [] k = None"
  by (simp add: dm_get_def)

lemma dm_inv_Nil [simp, dm_simps]: "dm_inv []"
  by (simp add: dm_inv_def)

lemma dm_get_insert [simp, dm_simps]:
  "dm_get (dm_insert k v m) k' = (if k' = k then Some v else dm_get m k')"
  by (simp add: dm_get_def dm_insert_def update_conv')

lemma dm_get_remove [simp, dm_simps]:
  "dm_get (dm_remove k m) k' = (if k' = k then None else dm_get m k')"
  by (simp add: dm_get_def dm_remove_def delete_conv')

lemma dm_inv_insert [simp, intro]: "dm_inv m \<Longrightarrow> dm_inv (dm_insert k v m)"
  by (simp add: dm_inv_def dm_insert_def distinct_update)

lemma dm_inv_remove [simp, intro]: "dm_inv m \<Longrightarrow> dm_inv (dm_remove k m)"
  by (simp add: dm_inv_def dm_remove_def distinct_delete)

lemma dm_inv_retain [simp, intro]: "dm_inv m \<Longrightarrow> dm_inv (dm_retain P m)"
  by (auto simp: dm_inv_def dm_retain_def intro: distinct_map_filter)

lemma dm_get_retain [dm_simps]:
  assumes "dm_inv m"
  shows "dm_get (dm_retain P m) k =
           (case dm_get m k of None \<Rightarrow> None | Some v \<Rightarrow> if P k v then Some v else None)"
  using assms
proof (induction m)
  case Nil
  then show ?case by (simp add: dm_retain_def)
next
  case (Cons kv m)
  obtain a b where [simp]: "kv = (a, b)" by (cases kv)
  from Cons.prems have "dm_inv m" and notin: "a \<notin> fst ` set m"
    by (auto simp: dm_inv_def)
  then have "map_of m a = None" by (simp add: map_of_eq_None_iff)
  with Cons.IH [OF \<open>dm_inv m\<close>] show ?case
    by (auto simp: dm_retain_def dm_get_def)
qed

lemma dm_get_upsert [dm_simps]:
  "dm_get (dm_upsert k f d m) k' =
     (if k' = k then Some (case dm_get m k of Some v \<Rightarrow> f v | None \<Rightarrow> d) else dm_get m k')"
  by (simp add: dm_upsert_def split: option.split)

lemma dm_get_or_insert [dm_simps]:
  "dm_get (dm_or_insert k d m) k' =
     (if k' = k then Some (case dm_get m k of Some v \<Rightarrow> v | None \<Rightarrow> d) else dm_get m k')"
  by (simp add: dm_or_insert_def split: option.split)

lemma dm_inv_upsert [simp, intro]: "dm_inv m \<Longrightarrow> dm_inv (dm_upsert k f d m)"
  by (simp add: dm_upsert_def split: option.split)

lemma dm_inv_or_insert [simp, intro]: "dm_inv m \<Longrightarrow> dm_inv (dm_or_insert k d m)"
  by (simp add: dm_or_insert_def split: option.split)

lemma dm_get_in_set: "dm_inv m \<Longrightarrow> dm_get m k = Some v \<longleftrightarrow> (k, v) \<in> set m"
  by (simp add: dm_get_def dm_inv_def)

lemma dm_get_SomeD: "dm_get m k = Some v \<Longrightarrow> (k, v) \<in> set m"
  by (simp add: dm_get_def map_of_SomeD)

lemma dm_get_None_iff: "dm_get m k = None \<longleftrightarrow> k \<notin> fst ` set m"
  by (simp add: dm_get_def map_of_eq_None_iff)

lemma finite_dm_dom: "finite {k. dm_get m k \<noteq> None}"
  using finite_dom_map_of [of m] by (simp add: dom_def dm_get_def)

lemma length_dm_insert:
  "length (dm_insert k v m) = (if dm_get m k = None then Suc (length m) else length m)"
  by (induction m) (auto simp: dm_insert_def dm_get_def)

section \<open>The keyed store interface\<close>

text \<open>
  What a client of a map relies on: a read returns the last write to that key, a removal forgets
  the key, and neither touches another key.
\<close>

locale keyed_store =
  fixes get :: "'s \<Rightarrow> 'k \<Rightarrow> 'v option"
    and put :: "'k \<Rightarrow> 'v \<Rightarrow> 's \<Rightarrow> 's"
    and del :: "'k \<Rightarrow> 's \<Rightarrow> 's"
    and inv :: "'s \<Rightarrow> bool"
  assumes get_put: "get (put k v s) k' = (if k' = k then Some v else get s k')"
    and get_del: "get (del k s) k' = (if k' = k then None else get s k')"
    and inv_put: "inv s \<Longrightarrow> inv (put k v s)"
    and inv_del: "inv s \<Longrightarrow> inv (del k s)"
begin

lemma get_fold_del:
  "get (fold del ks s) k = (if k \<in> set ks then None else get s k)"
  by (induction ks arbitrary: s) (auto simp: get_del)

lemma inv_fold_del: "inv s \<Longrightarrow> inv (fold del ks s)"
  by (induction ks arbitrary: s) (auto intro: inv_del)

lemma get_fold_put:
  "get (fold (\<lambda>(k, v). put k v) kvs s) k =
     (case map_of (rev kvs) k of Some v \<Rightarrow> Some v | None \<Rightarrow> get s k)"
proof (induction kvs arbitrary: s)
  case Nil
  then show ?case by simp
next
  case (Cons kv kvs)
  then show ?case
    by (cases kv) (auto simp: get_put map_of_append map_add_def split: option.splits)
qed

lemma put_overwrites: "get (put k w (put k v s)) = get (put k w s)"
  by (auto simp: get_put)

lemma put_commutes: "k \<noteq> k' \<Longrightarrow> get (put k v (put k' v' s)) = get (put k' v' (put k v s))"
  by (auto simp: get_put)

end

interpretation dm: keyed_store dm_get dm_insert dm_remove dm_inv
  by unfold_locales auto

section \<open>The versioned merge interface\<close>

text \<open>
  Every table that is synchronised between peers follows one contract: an incoming value replaces
  the stored one exactly when its version is strictly larger, and an unknown key is inserted.
  From it follow monotonicity, idempotence, order independence and convergence of replicas.
\<close>

locale versioned_merge =
  fixes lookup :: "'s \<Rightarrow> 'k \<Rightarrow> 'v option"
    and ver :: "'v \<Rightarrow> 'n::linorder"
    and merge :: "'k \<Rightarrow> 'v \<Rightarrow> 's \<Rightarrow> 's"
  assumes merge_at: "lookup (merge k v s) k =
      (case lookup s k of None \<Rightarrow> Some v | Some w \<Rightarrow> if ver w < ver v then Some v else Some w)"
    and merge_elsewhere: "k' \<noteq> k \<Longrightarrow> lookup (merge k v s) k' = lookup s k'"
begin

lemma lookup_merge:
  "lookup (merge k v s) k' =
     (if k' = k then (case lookup s k of None \<Rightarrow> Some v
                      | Some w \<Rightarrow> if ver w < ver v then Some v else Some w)
      else lookup s k')"
  by (simp add: merge_at merge_elsewhere)

lemma merge_version_mono:
  "lookup s k = Some w \<Longrightarrow> \<exists>w'. lookup (merge k' v s) k = Some w' \<and> ver w \<le> ver w'"
  by (auto simp: lookup_merge)

lemma merge_at_least: "\<exists>w. lookup (merge k v s) k = Some w \<and> ver v \<le> ver w"
  by (auto simp: merge_at split: option.split)

lemma merge_stale: "lookup s k = Some w \<Longrightarrow> ver v \<le> ver w \<Longrightarrow> lookup (merge k v s) = lookup s"
  by (rule ext) (auto simp: lookup_merge)

lemma merge_idem: "lookup (merge k v (merge k v s)) = lookup (merge k v s)"
  by (rule ext) (auto simp: lookup_merge split: option.splits)

lemma merge_commute:
  assumes "k = k' \<Longrightarrow> ver v = ver v' \<Longrightarrow> v = v'"
  shows "lookup (merge k v (merge k' v' s)) = lookup (merge k' v' (merge k v s))"
  using assms by (intro ext) (auto simp: lookup_merge split: option.split)

lemma fold_merge_version_mono:
  "lookup s k = Some w \<Longrightarrow>
     \<exists>w'. lookup (fold (\<lambda>(k, v). merge k v) kvs s) k = Some w' \<and> ver w \<le> ver w'"
proof (induction kvs arbitrary: s w)
  case Nil
  then show ?case by simp
next
  case (Cons kv kvs)
  obtain k' v where kv: "kv = (k', v)" by (cases kv)
  obtain w1 where w1: "lookup (merge k' v s) k = Some w1" "ver w \<le> ver w1"
    using merge_version_mono [OF Cons.prems] by blast
  from Cons.IH [OF w1(1)] w1(2) show ?case
    by (auto simp: kv intro: order_trans)
qed

lemma fold_merge_at_least:
  "(k, v) \<in> set kvs \<Longrightarrow> \<exists>w. lookup (fold (\<lambda>(k, v). merge k v) kvs s) k = Some w \<and> ver v \<le> ver w"
proof (induction kvs arbitrary: s)
  case Nil
  then show ?case by simp
next
  case (Cons kv kvs)
  show ?case
  proof (cases "(k, v) \<in> set kvs")
    case True
    then show ?thesis using Cons.IH by simp
  next
    case False
    with Cons.prems have kv: "kv = (k, v)" by simp
    obtain w where w: "lookup (merge k v s) k = Some w" "ver v \<le> ver w"
      using merge_at_least by blast
    from fold_merge_version_mono [OF w(1), of kvs] w(2) show ?thesis
      by (auto simp: kv intro: order_trans)
  qed
qed

lemma fold_merge_provenance:
  "lookup (fold (\<lambda>(k, v). merge k v) kvs s) k = Some w \<Longrightarrow>
     lookup s k = Some w \<or> (k, w) \<in> set kvs"
proof (induction kvs arbitrary: s)
  case Nil
  then show ?case by simp
next
  case (Cons kv kvs)
  obtain k' v where kv: "kv = (k', v)" by (cases kv)
  from Cons.prems have "lookup (fold (\<lambda>(k, v). merge k v) kvs (merge k' v s)) k = Some w"
    by (simp add: kv)
  from Cons.IH [OF this] show ?case
    by (auto simp: kv lookup_merge split: if_splits option.splits)
qed

lemma fold_merge_None:
  "lookup (fold (\<lambda>(k, v). merge k v) kvs s) k = None \<longleftrightarrow> lookup s k = None \<and> k \<notin> fst ` set kvs"
proof -
  have "lookup (fold (\<lambda>(k, v). merge k v) kvs s) k \<noteq> None"
    if "lookup s k \<noteq> None \<or> k \<in> fst ` set kvs"
    using that fold_merge_version_mono [of s k] fold_merge_at_least [of k _ kvs s] by fastforce
  then show ?thesis
    using fold_merge_provenance [of kvs s k] by (force simp: image_iff)
qed

text \<open>
  Convergence: two replicas that start from agreeing tables and merge the same set of updates, each
  in its own order and with its own repetitions, end with agreeing tables, provided a version
  identifies the value it was issued with.
\<close>

lemma fold_merge_converges:
  assumes start: "lookup s = lookup t"
    and updates: "set kvs = set kvs'"
    and ident: "\<And>k v w. (k, v) \<in> set kvs \<or> lookup s k = Some v \<Longrightarrow>
       (k, w) \<in> set kvs \<or> lookup s k = Some w \<Longrightarrow> ver v = ver w \<Longrightarrow> v = w"
  shows "lookup (fold (\<lambda>(k, v). merge k v) kvs s) = lookup (fold (\<lambda>(k, v). merge k v) kvs' t)"
proof
  fix k
  let ?a = "lookup (fold (\<lambda>(k, v). merge k v) kvs s) k"
  let ?b = "lookup (fold (\<lambda>(k, v). merge k v) kvs' t) k"
  show "?a = ?b"
  proof (cases ?a)
    case None
    then have "lookup t k = None \<and> k \<notin> fst ` set kvs'"
      unfolding fold_merge_None start updates .
    then have "?b = None" unfolding fold_merge_None .
    with None show ?thesis by simp
  next
    case (Some v)
    then have "?b \<noteq> None"
      using fold_merge_None [of kvs s k] fold_merge_None [of kvs' t k] start updates by fastforce
    then obtain w where w: "?b = Some w" by blast
    from fold_merge_provenance [OF Some] have vp: "(k, v) \<in> set kvs \<or> lookup s k = Some v" by blast
    from fold_merge_provenance [OF w] have wp: "(k, w) \<in> set kvs \<or> lookup s k = Some w"
      using start updates by auto
    have "ver v \<le> ver w"
      using vp fold_merge_at_least [of k v kvs' t] fold_merge_version_mono [of t k v kvs'] w
        start updates by fastforce
    moreover have "ver w \<le> ver v"
      using wp fold_merge_at_least [of k w kvs s] fold_merge_version_mono [of s k w kvs] Some
      by fastforce
    ultimately have "v = w" using ident [OF vp wp] by simp
    with Some w show ?thesis by simp
  qed
qed

end

text \<open>
  The \<open>entry(k).and_modify(|old| if new.version > old.version { *old = new }).or_insert(new)\<close>
  idiom on a hash map.
\<close>

definition dm_merge_newer :: "('v \<Rightarrow> 'n::linorder) \<Rightarrow> 'k \<Rightarrow> 'v \<Rightarrow> ('k, 'v) dmap \<Rightarrow> ('k, 'v) dmap" where
  "dm_merge_newer ver k v m = dm_upsert k (\<lambda>old. if ver old < ver v then v else old) v m"

interpretation dm_merge: versioned_merge dm_get ver "dm_merge_newer ver" for ver
  by unfold_locales (auto simp: dm_merge_newer_def dm_get_upsert split: option.split)

lemma dm_inv_merge_newer [simp, intro]: "dm_inv m \<Longrightarrow> dm_inv (dm_merge_newer ver k v m)"
  by (simp add: dm_merge_newer_def)

end
