(* ===== verification/PacketDef.thy ===== *)
theory PacketDef
  imports Prelude
begin

text \<open>
  The zero-copy packet of the data plane (\<open>src/app/src/tunnel/packet_def.rs\<close>): the fixed headers
  with their packed little-endian layout, the flag byte of the peer manager header, the offset
  table of the five packet types, and the operations of \<open>ZCPacket\<close>.

  A \<open>BytesMut\<close> is its bytes and its capacity. \<open>set_len\<close> exposes memory that was never written, so
  every operation that uses it takes a function \<open>junk\<close> giving that memory's contents.
\<close>

section \<open>Header sizes\<close>

definition const_max :: "nat \<Rightarrow> nat \<Rightarrow> nat" where
  "const_max a b = [a, b] ! (if a < b then 1 else 0)"

definition TCP_TUNNEL_HEADER_SIZE :: nat where "TCP_TUNNEL_HEADER_SIZE = 4"
definition UDP_TUNNEL_HEADER_SIZE :: nat where "UDP_TUNNEL_HEADER_SIZE = 4 + 1 + 1 + 2"
definition WG_TUNNEL_HEADER_SIZE :: nat where "WG_TUNNEL_HEADER_SIZE = 20"
definition PEER_MANAGER_HEADER_SIZE :: nat where
  "PEER_MANAGER_HEADER_SIZE = 4 + 4 + 1 + 1 + 1 + 1 + 4"
definition FOREIGN_NETWORK_HEADER_SIZE :: nat where
  "FOREIGN_NETWORK_HEADER_SIZE = 2 + 4 + 2 + 2"
definition AES_GCM_ENCRYPTION_RESERVED :: nat where "AES_GCM_ENCRYPTION_RESERVED = 16 + 12"
definition COMPRESSOR_TAIL_SIZE :: nat where "COMPRESSOR_TAIL_SIZE = 1"
definition TAIL_RESERVED_SIZE :: nat where
  "TAIL_RESERVED_SIZE = const_max AES_GCM_ENCRYPTION_RESERVED COMPRESSOR_TAIL_SIZE"
definition PAYLOAD_OFFSET_FOR_NIC_PACKET :: nat where
  "PAYLOAD_OFFSET_FOR_NIC_PACKET =
     const_max (const_max TCP_TUNNEL_HEADER_SIZE UDP_TUNNEL_HEADER_SIZE) WG_TUNNEL_HEADER_SIZE
     + PEER_MANAGER_HEADER_SIZE"
definition INVALID_OFFSET :: nat where "INVALID_OFFSET = 2 ^ 64 - 1"

lemmas size_defs = TCP_TUNNEL_HEADER_SIZE_def UDP_TUNNEL_HEADER_SIZE_def WG_TUNNEL_HEADER_SIZE_def
  PEER_MANAGER_HEADER_SIZE_def FOREIGN_NETWORK_HEADER_SIZE_def PAYLOAD_OFFSET_FOR_NIC_PACKET_def
  const_max_def

lemma const_max_eq_max: "const_max a b = max a b"
  by (simp add: const_max_def max_def)

section \<open>Packet kinds\<close>

datatype UdpPacketType = UInvalid | USyn | USack | UData | UFin | UHolePunch | UV6HolePunch

fun udp_packet_type_u8 :: "UdpPacketType \<Rightarrow> u8" where
  "udp_packet_type_u8 UInvalid = 0"
| "udp_packet_type_u8 USyn = 1"
| "udp_packet_type_u8 USack = 2"
| "udp_packet_type_u8 UData = 3"
| "udp_packet_type_u8 UFin = 4"
| "udp_packet_type_u8 UHolePunch = 5"
| "udp_packet_type_u8 UV6HolePunch = 6"

datatype PacketType =
    PInvalid | PData | PHandShake | PRoutePacket | PPing | PPong | PTaRpc | PRoute
  | PRpcReq | PRpcResp | PForeignNetworkPacket | PKcpSrc | PKcpDst

fun packet_type_u8 :: "PacketType \<Rightarrow> u8" where
  "packet_type_u8 PInvalid = 0"
| "packet_type_u8 PData = 1"
| "packet_type_u8 PHandShake = 2"
| "packet_type_u8 PRoutePacket = 3"
| "packet_type_u8 PPing = 4"
| "packet_type_u8 PPong = 5"
| "packet_type_u8 PTaRpc = 6"
| "packet_type_u8 PRoute = 7"
| "packet_type_u8 PRpcReq = 8"
| "packet_type_u8 PRpcResp = 9"
| "packet_type_u8 PForeignNetworkPacket = 10"
| "packet_type_u8 PKcpSrc = 11"
| "packet_type_u8 PKcpDst = 12"

section \<open>Headers and their layout\<close>

record TCPTunnelHeader =
  tcp_len :: u32

record UDPTunnelHeader =
  udp_conn_id :: u32
  udp_msg_type :: u8
  udp_padding :: u8
  udp_len :: u16

record WGTunnelHeader =
  wg_ipv4_header :: "byte list"

record PeerManagerHeader =
  from_peer_id :: u32
  to_peer_id :: u32
  packet_type :: u8
  flags :: u8
  forward_counter :: u8
  reserved :: u8
  hdr_len :: u32

record ForeignNetworkPacketHeader =
  header_len :: u16
  dst_peer_id :: u32
  network_name_offset :: u16
  network_name_len :: u16

definition tcp_hdr_bytes :: "TCPTunnelHeader \<Rightarrow> byte list" where
  "tcp_hdr_bytes h = le_bytes 4 (tcp_len h)"

definition tcp_hdr_of :: "byte list \<Rightarrow> TCPTunnelHeader" where
  "tcp_hdr_of bs = \<lparr>tcp_len = le_word (take 4 bs)\<rparr>"

definition udp_hdr_bytes :: "UDPTunnelHeader \<Rightarrow> byte list" where
  "udp_hdr_bytes h =
     le_bytes 4 (udp_conn_id h) @ le_bytes 1 (udp_msg_type h) @ le_bytes 1 (udp_padding h)
     @ le_bytes 2 (udp_len h)"

definition udp_hdr_of :: "byte list \<Rightarrow> UDPTunnelHeader" where
  "udp_hdr_of bs =
     \<lparr>udp_conn_id = le_word (take 4 bs), udp_msg_type = le_word (take 1 (drop 4 bs)),
      udp_padding = le_word (take 1 (drop 5 bs)), udp_len = le_word (take 2 (drop 6 bs))\<rparr>"

definition wg_hdr_bytes :: "WGTunnelHeader \<Rightarrow> byte list" where
  "wg_hdr_bytes h = wg_ipv4_header h"

definition wg_hdr_of :: "byte list \<Rightarrow> WGTunnelHeader" where
  "wg_hdr_of bs = \<lparr>wg_ipv4_header = take 20 bs\<rparr>"

definition pm_hdr_bytes :: "PeerManagerHeader \<Rightarrow> byte list" where
  "pm_hdr_bytes h =
     le_bytes 4 (from_peer_id h) @ le_bytes 4 (to_peer_id h) @ le_bytes 1 (packet_type h)
     @ le_bytes 1 (flags h) @ le_bytes 1 (forward_counter h) @ le_bytes 1 (reserved h)
     @ le_bytes 4 (hdr_len h)"

definition pm_hdr_of :: "byte list \<Rightarrow> PeerManagerHeader" where
  "pm_hdr_of bs =
     \<lparr>from_peer_id = le_word (take 4 bs), to_peer_id = le_word (take 4 (drop 4 bs)),
      packet_type = le_word (take 1 (drop 8 bs)), flags = le_word (take 1 (drop 9 bs)),
      forward_counter = le_word (take 1 (drop 10 bs)), reserved = le_word (take 1 (drop 11 bs)),
      hdr_len = le_word (take 4 (drop 12 bs))\<rparr>"

definition fn_hdr_bytes :: "ForeignNetworkPacketHeader \<Rightarrow> byte list" where
  "fn_hdr_bytes h =
     le_bytes 2 (header_len h) @ le_bytes 4 (dst_peer_id h)
     @ le_bytes 2 (network_name_offset h) @ le_bytes 2 (network_name_len h)"

definition fn_hdr_of :: "byte list \<Rightarrow> ForeignNetworkPacketHeader" where
  "fn_hdr_of bs =
     \<lparr>header_len = le_word (take 2 bs), dst_peer_id = le_word (take 4 (drop 2 bs)),
      network_name_offset = le_word (take 2 (drop 6 bs)),
      network_name_len = le_word (take 2 (drop 8 bs))\<rparr>"

text \<open>\<open>T::ref_from_prefix(bytes)\<close>: a header read from the front of a long enough slice.\<close>

definition ref_from_prefix :: "nat \<Rightarrow> (byte list \<Rightarrow> 'h) \<Rightarrow> byte list \<Rightarrow> 'h option" where
  "ref_from_prefix sz dec bs = (if sz \<le> length bs then Some (dec (take sz bs)) else None)"

text \<open>
  \<open>T::mut_from_prefix(&mut buf[off..])\<close> followed by assignments \<open>f\<close> to the fields: the header is
  read, changed and written back in place; \<open>None\<close> when the slice is too short for one.
\<close>

definition modify_hdr ::
  "nat \<Rightarrow> ('h \<Rightarrow> byte list) \<Rightarrow> (byte list \<Rightarrow> 'h) \<Rightarrow> nat \<Rightarrow> ('h \<Rightarrow> 'h) \<Rightarrow> byte list
     \<Rightarrow> byte list option rust" where
  "modify_hdr sz enc dec off f buf =
     rbind (slice_from buf off) (\<lambda>s.
       case ref_from_prefix sz dec s of
         None \<Rightarrow> Inr None
       | Some h \<Rightarrow> rmap Some (write_at buf off (enc (f h))))"

section \<open>The header codec interface\<close>

text \<open>
  Clients of a header rely on three facts of its layout: the encoding has the struct's size, the
  fields read back, and every byte string of that size is a header.
\<close>

locale hdr_codec =
  fixes sz :: nat
    and enc :: "'h \<Rightarrow> byte list"
    and dec :: "byte list \<Rightarrow> 'h"
    and ok :: "'h \<Rightarrow> bool"
  assumes enc_length: "ok h \<Longrightarrow> length (enc h) = sz"
    and dec_enc: "ok h \<Longrightarrow> dec (enc h) = h"
    and enc_dec: "length bs = sz \<Longrightarrow> enc (dec bs) = bs"
    and ok_dec: "length bs = sz \<Longrightarrow> ok (dec bs)"
begin

lemma read_back: "ok h \<Longrightarrow> ref_from_prefix sz dec (enc h @ rest) = Some h"
  by (simp add: ref_from_prefix_def enc_length dec_enc)

lemma read_prefix_None: "ref_from_prefix sz dec bs = None \<longleftrightarrow> length bs < sz"
  by (auto simp: ref_from_prefix_def)

text \<open>Changing a header in place succeeds exactly when the buffer holds one at that offset.\<close>

lemma modify_hdr_ok:
  assumes "off + sz \<le> length buf"
    and "ok (f (dec (take sz (drop off buf))))"
  shows "modify_hdr sz enc dec off f buf =
           Inr (Some (take off buf @ enc (f (dec (take sz (drop off buf)))) @ drop (off + sz) buf))"
  using assms
  by (simp add: modify_hdr_def slice_from_def ref_from_prefix_def write_at_def enc_length)

lemma modify_hdr_fails:
  "length buf < off \<Longrightarrow> modify_hdr sz enc dec off f buf = Inl IndexOutOfRange"
  "off \<le> length buf \<Longrightarrow> length buf < off + sz \<Longrightarrow> modify_hdr sz enc dec off f buf = Inr None"
  by (auto simp: modify_hdr_def slice_from_def ref_from_prefix_def)

lemma modify_hdr_effect:
  assumes len: "off + sz \<le> length buf"
    and okf: "ok (f (dec (take sz (drop off buf))))"
    and run: "modify_hdr sz enc dec off f buf = Inr (Some buf')"
  shows "ref_from_prefix sz dec (drop off buf') = Some (f (dec (take sz (drop off buf))))"
    and "take off buf' = take off buf"
    and "drop (off + sz) buf' = drop (off + sz) buf"
    and "length buf' = length buf"
proof -
  have buf': "buf' = take off buf @ enc (f (dec (take sz (drop off buf)))) @ drop (off + sz) buf"
    using run modify_hdr_ok [where f = f, OF len okf] by simp
  have el: "length (enc (f (dec (take sz (drop off buf))))) = sz"
    using okf by (rule enc_length)
  show "ref_from_prefix sz dec (drop off buf') = Some (f (dec (take sz (drop off buf))))"
    using len okf by (simp add: buf' read_back)
  show "take off buf' = take off buf" and "drop (off + sz) buf' = drop (off + sz) buf"
    and "length buf' = length buf"
    using len el by (simp_all add: buf')
qed

end

lemma le_bytes_le_word' [codec_simps]:
  "length bs = n \<Longrightarrow> LENGTH('a) = 8 * n \<Longrightarrow> le_bytes n (le_word bs :: 'a::len word) = bs"
  using le_bytes_le_word [where 'a = 'a and bs = bs] by simp

lemmas hdr_defs = tcp_hdr_bytes_def tcp_hdr_of_def udp_hdr_bytes_def udp_hdr_of_def
  wg_hdr_bytes_def wg_hdr_of_def pm_hdr_bytes_def pm_hdr_of_def fn_hdr_bytes_def fn_hdr_of_def

lemmas explode_list = numeral_eq_Suc length_Suc_conv

interpretation tcp_hdr: hdr_codec TCP_TUNNEL_HEADER_SIZE tcp_hdr_bytes tcp_hdr_of "\<lambda>_. True"
  by unfold_locales (simp_all add: hdr_defs TCP_TUNNEL_HEADER_SIZE_def codec_simps)

interpretation udp_hdr: hdr_codec UDP_TUNNEL_HEADER_SIZE udp_hdr_bytes udp_hdr_of "\<lambda>_. True"
proof unfold_locales
  fix bs :: "byte list"
  assume "length bs = UDP_TUNNEL_HEADER_SIZE"
  then have len: "length bs = 8" by (simp add: UDP_TUNNEL_HEADER_SIZE_def)
  have "bs = take 4 bs @ take 1 (drop 4 bs) @ take 1 (drop 5 bs) @ take 2 (drop 6 bs)"
    using len by (auto simp: explode_list)
  with len show "udp_hdr_bytes (udp_hdr_of bs) = bs"
    by (simp add: hdr_defs le_bytes_le_word' del: le_bytes.simps)
qed (simp_all add: hdr_defs UDP_TUNNEL_HEADER_SIZE_def del: le_bytes.simps)

interpretation pm_hdr: hdr_codec PEER_MANAGER_HEADER_SIZE pm_hdr_bytes pm_hdr_of "\<lambda>_. True"
proof unfold_locales
  fix bs :: "byte list"
  assume "length bs = PEER_MANAGER_HEADER_SIZE"
  then have len: "length bs = 16" by (simp add: PEER_MANAGER_HEADER_SIZE_def)
  have "bs = take 4 bs @ take 4 (drop 4 bs) @ take 1 (drop 8 bs) @ take 1 (drop 9 bs)
     @ take 1 (drop 10 bs) @ take 1 (drop 11 bs) @ take 4 (drop 12 bs)"
    using len by (auto simp: explode_list)
  with len show "pm_hdr_bytes (pm_hdr_of bs) = bs"
    by (simp add: hdr_defs le_bytes_le_word' del: le_bytes.simps)
qed (simp_all add: hdr_defs PEER_MANAGER_HEADER_SIZE_def del: le_bytes.simps)

interpretation fn_hdr: hdr_codec FOREIGN_NETWORK_HEADER_SIZE fn_hdr_bytes fn_hdr_of "\<lambda>_. True"
proof unfold_locales
  fix bs :: "byte list"
  assume "length bs = FOREIGN_NETWORK_HEADER_SIZE"
  then have len: "length bs = 10" by (simp add: FOREIGN_NETWORK_HEADER_SIZE_def)
  have "bs = take 2 bs @ take 4 (drop 2 bs) @ take 2 (drop 6 bs) @ take 2 (drop 8 bs)"
    using len by (auto simp: explode_list)
  with len show "fn_hdr_bytes (fn_hdr_of bs) = bs"
    by (simp add: hdr_defs le_bytes_le_word' del: le_bytes.simps)
qed (simp_all add: hdr_defs FOREIGN_NETWORK_HEADER_SIZE_def del: le_bytes.simps)

interpretation wg_hdr: hdr_codec WG_TUNNEL_HEADER_SIZE wg_hdr_bytes wg_hdr_of
  "\<lambda>h. length (wg_ipv4_header h) = WG_TUNNEL_HEADER_SIZE"
  by unfold_locales (simp_all add: hdr_defs WG_TUNNEL_HEADER_SIZE_def)

section \<open>The flag byte\<close>

text \<open>
  \<open>PeerManagerHeaderFlags\<close>: the declaration \<open>const _ = !0\<close> makes every bit known, so \<open>from_bits\<close>
  never fails and a flag test, insertion and removal are the bit operations.
\<close>

definition ENCRYPTED :: u8 where "ENCRYPTED = 0b00000001"
definition LATENCY_FIRST :: u8 where "LATENCY_FIRST = 0b00000010"
definition EXIT_NODE :: u8 where "EXIT_NODE = 0b00000100"
definition NO_PROXY :: u8 where "NO_PROXY = 0b00001000"
definition COMPRESSED :: u8 where "COMPRESSED = 0b00010000"
definition KCP_SRC_MODIFIED :: u8 where "KCP_SRC_MODIFIED = 0b00100000"

lemmas flag_defs = ENCRYPTED_def LATENCY_FIRST_def EXIT_NODE_def NO_PROXY_def COMPRESSED_def
  KCP_SRC_MODIFIED_def

definition flag_contains :: "u8 \<Rightarrow> u8 \<Rightarrow> bool" where
  "flag_contains bits m \<longleftrightarrow> bits AND m = m"

definition flag_put :: "u8 \<Rightarrow> bool \<Rightarrow> u8 \<Rightarrow> u8" where
  "flag_put m b bits = (if b then bits OR m else bits AND NOT m)"

definition is_encrypted :: "PeerManagerHeader \<Rightarrow> bool" where
  "is_encrypted h = flag_contains (flags h) ENCRYPTED"
definition set_encrypted :: "bool \<Rightarrow> PeerManagerHeader \<Rightarrow> PeerManagerHeader" where
  "set_encrypted b h = h\<lparr>flags := flag_put ENCRYPTED b (flags h)\<rparr>"
definition is_latency_first :: "PeerManagerHeader \<Rightarrow> bool" where
  "is_latency_first h = flag_contains (flags h) LATENCY_FIRST"
definition is_exit_node :: "PeerManagerHeader \<Rightarrow> bool" where
  "is_exit_node h = flag_contains (flags h) EXIT_NODE"
definition is_no_proxy :: "PeerManagerHeader \<Rightarrow> bool" where
  "is_no_proxy h = flag_contains (flags h) NO_PROXY"
definition is_compressed :: "PeerManagerHeader \<Rightarrow> bool" where
  "is_compressed h = flag_contains (flags h) COMPRESSED"
definition set_latency_first :: "bool \<Rightarrow> PeerManagerHeader \<Rightarrow> PeerManagerHeader" where
  "set_latency_first b h = h\<lparr>flags := flag_put LATENCY_FIRST b (flags h)\<rparr>"
definition set_exit_node :: "bool \<Rightarrow> PeerManagerHeader \<Rightarrow> PeerManagerHeader" where
  "set_exit_node b h = h\<lparr>flags := flag_put EXIT_NODE b (flags h)\<rparr>"
definition set_no_proxy :: "bool \<Rightarrow> PeerManagerHeader \<Rightarrow> PeerManagerHeader" where
  "set_no_proxy b h = h\<lparr>flags := flag_put NO_PROXY b (flags h)\<rparr>"
definition set_compressed :: "bool \<Rightarrow> PeerManagerHeader \<Rightarrow> PeerManagerHeader" where
  "set_compressed b h = h\<lparr>flags := flag_put COMPRESSED b (flags h)\<rparr>"
definition set_kcp_src_modified :: "bool \<Rightarrow> PeerManagerHeader \<Rightarrow> PeerManagerHeader" where
  "set_kcp_src_modified b h = h\<lparr>flags := flag_put KCP_SRC_MODIFIED b (flags h)\<rparr>"
definition is_kcp_src_modified :: "PeerManagerHeader \<Rightarrow> bool" where
  "is_kcp_src_modified h = flag_contains (flags h) KCP_SRC_MODIFIED"

lemmas flag_op_defs = is_encrypted_def set_encrypted_def is_latency_first_def is_exit_node_def
  is_no_proxy_def is_compressed_def set_latency_first_def set_exit_node_def set_no_proxy_def
  set_compressed_def set_kcp_src_modified_def is_kcp_src_modified_def

section \<open>Foreign network header and compressor tail\<close>

text \<open>\<open>std::str::from_utf8\<close>: the byte ranges of well-formed UTF-8.\<close>

definition utf8_cont :: "byte \<Rightarrow> bool" where
  "utf8_cont b \<longleftrightarrow> 0x80 \<le> b \<and> b \<le> 0xBF"

definition utf8_second :: "byte \<Rightarrow> byte \<Rightarrow> bool" where
  "utf8_second b0 b1 \<longleftrightarrow>
     (if b0 = 0xE0 then 0xA0 \<le> b1 \<and> b1 \<le> 0xBF
      else if b0 = 0xED then 0x80 \<le> b1 \<and> b1 \<le> 0x9F
      else if b0 = 0xF0 then 0x90 \<le> b1 \<and> b1 \<le> 0xBF
      else if b0 = 0xF4 then 0x80 \<le> b1 \<and> b1 \<le> 0x8F
      else utf8_cont b1)"

fun utf8_valid :: "byte list \<Rightarrow> bool" where
  "utf8_valid [] = True"
| "utf8_valid (b0 # bs) =
     (if b0 < 0x80 then utf8_valid bs
      else if 0xC2 \<le> b0 \<and> b0 \<le> 0xDF then
        (case bs of b1 # r \<Rightarrow> utf8_cont b1 \<and> utf8_valid r | [] \<Rightarrow> False)
      else if 0xE0 \<le> b0 \<and> b0 \<le> 0xEF then
        (case bs of b1 # b2 # r \<Rightarrow> utf8_second b0 b1 \<and> utf8_cont b2 \<and> utf8_valid r | _ \<Rightarrow> False)
      else if 0xF0 \<le> b0 \<and> b0 \<le> 0xF4 then
        (case bs of b1 # b2 # b3 # r \<Rightarrow>
           utf8_second b0 b1 \<and> utf8_cont b2 \<and> utf8_cont b3 \<and> utf8_valid r | _ \<Rightarrow> False)
      else False)"

definition foreign_hdr_new :: "u32 \<Rightarrow> byte list \<Rightarrow> ForeignNetworkPacketHeader rust" where
  "foreign_hdr_new dst name =
     (let off = (of_nat FOREIGN_NETWORK_HEADER_SIZE :: u16); nlen = (of_nat (length name) :: u16)
      in rbind (checked_add off nlen) (\<lambda>hl.
         Inr \<lparr>header_len = hl, dst_peer_id = dst, network_name_offset = off,
              network_name_len = nlen\<rparr>))"

definition get_network_name :: "ForeignNetworkPacketHeader \<Rightarrow> byte list \<Rightarrow> byte list rust" where
  "get_network_name h zc_packet_payload =
     (let off = unat (network_name_offset h); len = unat (network_name_len h)
      in rbind (slice zc_packet_payload off (off + len)) (\<lambda>s.
         if utf8_valid s then Inr s else Inl UnwrapNone))"

definition get_dst_peer_id :: "ForeignNetworkPacketHeader \<Rightarrow> u32" where
  "get_dst_peer_id h = dst_peer_id h"

definition get_header_len :: "ForeignNetworkPacketHeader \<Rightarrow> usize" where
  "get_header_len h = unat (header_len h)"

datatype CompressorAlgo = CNone | ZstdDefault

fun compressor_algo_u8 :: "CompressorAlgo \<Rightarrow> u8" where
  "compressor_algo_u8 CNone = 0"
| "compressor_algo_u8 ZstdDefault = 1"

record CompressorTail =
  tail_algo :: u8

definition compressor_tail_get_algo :: "CompressorTail \<Rightarrow> CompressorAlgo option" where
  "compressor_tail_get_algo t = (if tail_algo t = 1 then Some ZstdDefault else None)"

definition compressor_tail_new :: "CompressorAlgo \<Rightarrow> CompressorTail" where
  "compressor_tail_new a = \<lparr>tail_algo = compressor_algo_u8 a\<rparr>"

section \<open>Packet types and offsets\<close>

datatype ZCPacketType = TCP | UDP | WG | NIC | DummyTunnel

record ZCPacketOffsets =
  payload_offset_of :: usize
  peer_manager_header_offset :: usize
  tcp_tunnel_header_offset :: usize
  udp_tunnel_header_offset :: usize
  wg_tunnel_header_offset :: usize
  dummy_tunnel_header_offset :: usize

definition get_converted_offset :: "nat \<Rightarrow> nat \<Rightarrow> nat" where
  "get_converted_offset old_hdr_size new_hdr_size =
     (if old_hdr_size < new_hdr_size then INVALID_OFFSET else old_hdr_size - new_hdr_size)"

fun get_packet_offsets :: "ZCPacketType \<Rightarrow> ZCPacketOffsets" where
  "get_packet_offsets TCP =
     \<lparr>payload_offset_of = TCP_TUNNEL_HEADER_SIZE + PEER_MANAGER_HEADER_SIZE,
      peer_manager_header_offset = TCP_TUNNEL_HEADER_SIZE,
      tcp_tunnel_header_offset = 0,
      udp_tunnel_header_offset = get_converted_offset TCP_TUNNEL_HEADER_SIZE UDP_TUNNEL_HEADER_SIZE,
      wg_tunnel_header_offset = get_converted_offset TCP_TUNNEL_HEADER_SIZE WG_TUNNEL_HEADER_SIZE,
      dummy_tunnel_header_offset = get_converted_offset TCP_TUNNEL_HEADER_SIZE 0\<rparr>"
| "get_packet_offsets UDP =
     \<lparr>payload_offset_of = UDP_TUNNEL_HEADER_SIZE + PEER_MANAGER_HEADER_SIZE,
      peer_manager_header_offset = UDP_TUNNEL_HEADER_SIZE,
      tcp_tunnel_header_offset = get_converted_offset UDP_TUNNEL_HEADER_SIZE TCP_TUNNEL_HEADER_SIZE,
      udp_tunnel_header_offset = 0,
      wg_tunnel_header_offset = get_converted_offset UDP_TUNNEL_HEADER_SIZE WG_TUNNEL_HEADER_SIZE,
      dummy_tunnel_header_offset = get_converted_offset UDP_TUNNEL_HEADER_SIZE 0\<rparr>"
| "get_packet_offsets WG =
     \<lparr>payload_offset_of = WG_TUNNEL_HEADER_SIZE + PEER_MANAGER_HEADER_SIZE,
      peer_manager_header_offset = WG_TUNNEL_HEADER_SIZE,
      tcp_tunnel_header_offset = get_converted_offset WG_TUNNEL_HEADER_SIZE TCP_TUNNEL_HEADER_SIZE,
      udp_tunnel_header_offset = get_converted_offset WG_TUNNEL_HEADER_SIZE UDP_TUNNEL_HEADER_SIZE,
      wg_tunnel_header_offset = 0,
      dummy_tunnel_header_offset = get_converted_offset WG_TUNNEL_HEADER_SIZE 0\<rparr>"
| "get_packet_offsets NIC =
     \<lparr>payload_offset_of = PAYLOAD_OFFSET_FOR_NIC_PACKET,
      peer_manager_header_offset = PAYLOAD_OFFSET_FOR_NIC_PACKET - PEER_MANAGER_HEADER_SIZE,
      tcp_tunnel_header_offset =
        PAYLOAD_OFFSET_FOR_NIC_PACKET - PEER_MANAGER_HEADER_SIZE - TCP_TUNNEL_HEADER_SIZE,
      udp_tunnel_header_offset =
        PAYLOAD_OFFSET_FOR_NIC_PACKET - PEER_MANAGER_HEADER_SIZE - UDP_TUNNEL_HEADER_SIZE,
      wg_tunnel_header_offset =
        PAYLOAD_OFFSET_FOR_NIC_PACKET - PEER_MANAGER_HEADER_SIZE - WG_TUNNEL_HEADER_SIZE,
      dummy_tunnel_header_offset = PAYLOAD_OFFSET_FOR_NIC_PACKET - PEER_MANAGER_HEADER_SIZE\<rparr>"
| "get_packet_offsets DummyTunnel =
     \<lparr>payload_offset_of = PEER_MANAGER_HEADER_SIZE,
      peer_manager_header_offset = 0,
      tcp_tunnel_header_offset = get_converted_offset 0 TCP_TUNNEL_HEADER_SIZE,
      udp_tunnel_header_offset = get_converted_offset 0 UDP_TUNNEL_HEADER_SIZE,
      wg_tunnel_header_offset = get_converted_offset 0 WG_TUNNEL_HEADER_SIZE,
      dummy_tunnel_header_offset = 0\<rparr>"

section \<open>Buffers\<close>

record BytesMut =
  bm_data :: "byte list"
  bm_cap :: nat

definition bm_new :: BytesMut where
  "bm_new = \<lparr>bm_data = [], bm_cap = 0\<rparr>"

definition bm_with_capacity :: "nat \<Rightarrow> BytesMut" where
  "bm_with_capacity n = \<lparr>bm_data = [], bm_cap = n\<rparr>"

definition bm_reserve :: "nat \<Rightarrow> BytesMut \<Rightarrow> BytesMut" where
  "bm_reserve n b = b\<lparr>bm_cap := max (bm_cap b) (length (bm_data b) + n)\<rparr>"

definition bm_set_len :: "(nat \<Rightarrow> byte) \<Rightarrow> nat \<Rightarrow> BytesMut \<Rightarrow> BytesMut" where
  "bm_set_len junk n b =
     b\<lparr>bm_data := take n (bm_data b) @ map junk [length (bm_data b)..<n]\<rparr>"

definition bm_extend :: "byte list \<Rightarrow> BytesMut \<Rightarrow> BytesMut" where
  "bm_extend xs b =
     \<lparr>bm_data = bm_data b @ xs, bm_cap = max (bm_cap b) (length (bm_data b) + length xs)\<rparr>"

text \<open>\<open>split_off(at)\<close> returns the part from \<open>at\<close> on; it panics past the capacity.\<close>

definition bm_split_off :: "nat \<Rightarrow> BytesMut \<Rightarrow> BytesMut rust" where
  "bm_split_off at b =
     (if at \<le> bm_cap b then Inr \<lparr>bm_data = drop at (bm_data b), bm_cap = bm_cap b - at\<rparr>
      else Inl IndexOutOfRange)"

definition bm_inv :: "BytesMut \<Rightarrow> bool" where
  "bm_inv b \<longleftrightarrow> length (bm_data b) \<le> bm_cap b"

section \<open>ZCPacket\<close>

record ZCPacket =
  zc_inner :: BytesMut
  zc_type :: ZCPacketType

abbreviation zc_bytes :: "ZCPacket \<Rightarrow> byte list" where
  "zc_bytes p \<equiv> bm_data (zc_inner p)"

definition new_nic_packet :: ZCPacket where
  "new_nic_packet = \<lparr>zc_inner = bm_new, zc_type = NIC\<rparr>"

definition new_from_buf :: "BytesMut \<Rightarrow> ZCPacketType \<Rightarrow> ZCPacket" where
  "new_from_buf buf t = \<lparr>zc_inner = buf, zc_type = t\<rparr>"

definition payload_offset :: "ZCPacket \<Rightarrow> usize" where
  "payload_offset p = payload_offset_of (get_packet_offsets (zc_type p))"

definition set_bytes :: "byte list \<Rightarrow> ZCPacket \<Rightarrow> ZCPacket" where
  "set_bytes bs p = p\<lparr>zc_inner := (zc_inner p)\<lparr>bm_data := bs\<rparr>\<rparr>"

definition new_with_payload :: "(nat \<Rightarrow> byte) \<Rightarrow> byte list \<Rightarrow> ZCPacket rust" where
  "new_with_payload junk pl =
     (let ret = new_nic_packet;
          payload_off = payload_offset_of (get_packet_offsets (zc_type ret));
          total_len = payload_off + length pl;
          buf = bm_set_len junk total_len (bm_reserve total_len (zc_inner ret))
      in rbind (slice_from (bm_data buf) payload_off) (\<lambda>_.
         rmap (\<lambda>bs. new_from_buf (buf\<lparr>bm_data := bs\<rparr>) (zc_type ret))
           (copy_into (bm_data buf) payload_off (payload_off + length pl) pl)))"

definition new_for_tun :: "(nat \<Rightarrow> byte) \<Rightarrow> usize \<Rightarrow> usize \<Rightarrow> ZCPacket rust" where
  "new_for_tun junk cap packet_info_len =
     (let ret = new_nic_packet
      in rmap (\<lambda>total_len.
           new_from_buf (bm_set_len junk total_len (bm_reserve cap (zc_inner ret))) (zc_type ret))
         (checked_sub (payload_offset_of (get_packet_offsets (zc_type ret))) packet_info_len))"

definition payload :: "ZCPacket \<Rightarrow> byte list rust" where
  "payload p = slice_from (zc_bytes p) (payload_offset p)"

definition payload_bytes :: "ZCPacket \<Rightarrow> BytesMut rust" where
  "payload_bytes p = bm_split_off (payload_offset p) (zc_inner p)"

definition peer_manager_header :: "ZCPacket \<Rightarrow> PeerManagerHeader option rust" where
  "peer_manager_header p =
     rmap (ref_from_prefix PEER_MANAGER_HEADER_SIZE pm_hdr_of)
       (slice_from (zc_bytes p) (peer_manager_header_offset (get_packet_offsets (zc_type p))))"

definition tcp_tunnel_header :: "ZCPacket \<Rightarrow> TCPTunnelHeader option rust" where
  "tcp_tunnel_header p =
     rmap (ref_from_prefix TCP_TUNNEL_HEADER_SIZE tcp_hdr_of)
       (slice_from (zc_bytes p) (tcp_tunnel_header_offset (get_packet_offsets (zc_type p))))"

definition udp_tunnel_header :: "ZCPacket \<Rightarrow> UDPTunnelHeader option rust" where
  "udp_tunnel_header p =
     rmap (ref_from_prefix UDP_TUNNEL_HEADER_SIZE udp_hdr_of)
       (slice_from (zc_bytes p) (udp_tunnel_header_offset (get_packet_offsets (zc_type p))))"

definition mut_peer_manager_header ::
  "(PeerManagerHeader \<Rightarrow> PeerManagerHeader) \<Rightarrow> ZCPacket \<Rightarrow> ZCPacket option rust" where
  "mut_peer_manager_header f p =
     rmap (map_option (\<lambda>bs. set_bytes bs p))
       (modify_hdr PEER_MANAGER_HEADER_SIZE pm_hdr_bytes pm_hdr_of
          (peer_manager_header_offset (get_packet_offsets (zc_type p))) f (zc_bytes p))"

definition mut_tcp_tunnel_header ::
  "(TCPTunnelHeader \<Rightarrow> TCPTunnelHeader) \<Rightarrow> ZCPacket \<Rightarrow> ZCPacket option rust" where
  "mut_tcp_tunnel_header f p =
     rmap (map_option (\<lambda>bs. set_bytes bs p))
       (modify_hdr TCP_TUNNEL_HEADER_SIZE tcp_hdr_bytes tcp_hdr_of
          (tcp_tunnel_header_offset (get_packet_offsets (zc_type p))) f (zc_bytes p))"

definition mut_udp_tunnel_header ::
  "(UDPTunnelHeader \<Rightarrow> UDPTunnelHeader) \<Rightarrow> ZCPacket \<Rightarrow> ZCPacket option rust" where
  "mut_udp_tunnel_header f p =
     rmap (map_option (\<lambda>bs. set_bytes bs p))
       (modify_hdr UDP_TUNNEL_HEADER_SIZE udp_hdr_bytes udp_hdr_of
          (udp_tunnel_header_offset (get_packet_offsets (zc_type p))) f (zc_bytes p))"

definition mut_wg_tunnel_header ::
  "(WGTunnelHeader \<Rightarrow> WGTunnelHeader) \<Rightarrow> ZCPacket \<Rightarrow> ZCPacket option rust" where
  "mut_wg_tunnel_header f p =
     rmap (map_option (\<lambda>bs. set_bytes bs p))
       (modify_hdr WG_TUNNEL_HEADER_SIZE wg_hdr_bytes wg_hdr_of
          (wg_tunnel_header_offset (get_packet_offsets (zc_type p))) f (zc_bytes p))"

definition udp_payload :: "ZCPacket \<Rightarrow> byte list rust" where
  "udp_payload p =
     rbind (checked_add_usize (udp_tunnel_header_offset (get_packet_offsets (zc_type p)))
              UDP_TUNNEL_HEADER_SIZE)
       (slice_from (zc_bytes p))"

definition payload_len :: "ZCPacket \<Rightarrow> usize rust" where
  "payload_len p = checked_sub (length (zc_bytes p)) (payload_offset p)"

definition buf_len :: "ZCPacket \<Rightarrow> usize" where
  "buf_len p = length (zc_bytes p)"

definition fill_peer_manager_hdr :: "u32 \<Rightarrow> u32 \<Rightarrow> u8 \<Rightarrow> ZCPacket \<Rightarrow> ZCPacket rust" where
  "fill_peer_manager_hdr from to ptype p =
     rbind (payload_len p) (\<lambda>plen.
     rbind (mut_peer_manager_header
         (\<lambda>h. h\<lparr>from_peer_id := from, to_peer_id := to, packet_type := ptype, flags := 0,
                 forward_counter := 1, hdr_len := of_nat plen\<rparr>) p) unwrap)"

definition tunnel_payload :: "ZCPacket \<Rightarrow> byte list rust" where
  "tunnel_payload p =
     slice_from (zc_bytes p) (peer_manager_header_offset (get_packet_offsets (zc_type p)))"

definition tunnel_payload_bytes :: "ZCPacket \<Rightarrow> BytesMut rust" where
  "tunnel_payload_bytes p =
     bm_split_off (peer_manager_header_offset (get_packet_offsets (zc_type p))) (zc_inner p)"

definition new_for_foreign_network ::
  "(nat \<Rightarrow> byte) \<Rightarrow> byte list \<Rightarrow> u32 \<Rightarrow> ZCPacket \<Rightarrow> ZCPacket rust" where
  "new_for_foreign_network junk network_name dst foreign_zc_packet =
     rbind (foreign_hdr_new dst network_name) (\<lambda>fh.
     rbind (tunnel_payload foreign_zc_packet) (\<lambda>tp.
       let total_payload_len = get_header_len fh + length tp;
           ret = new_nic_packet;
           payload_off = payload_offset_of (get_packet_offsets (zc_type ret));
           buf = bm_set_len junk (payload_off + total_payload_len)
                   (bm_reserve (payload_off + total_payload_len) (zc_inner ret));
           name_offset = unat (network_name_offset fh);
           name_len = unat (network_name_len fh)
       in rbind (copy_into (bm_data buf) payload_off (payload_off + FOREIGN_NETWORK_HEADER_SIZE)
                   (fn_hdr_bytes fh)) (\<lambda>b1.
          rbind (copy_into b1 (payload_off + name_offset) (payload_off + (name_offset + name_len))
                   network_name) (\<lambda>b2.
          rbind (copy_into b2 (payload_off + get_header_len fh) (length b2) tp) (\<lambda>b3.
          rbind (mut_peer_manager_header
              (\<lambda>h. h\<lparr>from_peer_id := 0, to_peer_id := 0,
                      packet_type := packet_type_u8 PForeignNetworkPacket,
                      hdr_len := of_nat total_payload_len\<rparr>)
              (new_from_buf (buf\<lparr>bm_data := b3\<rparr>) (zc_type ret))) unwrap)))))"

fun conversion_offset :: "ZCPacketType \<Rightarrow> ZCPacketType \<Rightarrow> usize rust" where
  "conversion_offset src TCP = Inr (tcp_tunnel_header_offset (get_packet_offsets src))"
| "conversion_offset src UDP = Inr (udp_tunnel_header_offset (get_packet_offsets src))"
| "conversion_offset src WG = Inr (wg_tunnel_header_offset (get_packet_offsets src))"
| "conversion_offset src DummyTunnel = Inr (dummy_tunnel_header_offset (get_packet_offsets src))"
| "conversion_offset src NIC = Inl Unreachable"

definition convert_type :: "(nat \<Rightarrow> byte) \<Rightarrow> ZCPacketType \<Rightarrow> ZCPacket \<Rightarrow> ZCPacket rust" where
  "convert_type junk target p =
     (if target = zc_type p then Inr p
      else rbind (conversion_offset (zc_type p) target) (\<lambda>new_offset.
        if new_offset = INVALID_OFFSET then
          rbind (tunnel_payload p) (\<lambda>tp.
            let new_pm_offset = peer_manager_header_offset (get_packet_offsets target)
            in Inr (new_from_buf
                 (bm_extend tp (bm_set_len junk new_pm_offset
                    (bm_with_capacity (new_pm_offset + length tp)))) target))
        else rmap (\<lambda>b. new_from_buf b target) (bm_split_off new_offset (zc_inner p))))"

definition is_lossy :: "ZCPacket \<Rightarrow> bool rust" where
  "is_lossy p =
     rmap (\<lambda>h. case h of Some hdr \<Rightarrow> packet_type hdr = packet_type_u8 PData | None \<Rightarrow> False)
       (peer_manager_header p)"

definition foreign_network_hdr :: "ZCPacket \<Rightarrow> ForeignNetworkPacketHeader option rust" where
  "foreign_network_hdr p =
     rbind (peer_manager_header p) (\<lambda>oh.
     rbind (unwrap oh) (\<lambda>hdr.
       if packet_type hdr = packet_type_u8 PForeignNetworkPacket
       then rmap (ref_from_prefix FOREIGN_NETWORK_HEADER_SIZE fn_hdr_of) (payload p)
       else Inr None))"

definition foreign_network_packet :: "ZCPacket \<Rightarrow> ZCPacket rust" where
  "foreign_network_packet p =
     rbind (foreign_network_hdr p) (\<lambda>oh.
     rbind (unwrap oh) (\<lambda>hdr.
       rmap (\<lambda>b. new_from_buf b DummyTunnel)
         (bm_split_off (get_header_len hdr + payload_offset p) (zc_inner p))))"

definition get_src_peer_id :: "ZCPacket \<Rightarrow> u32 option rust" where
  "get_src_peer_id p = rmap (map_option from_peer_id) (peer_manager_header p)"

definition get_dst_peer_id_of :: "ZCPacket \<Rightarrow> u32 option rust" where
  "get_dst_peer_id_of p = rmap (map_option to_peer_id) (peer_manager_header p)"

definition zc_inv :: "ZCPacket \<Rightarrow> bool" where
  "zc_inv p \<longleftrightarrow> bm_inv (zc_inner p) \<and> payload_offset p \<le> length (zc_bytes p)"

section \<open>Offsets\<close>

lemma payload_after_header:
  "payload_offset_of (get_packet_offsets t) =
     peer_manager_header_offset (get_packet_offsets t) + PEER_MANAGER_HEADER_SIZE"
  by (cases t) (simp_all add: size_defs)

lemma conversion_offset_cases:
  assumes "target \<noteq> NIC"
  shows "\<exists>off. conversion_offset src target = Inr off \<and>
    (off = INVALID_OFFSET \<or>
     off + peer_manager_header_offset (get_packet_offsets target) =
       peer_manager_header_offset (get_packet_offsets src))"
  using assms by (cases src; cases target) (simp_all add: size_defs get_converted_offset_def)

lemma pm_offset_small: "peer_manager_header_offset (get_packet_offsets t) < INVALID_OFFSET"
  by (cases t) (simp_all add: size_defs INVALID_OFFSET_def)

section \<open>Reading and writing packets\<close>

lemma payload_ok: "payload_offset p \<le> length (zc_bytes p) \<Longrightarrow> payload p = Inr (drop (payload_offset p) (zc_bytes p))"
  by (simp add: payload_def slice_from_def)

lemma tunnel_payload_ok:
  assumes "payload_offset p \<le> length (zc_bytes p)"
  shows "tunnel_payload p =
           Inr (drop (peer_manager_header_offset (get_packet_offsets (zc_type p))) (zc_bytes p))"
  using assms by (simp add: tunnel_payload_def slice_from_def payload_offset_def payload_after_header)

lemma peer_manager_header_ok:
  assumes "payload_offset p \<le> length (zc_bytes p)"
  shows "peer_manager_header p = Inr (Some (pm_hdr_of (take PEER_MANAGER_HEADER_SIZE
           (drop (peer_manager_header_offset (get_packet_offsets (zc_type p))) (zc_bytes p)))))"
  using assms
  by (simp add: peer_manager_header_def slice_from_def ref_from_prefix_def payload_offset_def
      payload_after_header)

text \<open>The header and the payload are both read from the tunnel payload.\<close>

lemma header_from_tunnel_payload:
  assumes "tunnel_payload p = Inr tp"
  shows "peer_manager_header p = Inr (ref_from_prefix PEER_MANAGER_HEADER_SIZE pm_hdr_of tp)"
    and "PEER_MANAGER_HEADER_SIZE \<le> length tp \<Longrightarrow> payload p = Inr (drop PEER_MANAGER_HEADER_SIZE tp)"
  using assms
  by (auto simp: peer_manager_header_def payload_def slice_from_def payload_offset_def tunnel_payload_def
      payload_after_header add.commute split: if_splits)

lemma mut_peer_manager_header_effect:
  assumes "payload_offset p \<le> length (zc_bytes p)"
  obtains p' where "mut_peer_manager_header f p = Inr (Some p')"
    and "zc_type p' = zc_type p"
    and "peer_manager_header p' = Inr (map_option f (Some (pm_hdr_of (take PEER_MANAGER_HEADER_SIZE
           (drop (peer_manager_header_offset (get_packet_offsets (zc_type p))) (zc_bytes p))))))"
    and "payload p' = payload p"
    and "length (zc_bytes p') = length (zc_bytes p)"
    and "bm_cap (zc_inner p') = bm_cap (zc_inner p)"
    and "drop (payload_offset p) (zc_bytes p') = drop (payload_offset p) (zc_bytes p)"
proof -
  let ?off = "peer_manager_header_offset (get_packet_offsets (zc_type p))"
  have len: "?off + PEER_MANAGER_HEADER_SIZE \<le> length (zc_bytes p)"
    using assms by (simp add: payload_offset_def payload_after_header)
  obtain bs where bs: "modify_hdr PEER_MANAGER_HEADER_SIZE pm_hdr_bytes pm_hdr_of ?off f (zc_bytes p)
      = Inr (Some bs)"
    using pm_hdr.modify_hdr_ok [OF len TrueI] by blast
  note eff = pm_hdr.modify_hdr_effect [OF len TrueI bs]
  have run: "mut_peer_manager_header f p = Inr (Some (set_bytes bs p))"
    by (simp add: mut_peer_manager_header_def bs)
  have off: "payload_offset p = ?off + PEER_MANAGER_HEADER_SIZE"
    by (simp add: payload_offset_def payload_after_header)
  show ?thesis
  proof (rule that [OF run])
    show "peer_manager_header (set_bytes bs p) = Inr (map_option f (Some (pm_hdr_of
        (take PEER_MANAGER_HEADER_SIZE (drop ?off (zc_bytes p))))))"
      using eff(1,4) len by (simp add: peer_manager_header_def set_bytes_def slice_from_def)
    show "payload (set_bytes bs p) = payload p"
      using eff(3,4) off by (simp add: payload_def set_bytes_def slice_from_def payload_offset_def)
  qed (use eff off in \<open>simp_all add: set_bytes_def\<close>)
qed

text \<open>
  Filling the peer manager header of a packet that has room for it succeeds, sets source,
  destination, kind, cleared flags, a forward counter of one and the payload length, and leaves the
  payload bytes untouched.
\<close>

theorem fill_peer_manager_hdr_spec:
  assumes "payload_offset p \<le> buf_len p"
  shows "\<exists>p' h. fill_peer_manager_hdr from to ptype p = Inr p' \<and> peer_manager_header p' = Inr (Some h) \<and>
     from_peer_id h = from \<and> to_peer_id h = to \<and> packet_type h = ptype \<and> flags h = 0 \<and>
     forward_counter h = 1 \<and> hdr_len h = of_nat (buf_len p - payload_offset p) \<and>
     payload p' = payload p \<and> zc_type p' = zc_type p \<and> buf_len p' = buf_len p"
proof -
  have len: "payload_offset p \<le> length (zc_bytes p)"
    using assms by (simp add: buf_len_def)
  then have pl: "payload_len p = Inr (length (zc_bytes p) - payload_offset p)"
    by (simp add: payload_len_def checked_sub_def)
  show ?thesis
    by (rule mut_peer_manager_header_effect [OF len, of
          "\<lambda>h. h\<lparr>from_peer_id := from, to_peer_id := to, packet_type := ptype, flags := 0,
             forward_counter := 1, hdr_len := of_nat (length (zc_bytes p) - payload_offset p)\<rparr>"])
      (simp add: fill_peer_manager_hdr_def pl buf_len_def)
qed

definition sample_packet :: ZCPacket where
  "sample_packet = new_from_buf \<lparr>bm_data = map of_nat [0..<22], bm_cap = 32\<rparr> TCP"

lemma sample_packet_simps: "payload_offset sample_packet = 20" "buf_len sample_packet = 22"
  by (simp_all add: sample_packet_def payload_offset_def buf_len_def new_from_buf_def size_defs)

theorem fill_peer_manager_hdr_spec_witness:
  "\<exists>p' h. fill_peer_manager_hdr 1 2 3 sample_packet = Inr p' \<and> peer_manager_header p' = Inr (Some h) \<and>
     from_peer_id h = 1 \<and> hdr_len h = 2 \<and> payload p' = payload sample_packet"
  using fill_peer_manager_hdr_spec [of sample_packet 1 2 3] by (auto simp: sample_packet_simps)

lemma convert_type_keeps:
  assumes "zc_inv p" and "target \<noteq> NIC"
  shows "\<exists>p'. convert_type junk target p = Inr p' \<and> zc_inv p' \<and> zc_type p' = target \<and>
     tunnel_payload p' = tunnel_payload p \<and> peer_manager_header p' = peer_manager_header p \<and>
     payload p' = payload p"
proof -
  let ?pm = "\<lambda>t. peer_manager_header_offset (get_packet_offsets t)"
  have len: "payload_offset p \<le> length (zc_bytes p)" and cap: "length (zc_bytes p) \<le> bm_cap (zc_inner p)"
    using assms(1) by (simp_all add: zc_inv_def bm_inv_def)
  have pm: "payload_offset p = ?pm (zc_type p) + PEER_MANAGER_HEADER_SIZE"
    by (simp add: payload_offset_def payload_after_header)
  note tp = tunnel_payload_ok [OF len]
  have step: "\<exists>p'. convert_type junk target p = Inr p' \<and> zc_inv p' \<and> zc_type p' = target \<and>
     tunnel_payload p' = tunnel_payload p"
  proof (cases "target = zc_type p")
    case True
    with assms(1) show ?thesis by (simp add: convert_type_def)
  next
    case False
    obtain off where off: "conversion_offset (zc_type p) target = Inr off"
      "off = INVALID_OFFSET \<or> off + ?pm target = ?pm (zc_type p)"
      using conversion_offset_cases [OF assms(2)] by blast
    show ?thesis
    proof (cases "off = INVALID_OFFSET")
      case True
      then have "convert_type junk target p = Inr (new_from_buf
          \<lparr>bm_data = map junk [0..<?pm target] @ drop (?pm (zc_type p)) (zc_bytes p),
           bm_cap = ?pm target + length (drop (?pm (zc_type p)) (zc_bytes p))\<rparr> target)"
        using False off tp
        by (simp add: convert_type_def Let_def bm_extend_def bm_set_len_def bm_with_capacity_def)
      with len pm tp show ?thesis
        by (auto simp: new_from_buf_def zc_inv_def bm_inv_def payload_offset_def payload_after_header
            tunnel_payload_def slice_from_def)
    next
      case ninv: False
      with off(2) have o: "off + ?pm target = ?pm (zc_type p)" by blast
      then have "off \<le> bm_cap (zc_inner p)" using len cap pm by linarith
      then have "convert_type junk target p = Inr (new_from_buf
          \<lparr>bm_data = drop off (zc_bytes p), bm_cap = bm_cap (zc_inner p) - off\<rparr> target)"
        using False ninv off by (simp add: convert_type_def bm_split_off_def)
      moreover have "drop (?pm target) (drop off (zc_bytes p)) = drop (?pm (zc_type p)) (zc_bytes p)"
        using o by (simp add: add.commute)
      ultimately show ?thesis
        using o len cap pm tp
        by (auto simp: new_from_buf_def zc_inv_def bm_inv_def payload_offset_def payload_after_header
            tunnel_payload_def slice_from_def)
    qed
  qed
  then obtain p' where p': "convert_type junk target p = Inr p'" "zc_inv p'" "zc_type p' = target"
    "tunnel_payload p' = tunnel_payload p" by blast
  moreover have "PEER_MANAGER_HEADER_SIZE \<le> length (drop (?pm (zc_type p)) (zc_bytes p))"
    using len pm by simp
  ultimately show ?thesis
    using header_from_tunnel_payload [OF tp] header_from_tunnel_payload [of p' "drop (?pm (zc_type p)) (zc_bytes p)"] tp
    by metis
qed

text \<open>
  C25. Converting a well-formed packet to any tunnel type other than the device type succeeds and
  keeps the tunnel payload, hence the peer manager header and the payload, byte for byte. Asking
  for the device type of another packet is the \<open>unreachable!\<close> branch.
\<close>

theorem convert_type_preserves:
  assumes "zc_inv p" and "target \<noteq> NIC"
  shows "\<exists>p'. convert_type junk target p = Inr p' \<and> zc_inv p' \<and> zc_type p' = target \<and>
     tunnel_payload p' = tunnel_payload p \<and> peer_manager_header p' = peer_manager_header p \<and>
     payload p' = payload p"
  using assms by (rule convert_type_keeps)

theorem convert_type_preserves_witness:
  "\<exists>p'. convert_type (\<lambda>_. 0) WG sample_packet = Inr p' \<and> zc_type p' = WG \<and>
     payload p' = payload sample_packet"
proof -
  have "zc_inv sample_packet"
    using sample_packet_simps
    by (simp add: zc_inv_def bm_inv_def buf_len_def sample_packet_def new_from_buf_def)
  with convert_type_preserves [of sample_packet WG "\<lambda>_. 0"] show ?thesis by auto
qed

lemma flag_contains_put:
  fixes m m' :: u8
  assumes "m AND m' = 0 \<or> m = m'" and "m' \<noteq> 0"
  shows "flag_contains (flag_put m b bits) m' = (if m = m' then b else flag_contains bits m')"
proof (cases "m = m'")
  case True
  have "(bits OR m') AND m' = m'" and "(bits AND NOT m') AND m' = 0"
    by (auto intro!: bit_word_eqI simp: bit_simps)
  with True assms(2) show ?thesis by (simp add: flag_contains_def flag_put_def)
next
  case False
  with assms(1) have dj: "m AND m' = 0" by simp
  have "(bits OR m) AND m' = (bits AND m') OR (m AND m')"
    by (simp add: bit.conj_disj_distrib2)
  moreover have "(bits AND NOT m) AND m' = bits AND m'"
  proof (rule bit_word_eqI)
    fix n assume "n < LENGTH(8)"
    have "\<not> (bit m n \<and> bit m' n)" using dj by (metis bit_and_iff bit_0_eq bot_apply bot_bool_def)
    then show "bit ((bits AND NOT m) AND m') n \<longleftrightarrow> bit (bits AND m') n"
      using \<open>n < LENGTH(8)\<close> by (auto simp: bit_simps)
  qed
  ultimately show ?thesis using False dj by (simp add: flag_contains_def flag_put_def)
qed

definition flag_tests :: "(PeerManagerHeader \<Rightarrow> bool) list" where
  "flag_tests = [is_encrypted, is_latency_first, is_exit_node, is_no_proxy, is_compressed,
     is_kcp_src_modified]"

definition flag_setters :: "(bool \<Rightarrow> PeerManagerHeader \<Rightarrow> PeerManagerHeader) list" where
  "flag_setters = [set_encrypted, set_latency_first, set_exit_node, set_no_proxy, set_compressed,
     set_kcp_src_modified]"

lemma less_6_cases: "(i::nat) < 6 \<longleftrightarrow> i \<in> {0, 1, 2, 3, 4, 5}"
  by auto

text \<open>
  The six header flags are independent: setting one makes exactly its own test return the value
  set, and every other flag test, as well as every other header field, is unchanged.
\<close>

theorem flags_independent:
  assumes "i < 6" and "j < 6"
  shows "(flag_tests ! i) ((flag_setters ! j) b h) = (if i = j then b else (flag_tests ! i) h) \<and>
     ((flag_setters ! j) b h)\<lparr>flags := 0\<rparr> = h\<lparr>flags := 0\<rparr>"
  using assms unfolding less_6_cases
  by (elim insertE emptyE)
    (simp_all add: flag_tests_def flag_setters_def flag_op_defs flag_defs flag_contains_put)

theorem flags_independent_witness:
  "is_encrypted (set_compressed True (pm_hdr_of (replicate 16 1)))
     = is_encrypted (pm_hdr_of (replicate 16 1))"
  using flags_independent [of 0 4 True "pm_hdr_of (replicate 16 1)"]
  by (simp add: flag_tests_def flag_setters_def)

lemma new_with_payload_run:
  "new_with_payload junk pl = Inr (new_from_buf
     \<lparr>bm_data = map junk [0..<PAYLOAD_OFFSET_FOR_NIC_PACKET] @ pl,
      bm_cap = PAYLOAD_OFFSET_FOR_NIC_PACKET + length pl\<rparr> NIC)"
  by (simp add: new_with_payload_def new_nic_packet_def bm_set_len_def bm_reserve_def bm_new_def Let_def
      slice_from_def copy_into_def write_at_def new_from_buf_def take_map)
     
text \<open>
  Building a device packet around a payload never panics and yields a well-formed packet whose
  payload is exactly the given bytes, whatever the uninitialised header area held.
\<close>

theorem new_with_payload_roundtrip:
  "\<exists>p. new_with_payload junk pl = Inr p \<and> zc_inv p \<and> zc_type p = NIC \<and> payload p = Inr pl \<and>
     payload_len p = Inr (length pl)"
  by (simp add: new_with_payload_run zc_inv_def bm_inv_def payload_def payload_len_def payload_offset_def
      new_from_buf_def slice_from_def checked_sub_def)

section \<open>Foreign network encapsulation\<close>

lemma foreign_hdr_new_ok:
  assumes "length name + FOREIGN_NETWORK_HEADER_SIZE < 2 ^ 16"
  shows "\<exists>fh. foreign_hdr_new dst name = Inr fh \<and>
     get_header_len fh = FOREIGN_NETWORK_HEADER_SIZE + length name \<and>
     unat (network_name_offset fh) = FOREIGN_NETWORK_HEADER_SIZE \<and>
     unat (network_name_len fh) = length name \<and> dst_peer_id fh = dst"
  using assms
  by (simp add: foreign_hdr_new_def checked_add_def Let_def get_header_len_def unat_of_nat
      unat_word_ariths FOREIGN_NETWORK_HEADER_SIZE_def)

lemma foreign_hdr_new_too_long:
  assumes "2 ^ 16 \<le> length name + FOREIGN_NETWORK_HEADER_SIZE" and "length name < 2 ^ 16"
  shows "foreign_hdr_new dst name = Inl ArithOverflow"
  using assms
  by (simp add: foreign_hdr_new_def checked_add_def Let_def unat_of_nat FOREIGN_NETWORK_HEADER_SIZE_def)

lemma copy_into_here:
  assumes "length a = lo" and "length b = hi - lo" and "lo \<le> hi" and "length src = hi - lo"
  shows "copy_into (a @ b @ c) lo hi src = Inr (a @ src @ c)"
  using assms by (simp add: copy_into_def write_at_def)

text \<open>The wrapped packet: header area, fixed header, name, inner tunnel payload.\<close>

lemma new_for_foreign_network_run:
  assumes name: "length name + FOREIGN_NETWORK_HEADER_SIZE < 2 ^ 16"
    and tp: "tunnel_payload q = Inr tp"
  shows "\<exists>fh h p'. foreign_hdr_new dst name = Inr fh \<and> new_for_foreign_network junk name dst q = Inr p' \<and>
     zc_inv p' \<and> zc_type p' = NIC \<and> peer_manager_header p' = Inr (Some h) \<and>
     from_peer_id h = 0 \<and> to_peer_id h = 0 \<and>
     packet_type h = packet_type_u8 PForeignNetworkPacket \<and>
     hdr_len h = of_nat (FOREIGN_NETWORK_HEADER_SIZE + length name + length tp) \<and>
     drop (payload_offset p') (zc_bytes p') = fn_hdr_bytes fh @ name @ tp"
proof -
  let ?F = FOREIGN_NETWORK_HEADER_SIZE and ?N = PAYLOAD_OFFSET_FOR_NIC_PACKET
  obtain fh where fh: "foreign_hdr_new dst name = Inr fh" "get_header_len fh = ?F + length name"
    "unat (network_name_offset fh) = ?F" "unat (network_name_len fh) = length name"
    "dst_peer_id fh = dst"
    using foreign_hdr_new_ok [OF name] by blast
  let ?tot = "?N + (?F + length name + length tp)"
  have len_fh: "length (fn_hdr_bytes fh) = ?F" by (rule fn_hdr.enc_length) simp
  let ?j = "map junk [0..<?N]" and ?ja = "map junk [?N..<?N + ?F]"
    and ?jb = "map junk [?N + ?F..<?N + ?F + length name]"
    and ?jc = "map junk [?N + ?F + length name..<?tot]"
  have junk: "map junk [0..<?tot] = ?j @ ?ja @ ?jb @ ?jc"
    using upt_split [of 0 ?N ?tot] upt_split [of ?N "?N + ?F" ?tot]
      upt_split [of "?N + ?F" "?N + ?F + length name" ?tot] by (simp flip: map_append)
  have c1: "copy_into (map junk [0..<?tot]) ?N (?N + ?F) (fn_hdr_bytes fh) =
      Inr (?j @ fn_hdr_bytes fh @ ?jb @ ?jc)"
    unfolding junk by (rule copy_into_here) (simp_all add: len_fh)
  have c2: "copy_into (?j @ fn_hdr_bytes fh @ ?jb @ ?jc) (?N + ?F) (?N + (?F + length name)) name =
      Inr (?j @ fn_hdr_bytes fh @ name @ ?jc)"
    using copy_into_here [of "?j @ fn_hdr_bytes fh" "?N + ?F" ?jb "?N + (?F + length name)" name ?jc]
    by (simp add: len_fh)
  have c3: "copy_into (?j @ fn_hdr_bytes fh @ name @ ?jc) (?N + (?F + length name))
      (length (?j @ fn_hdr_bytes fh @ name @ ?jc)) tp = Inr (?j @ fn_hdr_bytes fh @ name @ tp)"
    using copy_into_here [of "?j @ fn_hdr_bytes fh @ name" "?N + (?F + length name)" ?jc ?tot tp "[]"]
    by (simp add: len_fh algebra_simps)
  define p0 where "p0 = new_from_buf
    \<lparr>bm_data = ?j @ fn_hdr_bytes fh @ name @ tp, bm_cap = ?tot\<rparr> NIC"
  have p0: "payload_offset p0 \<le> length (zc_bytes p0)" "zc_type p0 = NIC" "payload_offset p0 = ?N"
    "length (zc_bytes p0) \<le> bm_cap (zc_inner p0)"
    "drop ?N (zc_bytes p0) = fn_hdr_bytes fh @ name @ tp"
    by (simp_all add: p0_def new_from_buf_def payload_offset_def len_fh)
  show ?thesis
  proof (rule mut_peer_manager_header_effect [OF p0(1), of "\<lambda>h. h\<lparr>from_peer_id := 0, to_peer_id := 0,
      packet_type := packet_type_u8 PForeignNetworkPacket,
      hdr_len := of_nat (?F + length name + length tp)\<rparr>"])
    fix p'
    assume p': "mut_peer_manager_header (\<lambda>h. h\<lparr>from_peer_id := 0, to_peer_id := 0,
        packet_type := packet_type_u8 PForeignNetworkPacket,
        hdr_len := of_nat (?F + length name + length tp)\<rparr>) p0 = Inr (Some p')"
      "zc_type p' = zc_type p0" "length (zc_bytes p') = length (zc_bytes p0)"
      "bm_cap (zc_inner p') = bm_cap (zc_inner p0)"
      "drop (payload_offset p0) (zc_bytes p') = drop (payload_offset p0) (zc_bytes p0)"
      and hdr: "peer_manager_header p' = Inr (map_option (\<lambda>h. h\<lparr>from_peer_id := 0, to_peer_id := 0,
        packet_type := packet_type_u8 PForeignNetworkPacket,
        hdr_len := of_nat (?F + length name + length tp)\<rparr>) (Some (pm_hdr_of
          (take PEER_MANAGER_HEADER_SIZE
           (drop (peer_manager_header_offset (get_packet_offsets (zc_type p0))) (zc_bytes p0))))))"
    have "new_for_foreign_network junk name dst q = Inr p'"
      using c1 c2 c3 p'(1)
      by (simp add: new_for_foreign_network_def fh tp Let_def new_nic_packet_def bm_set_len_def
          bm_reserve_def bm_new_def p0_def)
    moreover have "payload_offset p' = ?N"
      using p'(2) p0(2) by (simp add: payload_offset_def)
    ultimately show ?thesis
      using p' p0 hdr fh(1) by (auto simp: zc_inv_def bm_inv_def)
  qed
qed

lemma foreign_hdr_read_back:
  assumes "payload_offset p \<le> length (zc_bytes p)"
    and "peer_manager_header p = Inr (Some h)"
    and "packet_type h = packet_type_u8 PForeignNetworkPacket"
    and "drop (payload_offset p) (zc_bytes p) = fn_hdr_bytes fh @ rest"
  shows "foreign_network_hdr p = Inr (Some fh)"
  using assms fn_hdr.read_back [of fh rest]
  by (simp add: foreign_network_hdr_def payload_ok)

lemma get_network_name_ok:
  assumes "foreign_hdr_new dst name = Inr fh"
    and "length name + FOREIGN_NETWORK_HEADER_SIZE < 2 ^ 16" and "utf8_valid name"
  shows "get_network_name fh (fn_hdr_bytes fh @ name @ rest) = Inr name"
proof -
  have "length (fn_hdr_bytes fh) = FOREIGN_NETWORK_HEADER_SIZE"
    by (rule fn_hdr.enc_length) simp
  with assms foreign_hdr_new_ok [OF assms(2), of dst] show ?thesis
    by (auto simp: get_network_name_def Let_def slice_def)
qed

text \<open>
  C26. Encapsulation for a foreign network is invertible: wrapping a well-formed packet succeeds for
  every valid network name of at most 65525 bytes, and at the receiver the wrapped packet yields
  the network name, the destination and an inner packet with the same peer manager header and
  payload as the original.
\<close>

theorem foreign_network_roundtrip:
  assumes "zc_inv q" and "utf8_valid name" and "length name < 65526"
  shows "\<exists>p' fh pl r. new_for_foreign_network junk name dst q = Inr p' \<and>
     foreign_network_hdr p' = Inr (Some fh) \<and> get_dst_peer_id fh = dst \<and>
     payload p' = Inr pl \<and> get_network_name fh pl = Inr name \<and>
     foreign_network_packet p' = Inr r \<and> zc_type r = DummyTunnel \<and>
     peer_manager_header r = peer_manager_header q \<and> payload r = payload q"
proof -
  let ?pm = "peer_manager_header_offset (get_packet_offsets (zc_type q))"
  define tp where "tp = drop ?pm (zc_bytes q)"
  have name: "length name + FOREIGN_NETWORK_HEADER_SIZE < 2 ^ 16"
    using assms(3) by (simp add: FOREIGN_NETWORK_HEADER_SIZE_def)
  have tp: "tunnel_payload q = Inr tp"
    using assms(1) tunnel_payload_ok [of q] by (simp add: zc_inv_def tp_def)
  have big: "PEER_MANAGER_HEADER_SIZE \<le> length tp"
    using assms(1) by (auto simp: zc_inv_def payload_offset_def payload_after_header tp_def)
  obtain fh h p' where run: "foreign_hdr_new dst name = Inr fh" "new_for_foreign_network junk name dst q = Inr p'"
    "zc_inv p'" "zc_type p' = NIC" "peer_manager_header p' = Inr (Some h)"
    "packet_type h = packet_type_u8 PForeignNetworkPacket"
    "drop (payload_offset p') (zc_bytes p') = fn_hdr_bytes fh @ name @ tp"
    using new_for_foreign_network_run [OF name tp] by blast
  have len: "payload_offset p' \<le> length (zc_bytes p')" and cap: "length (zc_bytes p') \<le> bm_cap (zc_inner p')"
    using run(3) by (simp_all add: zc_inv_def bm_inv_def)
  have hdr: "foreign_network_hdr p' = Inr (Some fh)"
    by (rule foreign_hdr_read_back [OF len run(5,6,7)])
  have fh: "get_header_len fh = FOREIGN_NETWORK_HEADER_SIZE + length name" "dst_peer_id fh = dst"
    using foreign_hdr_new_ok [OF name, of dst] run(1) by auto
  have lfh: "length (fn_hdr_bytes fh) = FOREIGN_NETWORK_HEADER_SIZE"
    by (rule fn_hdr.enc_length) simp
  define r where "r = new_from_buf \<lparr>bm_data = tp,
    bm_cap = bm_cap (zc_inner p') - (get_header_len fh + payload_offset p')\<rparr> DummyTunnel"
  have "length (drop (payload_offset p') (zc_bytes p')) = get_header_len fh + length tp"
    by (simp add: run(7) fh lfh)
  then have "get_header_len fh + payload_offset p' \<le> bm_cap (zc_inner p')"
    using len cap by simp
  moreover have "drop (get_header_len fh + payload_offset p') (zc_bytes p') = tp"
    using run(7) lfh by (simp flip: drop_drop add: fh)
  ultimately have pkt: "foreign_network_packet p' = Inr r"
    by (simp add: foreign_network_packet_def hdr bm_split_off_def r_def)
  have rtp: "tunnel_payload r = Inr tp"
    by (simp add: r_def tunnel_payload_def new_from_buf_def slice_from_def)
  have "peer_manager_header r = peer_manager_header q" and "payload r = payload q"
    using header_from_tunnel_payload [OF rtp] header_from_tunnel_payload [OF tp] big by simp_all
  moreover have "zc_type r = DummyTunnel" by (simp add: r_def new_from_buf_def)
  ultimately show ?thesis
    using run(2) hdr fh(2) pkt payload_ok [OF len] get_network_name_ok [OF run(1) name assms(2), of tp]
    by (auto simp: run(7) get_dst_peer_id_def)
qed

theorem foreign_network_roundtrip_witness:
  "\<exists>p' r. new_for_foreign_network (\<lambda>_. 7) [110, 101, 116] 42 sample_packet = Inr p' \<and>
     foreign_network_packet p' = Inr r \<and> payload r = payload sample_packet"
proof -
  have "zc_inv sample_packet"
    using sample_packet_simps
    by (simp add: zc_inv_def bm_inv_def buf_len_def sample_packet_def new_from_buf_def)
  moreover have "utf8_valid [110, 101, 116]" by simp
  ultimately show ?thesis
    using foreign_network_roundtrip [of sample_packet "[110, 101, 116]" "\<lambda>_. 7" 42] by auto
qed

text \<open>
  A network name too long for the 16-bit header length is never sent truncated: wrapping panics
  for every name of 65526 bytes or more.
\<close>

theorem foreign_network_name_too_long:
  assumes "65526 \<le> length name"
  shows "\<exists>e. new_for_foreign_network junk name dst q = Inl e"
proof (cases "length name < 2 ^ 16")
  case True
  then have "foreign_hdr_new dst name = Inl ArithOverflow"
    using assms by (intro foreign_hdr_new_too_long) (simp_all add: FOREIGN_NETWORK_HEADER_SIZE_def)
  then show ?thesis by (simp add: new_for_foreign_network_def)
next
  case False
  show ?thesis
  proof (cases "new_for_foreign_network junk name dst q")
    case (Inr p')
    then obtain b lo a and w :: u16 and b'
      where "copy_into b (lo + a) (lo + (a + unat w)) name = Inr b'"
      by (auto simp: new_for_foreign_network_def Let_def rbind_Inr_iff)
    then have "length name = unat w"
      by (auto simp: copy_into_def split: if_splits)
    moreover have "unat w < 2 ^ 16" using unsigned_less [of w] by simp
    ultimately show ?thesis using False by simp
  qed simp
qed

theorem foreign_network_name_too_long_witness:
  "\<exists>e. new_for_foreign_network (\<lambda>_. 0) (replicate 65526 97) 1 sample_packet = Inl e"
  by (rule foreign_network_name_too_long) simp

end
