(* ===== verification/Float64.thy ===== *)
theory Float64
  imports Complex_Main "HOL-Library.Log_Nat" Prelude
begin

text \<open>
  Rust's \<open>f64\<close> on non-negative values, as far as the rate limiter uses it: conversion from \<open>u64\<close>,
  division, multiplication, and the truncating, saturating cast back to \<open>u64\<close>. A finite value is
  a rational; every operation rounds its exact result to 53 significant bits, ties to even. The
  operands here stay between \<open>2^-60\<close> and \<open>2^140\<close>, far from the subnormal range and from overflow.
\<close>

section \<open>Rounding\<close>

definition round_even :: "rat \<Rightarrow> int" where
  "round_even x =
     (let f = \<lfloor>x\<rfloor>; d = x - of_int f
      in if d < 1 / 2 then f else if 1 / 2 < d then f + 1 else if even f then f else f + 1)"

definition log2_floor :: "rat \<Rightarrow> int" where
  "log2_floor q =
     (let (a, b) = quotient_of q; k = bitlen a - bitlen b
      in if 2 powi k \<le> q then k else k - 1)"

definition f64_round :: "rat \<Rightarrow> rat" where
  "f64_round q =
     (if q \<le> 0 then 0
      else let e = log2_floor q - 52 in of_int (round_even (q / 2 powi e)) * 2 powi e)"

definition f64_of_u64 :: "u64 \<Rightarrow> rat" where
  "f64_of_u64 n = f64_round (of_nat (unat n))"

definition f64_div :: "rat \<Rightarrow> rat \<Rightarrow> rat" where
  "f64_div x y = f64_round (x / y)"

definition f64_mul :: "rat \<Rightarrow> rat \<Rightarrow> rat" where
  "f64_mul x y = f64_round (x * y)"

definition f64_to_u64 :: "rat \<Rightarrow> u64" where
  "f64_to_u64 q = (if 2 ^ 64 \<le> q then - 1 else of_nat (nat \<lfloor>q\<rfloor>))"

section \<open>Error of one rounding\<close>

lemma round_even_error: "\<bar>of_int (round_even x) - x\<bar> \<le> 1 / 2"
proof -
  have "0 \<le> x - of_int \<lfloor>x\<rfloor>" and "x - of_int \<lfloor>x\<rfloor> < 1" by linarith+
  then show ?thesis by (auto simp: round_even_def Let_def)
qed

lemma log2_floor_bounds:
  assumes "0 < q"
  shows "2 powi log2_floor q \<le> q" and "q < 2 powi (log2_floor q + 1)"
proof -
  obtain a b where ab: "quotient_of q = (a, b)" by (cases "quotient_of q")
  have b: "0 < b" using quotient_of_denom_pos [OF ab] .
  have q: "q = of_int a / of_int b" using quotient_of_div [OF ab] .
  with assms b have a: "0 < a" by (simp add: zero_less_divide_iff)
  let ?k = "bitlen a - bitlen b"
  have up: "of_int x < (2 powi bitlen x :: rat)" and lo: "2 powi (bitlen x - 1) \<le> (of_int x :: rat)"
    if "0 < x" for x
  proof -
    have nn: "0 \<le> bitlen x - 1" using that bitlen_nonneg [of x] bitlen_eq_zero_iff [of x] by linarith
    have "(2::int) ^ nat (bitlen x - 1) \<le> x" and "x < 2 ^ nat (bitlen x)"
      using bitlen_bounds [of x] that by auto
    then have "(2::rat) ^ nat (bitlen x - 1) \<le> of_int x" and "of_int x < (2::rat) ^ nat (bitlen x)"
      by (metis of_int_le_iff of_int_numeral of_int_power) (metis \<open>x < 2 ^ nat (bitlen x)\<close> of_int_less_iff of_int_numeral of_int_power)
    with nn show "of_int x < (2 powi bitlen x :: rat)" "2 powi (bitlen x - 1) \<le> (of_int x :: rat)"
      by (simp_all add: power_int_def)
  qed
  have "2 powi (?k - 1) * (of_int b :: rat) \<le> 2 powi (?k - 1) * (2 powi bitlen b)"
    using up [OF b] by (intro mult_left_mono) auto
  also have "\<dots> = 2 powi (bitlen a - 1)"
    by (simp flip: power_int_add)
  also have "\<dots> \<le> of_int a" by (rule lo [OF a])
  finally have L: "2 powi (?k - 1) \<le> q" using b by (simp add: q pos_le_divide_eq)
  have "of_int a < (2 powi bitlen a :: rat)" by (rule up [OF a])
  also have "\<dots> = 2 powi (?k + 1) * 2 powi (bitlen b - 1)"
    by (simp flip: power_int_add)
  also have "\<dots> \<le> 2 powi (?k + 1) * of_int b"
    using lo [OF b] by (intro mult_left_mono) auto
  finally have U: "q < 2 powi (?k + 1)" using b by (simp add: q pos_divide_less_eq)
  show "2 powi log2_floor q \<le> q" and "q < 2 powi (log2_floor q + 1)"
    using L U by (auto simp: log2_floor_def ab Let_def)
qed

lemma f64_round_error:
  assumes "0 \<le> q"
  shows "\<bar>f64_round q - q\<bar> \<le> q / 2 ^ 53"
proof (cases "q = 0")
  case True
  then show ?thesis by (simp add: f64_round_def)
next
  case False
  with assms have q: "0 < q" by simp
  let ?e = "log2_floor q - 52"
  have e: "0 < (2 powi ?e :: rat)" by simp
  have "f64_round q - q = (of_int (round_even (q / 2 powi ?e)) - q / 2 powi ?e) * 2 powi ?e"
    using q by (simp add: f64_round_def Let_def field_simps)
  then have "\<bar>f64_round q - q\<bar> = \<bar>of_int (round_even (q / 2 powi ?e)) - q / 2 powi ?e\<bar> * 2 powi ?e"
    using e by (simp add: abs_mult)
  also have "\<dots> \<le> 1 / 2 * 2 powi ?e"
    by (intro mult_right_mono round_even_error) simp
  also have "\<dots> = 2 powi log2_floor q / 2 ^ 53"
    by (simp add: power_int_diff)
  also have "\<dots> \<le> q / 2 ^ 53"
    using log2_floor_bounds(1) [OF q] by (simp add: divide_right_mono)
  finally show ?thesis .
qed

lemma f64_round_upper: "0 \<le> q \<Longrightarrow> f64_round q \<le> q * (1 + 1 / 2 ^ 53)"
proof -
  assume "0 \<le> q"
  then have "f64_round q - q \<le> q / 2 ^ 53"
    using f64_round_error [of q] by (meson abs_ge_self order_trans)
  then show ?thesis by (simp add: algebra_simps)
qed

lemma f64_round_nonneg: "0 \<le> f64_round q"
proof (cases "0 < q")
  case True
  have "q / 2 ^ 53 \<le> q" using True by simp
  moreover have "- (f64_round q - q) \<le> q / 2 ^ 53"
    using f64_round_error [of q] True by (meson abs_ge_minus_self less_imp_le order_trans)
  ultimately show ?thesis by linarith
next
  case False
  then show ?thesis by (simp add: f64_round_def)
qed

lemma f64_to_u64_le: "0 \<le> q \<Longrightarrow> of_nat (unat (f64_to_u64 q)) \<le> q"
proof -
  assume q: "0 \<le> q"
  show ?thesis
  proof (cases "2 ^ 64 \<le> q")
    case True
    have "unat (f64_to_u64 q) < 2 ^ 64"
      using unsigned_less [of "f64_to_u64 q"] by simp
    then have "of_nat (unat (f64_to_u64 q)) < (of_nat (2 ^ 64) :: rat)"
      by (simp only: of_nat_less_iff)
    then have "of_nat (unat (f64_to_u64 q)) < (2 ^ 64 :: rat)"
      by (simp only: of_nat_power of_nat_numeral)
    with True show ?thesis by simp
  next
    case False
    have "unat (of_nat (nat \<lfloor>q\<rfloor>) :: u64) \<le> nat \<lfloor>q\<rfloor>"
      by (simp add: unat_of_nat)
    then have "(of_nat (unat (of_nat (nat \<lfloor>q\<rfloor>) :: u64)) :: rat) \<le> of_nat (nat \<lfloor>q\<rfloor>)"
      by (simp only: of_nat_le_iff)
    also have "of_nat (nat \<lfloor>q\<rfloor>) \<le> q" using q by simp
    finally show ?thesis
      unfolding f64_to_u64_def if_not_P [OF False] .
  qed
qed

end
