(* ===== verification/TokenBucket.thy ===== *)
theory TokenBucket
  imports Float64
begin

text \<open>
  The token bucket rate limiter (\<open>src/app/src/common/token_bucket.rs\<close>): its configuration, the
  refill of the background task, \<open>try_consume\<close>, and the bucket manager.

  The two compare-exchange loops are modelled twice: as the functions they compute when no other
  thread interferes (\<open>refill\<close>, \<open>try_consume\<close>) and, for the concurrent claims, as a step relation
  \<open>tb_step\<close> in which any number of threads interleave loads, successful and failing exchanges.
\<close>

section \<open>Configuration\<close>

record LimiterConfig =
  lc_burst_rate :: "u64 option"
  lc_bps :: "u64 option"
  lc_fill_duration_ms :: "u64 option"

record BucketConfig =
  capacity :: u64
  fill_rate :: u64
  refill_interval_ms :: u64

definition checked_mul :: "'a::len word \<Rightarrow> 'a word \<Rightarrow> 'a word rust" where
  "checked_mul a b = (if unat a * unat b < 2 ^ LENGTH('a) then Inr (a * b) else Inl ArithOverflow)"

definition bucket_config_from :: "LimiterConfig \<Rightarrow> BucketConfig rust" where
  "bucket_config_from cfg =
     (let burst_rate = max 1 (case lc_burst_rate cfg of Some b \<Rightarrow> b | None \<Rightarrow> 1);
          rate = max 8196 (case lc_bps cfg of Some r \<Rightarrow> r | None \<Rightarrow> (- 1) div burst_rate);
          interval = (case lc_fill_duration_ms cfg of Some x \<Rightarrow> max 1 x | None \<Rightarrow> 10)
      in rmap (\<lambda>cap. \<lparr>capacity = cap, fill_rate = rate, refill_interval_ms = interval\<rparr>)
           (checked_mul burst_rate rate))"

section \<open>The bucket\<close>

record TokenBucket =
  available_tokens :: u64
  last_refill_time :: u64
  tb_config :: BucketConfig

definition token_bucket_new_from_cfg :: "BucketConfig \<Rightarrow> TokenBucket" where
  "token_bucket_new_from_cfg config =
     \<lparr>available_tokens = capacity config, last_refill_time = 0, tb_config = config\<rparr>"

definition token_bucket_new :: "u64 \<Rightarrow> u64 \<Rightarrow> u64 \<Rightarrow> TokenBucket" where
  "token_bucket_new cap bps interval =
     token_bucket_new_from_cfg \<lparr>capacity = cap, fill_rate = bps, refill_interval_ms = interval\<rparr>"

definition saturating_sub :: "'a::len word \<Rightarrow> 'a word \<Rightarrow> 'a word" where
  "saturating_sub a b = (if b \<le> a then a - b else 0)"

definition saturating_add :: "'a::len word \<Rightarrow> 'a word \<Rightarrow> 'a word" where
  "saturating_add a b = (if unat a + unat b < 2 ^ LENGTH('a) then a + b else - 1)"

definition tokens_to_add :: "u64 \<Rightarrow> u64 \<Rightarrow> u64 \<Rightarrow> u64" where
  "tokens_to_add rate now_micros prev_time =
     (let elapsed_secs = f64_div (f64_of_u64 (saturating_sub now_micros prev_time)) 1000000
      in f64_to_u64 (f64_mul (f64_of_u64 rate) elapsed_secs))"

definition refilled :: "u64 \<Rightarrow> u64 \<Rightarrow> u64 \<Rightarrow> u64" where
  "refilled cap add current = min (saturating_add current add) cap"

definition refill :: "u64 \<Rightarrow> TokenBucket \<Rightarrow> TokenBucket" where
  "refill now_micros b =
     (let prev_time = last_refill_time b;
          b = b\<lparr>last_refill_time := now_micros\<rparr>;
          add = tokens_to_add (fill_rate (tb_config b)) now_micros prev_time
      in if add = 0 then b
         else b\<lparr>available_tokens := refilled (capacity (tb_config b)) add (available_tokens b)\<rparr>)"

definition try_consume :: "u64 \<Rightarrow> TokenBucket \<Rightarrow> bool \<times> TokenBucket" where
  "try_consume tokens b =
     (if capacity (tb_config b) < tokens then (False, b)
      else if available_tokens b < tokens then (False, b)
      else (True, b\<lparr>available_tokens := available_tokens b - tokens\<rparr>))"

definition tb_inv :: "TokenBucket \<Rightarrow> bool" where
  "tb_inv b \<longleftrightarrow> available_tokens b \<le> capacity (tb_config b)"

section \<open>The manager\<close>

type_synonym TokenBucketManager = "(string, TokenBucket) dmap"

definition tbm_get_or_create ::
  "string \<Rightarrow> BucketConfig \<Rightarrow> TokenBucketManager \<Rightarrow> TokenBucket \<times> TokenBucketManager" where
  "tbm_get_or_create key cfg m =
     (let m' = dm_or_insert key (token_bucket_new_from_cfg cfg) m
      in (case dm_get m' key of Some b \<Rightarrow> b | None \<Rightarrow> token_bucket_new_from_cfg cfg, m'))"

text \<open>The retain task keeps the buckets that some limiter still holds a reference to.\<close>

definition tbm_retain :: "(string \<Rightarrow> nat) \<Rightarrow> TokenBucketManager \<Rightarrow> TokenBucketManager" where
  "tbm_retain strong_count m = dm_retain (\<lambda>k _. strong_count k > 1) m"

section \<open>Interleaving semantics of the exchange loops\<close>

datatype tb_thread =
    Idle
  | Consuming u64 u64   \<comment> \<open>requested tokens, value last seen\<close>
  | Refilling u64 u64   \<comment> \<open>tokens to add, value last seen\<close>

record tb_state =
  shared :: u64
  threads :: "nat \<Rightarrow> tb_thread"
  granted :: nat   \<comment> \<open>ghost: tokens of all successful \<open>try_consume\<close> calls\<close>
  added :: nat     \<comment> \<open>ghost: tokens of all finished refills\<close>

inductive tb_step :: "u64 \<Rightarrow> tb_state \<Rightarrow> tb_state \<Rightarrow> bool" for cap :: u64 where
  consume_load: "threads s i = Idle \<Longrightarrow> \<not> cap < t \<Longrightarrow>
     tb_step cap s (s\<lparr>threads := (threads s)(i := Consuming t (shared s))\<rparr>)"
| consume_insufficient: "threads s i = Consuming t cur \<Longrightarrow> cur < t \<Longrightarrow>
     tb_step cap s (s\<lparr>threads := (threads s)(i := Idle)\<rparr>)"
| consume_exchange: "threads s i = Consuming t cur \<Longrightarrow> \<not> cur < t \<Longrightarrow> shared s = cur \<Longrightarrow>
     tb_step cap s (s\<lparr>shared := cur - t, threads := (threads s)(i := Idle),
       granted := granted s + unat t\<rparr>)"
| consume_retry: "threads s i = Consuming t cur \<Longrightarrow> \<not> cur < t \<Longrightarrow>
     tb_step cap s (s\<lparr>threads := (threads s)(i := Consuming t (shared s))\<rparr>)"
| refill_load: "threads s i = Idle \<Longrightarrow> add \<noteq> 0 \<Longrightarrow>
     tb_step cap s (s\<lparr>threads := (threads s)(i := Refilling add (shared s))\<rparr>)"
| refill_exchange: "threads s i = Refilling add cur \<Longrightarrow> shared s = cur \<Longrightarrow>
     tb_step cap s (s\<lparr>shared := refilled cap add cur, threads := (threads s)(i := Idle),
       added := added s + unat add\<rparr>)"
| refill_retry: "threads s i = Refilling add cur \<Longrightarrow>
     tb_step cap s (s\<lparr>threads := (threads s)(i := Refilling add (shared s))\<rparr>)"

definition tb_init :: "u64 \<Rightarrow> tb_state" where
  "tb_init cap = \<lparr>shared = cap, threads = (\<lambda>_. Idle), granted = 0, added = 0\<rparr>"

inductive tb_reachable :: "u64 \<Rightarrow> tb_state \<Rightarrow> bool" for cap :: u64 where
  tb_start: "tb_reachable cap (tb_init cap)"
| tb_next: "tb_reachable cap s \<Longrightarrow> tb_step cap s t \<Longrightarrow> tb_reachable cap t"

section \<open>Sequential properties\<close>

lemma unat_saturating_add: "unat (saturating_add a b :: 'a::len word) = min (unat a + unat b) (2 ^ LENGTH('a) - 1)"
proof (cases "unat a + unat b < 2 ^ LENGTH('a)")
  case True
  then show ?thesis by (simp add: saturating_add_def unat_word_ariths)
next
  case False
  then show ?thesis by (simp add: saturating_add_def unat_max_word)
qed

lemma unat_refilled_le:
  "unat (refilled cap add cur) \<le> unat cap" "unat (refilled cap add cur) \<le> unat cur + unat add"
proof -
  have "refilled cap add cur \<le> cap" and le: "refilled cap add cur \<le> saturating_add cur add"
    by (simp_all add: refilled_def)
  then show "unat (refilled cap add cur) \<le> unat cap" by (simp add: word_le_nat_alt)
  have "unat (saturating_add cur add) \<le> unat cur + unat add"
    by (simp add: unat_saturating_add)
  with le show "unat (refilled cap add cur) \<le> unat cur + unat add"
    by (simp add: word_le_nat_alt)
qed

lemma refilled_ge: "cur \<le> cap \<Longrightarrow> cur \<le> refilled cap add cur"
proof -
  assume "cur \<le> cap"
  moreover have "cur \<le> saturating_add cur add"
    using unat_lt [of cur] by (simp add: word_le_nat_alt unat_saturating_add)
  ultimately show ?thesis by (simp add: refilled_def)
qed

lemma tb_inv_refill: "tb_inv b \<Longrightarrow> tb_inv (refill now b)"
  by (simp add: tb_inv_def refill_def Let_def refilled_def)

lemma tb_inv_try_consume: "tb_inv b \<Longrightarrow> tb_inv (snd (try_consume t b))"
proof -
  assume inv: "tb_inv b"
  have "available_tokens b - t \<le> available_tokens b" if "\<not> available_tokens b < t"
    using that by (simp add: word_le_nat_alt word_less_nat_alt unat_sub)
  with inv show ?thesis
    by (auto simp: tb_inv_def try_consume_def intro: order_trans)
qed

lemma tb_inv_new: "tb_inv (token_bucket_new_from_cfg c)"
  by (simp add: tb_inv_def token_bucket_new_from_cfg_def)

lemma try_consume_account:
  "unat (available_tokens b) =
     unat (available_tokens (snd (try_consume t b))) + (if fst (try_consume t b) then unat t else 0)"
  by (simp add: try_consume_def unat_sub word_le_nat_alt word_less_nat_alt)

lemma try_consume_succeeds_iff:
  "tb_inv b \<Longrightarrow> fst (try_consume t b) \<longleftrightarrow> t \<le> available_tokens b"
  by (auto simp: try_consume_def tb_inv_def)

section \<open>The limiter interface\<close>

text \<open>
  What a caller of a rate limiter relies on: a request either takes exactly its amount out of the
  tokens held or is refused without effect, and a request that fits is granted.
\<close>

locale token_source =
  fixes held :: "'b \<Rightarrow> nat"
    and take_tokens :: "nat \<Rightarrow> 'b \<Rightarrow> bool \<times> 'b"
    and inv :: "'b \<Rightarrow> bool"
  assumes grant: "inv b \<Longrightarrow> take_tokens n b = (True, b') \<Longrightarrow> held b = held b' + n"
    and refuse: "inv b \<Longrightarrow> take_tokens n b = (False, b') \<Longrightarrow> b' = b \<and> held b < n"
    and keeps: "inv b \<Longrightarrow> inv (snd (take_tokens n b))"
begin

text \<open>A sequence of requests: the verdicts and the bucket that is left.\<close>

lemma grants_bounded:
  "inv b \<Longrightarrow> snd (fold (\<lambda>n (b, g). case take_tokens n b of (ok, b') \<Rightarrow> (b', if ok then g + n else g))
     ns (b, g)) \<le> g + held b"
proof (induction ns arbitrary: b g)
  case Nil
  then show ?case by simp
next
  case (Cons n ns)
  obtain ok b' where t: "take_tokens n b = (ok, b')" by (cases "take_tokens n b")
  have inv': "inv b'" using keeps [OF Cons.prems, of n] by (simp add: t)
  show ?case
  proof (cases ok)
    case True
    with grant [OF Cons.prems] t have "held b = held b' + n" by simp
    with Cons.IH [OF inv', of "g + n"] True show ?thesis by (simp add: t)
  next
    case False
    with refuse [OF Cons.prems] t have "b' = b" by simp
    with Cons.IH [OF inv', of g] False show ?thesis by (simp add: t)
  qed
qed

lemma exhausted_refuses: "inv b \<Longrightarrow> held b < n \<Longrightarrow> take_tokens n b = (False, b)"
proof (cases "take_tokens n b")
  case (Pair ok b')
  assume "inv b" and "held b < n"
  then show ?thesis
    using Pair grant [of b n b'] refuse [of b n b'] by (cases ok) auto
qed

end

text \<open>The bucket with requests given as numbers below \<open>2^64\<close>; larger ones cannot be asked for.\<close>

definition try_consume_nat :: "nat \<Rightarrow> TokenBucket \<Rightarrow> bool \<times> TokenBucket" where
  "try_consume_nat n b = (if n < 2 ^ 64 then try_consume (of_nat n) b else (False, b))"

interpretation bucket: token_source "\<lambda>b. unat (available_tokens b)" try_consume_nat tb_inv
proof unfold_locales
  fix b b' :: TokenBucket and n
  show "tb_inv b \<Longrightarrow> try_consume_nat n b = (True, b') \<Longrightarrow>
      unat (available_tokens b) = unat (available_tokens b') + n"
    using try_consume_account [of b "of_nat n"]
    by (auto simp: try_consume_nat_def unat_of_nat split: if_splits)
  show "tb_inv b \<Longrightarrow> try_consume_nat n b = (False, b') \<Longrightarrow> b' = b \<and> unat (available_tokens b) < n"
    using try_consume_succeeds_iff [of b "of_nat n"] unat_lt [of "available_tokens b"]
    by (auto simp: try_consume_nat_def try_consume_def word_le_nat_alt word_less_nat_alt unat_of_nat
        tb_inv_def split: if_splits)
  show "tb_inv b \<Longrightarrow> tb_inv (snd (try_consume_nat n b))"
    by (simp add: try_consume_nat_def tb_inv_try_consume)
qed

section \<open>Concurrent properties\<close>

definition tb_state_inv :: "u64 \<Rightarrow> tb_state \<Rightarrow> bool" where
  "tb_state_inv cap s \<longleftrightarrow>
     unat (shared s) \<le> unat cap \<and> granted s + unat (shared s) \<le> unat cap + added s"

lemma tb_step_inv: "tb_step cap s t \<Longrightarrow> tb_state_inv cap s \<Longrightarrow> tb_state_inv cap t"
proof (induction rule: tb_step.induct)
  case (consume_exchange s i t cur)
  then show ?case by (auto simp: tb_state_inv_def unat_sub word_le_nat_alt word_less_nat_alt)
next
  case (refill_exchange s i add cur)
  then show ?case
    using unat_refilled_le [of cap add cur] by (simp add: tb_state_inv_def)
qed (simp_all add: tb_state_inv_def)

text \<open>
  C19. No interleaving over-grants. In every state reachable by any number of threads racing through
  the compare-exchange loops of \<open>try_consume\<close> and \<open>refill\<close>, the bucket never holds more than its
  capacity, and the tokens granted so far never exceed the capacity plus the tokens refills added.
\<close>

theorem token_bucket_no_overgrant:
  assumes "tb_reachable cap s"
  shows "shared s \<le> cap \<and> granted s \<le> unat cap + added s"
proof -
  have "tb_state_inv cap s"
    using assms
  proof (induction rule: tb_reachable.induct)
    case tb_start
    show ?case by (simp add: tb_state_inv_def tb_init_def)
  next
    case (tb_next s t)
    then show ?case using tb_step_inv by blast
  qed
  then show ?thesis by (simp add: tb_state_inv_def word_le_nat_alt)
qed

theorem token_bucket_no_overgrant_witness:
  "tb_reachable 5 ((tb_init 5)\<lparr>threads := (\<lambda>_. Idle)(0 := Consuming 3 5)\<rparr>) \<and>
     shared ((tb_init 5)\<lparr>threads := (\<lambda>_. Idle)(0 := Consuming 3 5)\<rparr>) \<le> 5"
proof -
  have "tb_step 5 (tb_init 5) ((tb_init 5)\<lparr>threads := (\<lambda>_. Idle)(0 := Consuming 3 5)\<rparr>)"
    using tb_step.consume_load [of "tb_init 5" 0 5 3] by (simp add: tb_init_def)
  then have "tb_reachable 5 ((tb_init 5)\<lparr>threads := (\<lambda>_. Idle)(0 := Consuming 3 5)\<rparr>)"
    by (rule tb_reachable.tb_next [OF tb_reachable.tb_start])
  then show ?thesis using token_bucket_no_overgrant by blast
qed

section \<open>Long-run rate\<close>

abbreviation rounding_slack :: rat where
  "rounding_slack \<equiv> (1 + 1 / 2 ^ 53) ^ 4"

lemma tokens_to_add_upper:
  "of_nat (unat (tokens_to_add rate now prev)) \<le>
     of_nat (unat rate) * of_nat (unat (saturating_sub now prev)) / 1000000 * rounding_slack"
proof -
  let ?r = "of_nat (unat rate) :: rat" and ?d = "of_nat (unat (saturating_sub now prev)) :: rat"
  let ?e = "1 + 1 / 2 ^ 53 :: rat"
  have r: "f64_of_u64 rate \<le> ?r * ?e" and d: "f64_of_u64 (saturating_sub now prev) \<le> ?d * ?e"
    unfolding f64_of_u64_def by (rule f64_round_upper [OF of_nat_0_le_iff])+
  have r0: "0 \<le> f64_of_u64 rate" and d0: "0 \<le> f64_of_u64 (saturating_sub now prev)"
    by (simp_all add: f64_of_u64_def f64_round_nonneg)
  let ?q = "f64_div (f64_of_u64 (saturating_sub now prev)) 1000000"
  have q0: "0 \<le> ?q" by (simp add: f64_div_def f64_round_nonneg)
  have "?q \<le> f64_of_u64 (saturating_sub now prev) / 1000000 * ?e"
    unfolding f64_div_def using d0 by (intro f64_round_upper) simp
  also have "\<dots> \<le> ?d * ?e / 1000000 * ?e"
    using d by (intro mult_right_mono divide_right_mono) simp_all
  finally have q: "?q \<le> ?d * ?e / 1000000 * ?e" .
  have "f64_mul (f64_of_u64 rate) ?q \<le> f64_of_u64 rate * ?q * ?e"
    unfolding f64_mul_def using r0 q0 by (intro f64_round_upper) simp
  also have "\<dots> \<le> (?r * ?e) * (?d * ?e / 1000000 * ?e) * ?e"
    using r q r0 q0 by (intro mult_right_mono mult_mono) simp_all
  also have "\<dots> = ?r * ?d / 1000000 * ?e ^ 4"
    by (simp only: power4_eq_xxxx times_divide_eq_left times_divide_eq_right mult.assoc mult.left_commute mult.commute)
  finally have m: "f64_mul (f64_of_u64 rate) ?q \<le> ?r * ?d / 1000000 * ?e ^ 4" .
  have "of_nat (unat (tokens_to_add rate now prev)) \<le> f64_mul (f64_of_u64 rate) ?q"
    unfolding tokens_to_add_def Let_def by (rule f64_to_u64_le) (simp add: f64_mul_def f64_round_nonneg)
  with m show ?thesis by (rule order_trans [rotated])
qed

datatype tb_event = Refill u64 | Consume u64

fun tb_run :: "tb_event list \<Rightarrow> TokenBucket \<Rightarrow> nat \<times> TokenBucket" where
  "tb_run [] b = (0, b)"
| "tb_run (Refill now # evs) b = tb_run evs (refill now b)"
| "tb_run (Consume t # evs) b =
     (case try_consume t b of (ok, b') \<Rightarrow>
        (case tb_run evs b' of (g, b'') \<Rightarrow> (if ok then unat t + g else g, b'')))"

text \<open>The background task reads a monotone clock.\<close>

fun clock_monotone :: "u64 \<Rightarrow> tb_event list \<Rightarrow> bool" where
  "clock_monotone t [] = True"
| "clock_monotone t (Refill now # evs) = (t \<le> now \<and> clock_monotone now evs)"
| "clock_monotone t (Consume _ # evs) = clock_monotone t evs"

lemma refill_simps [simp]:
  "tb_config (refill now b) = tb_config b" "last_refill_time (refill now b) = now"
  by (simp_all add: refill_def Let_def)

lemma try_consume_simps [simp]:
  "tb_config (snd (try_consume t b)) = tb_config b"
  "last_refill_time (snd (try_consume t b)) = last_refill_time b"
  by (simp_all add: try_consume_def)

lemma refill_gain:
  "unat (available_tokens (refill now b)) \<le> unat (available_tokens b) +
     unat (tokens_to_add (fill_rate (tb_config b)) now (last_refill_time b))"
  using unat_refilled_le(2) by (simp add: refill_def Let_def)

lemma refill_no_gain:
  "tokens_to_add (fill_rate (tb_config b)) now (last_refill_time b) = 0 \<Longrightarrow>
     available_tokens (refill now b) = available_tokens b"
  by (simp add: refill_def Let_def)

text \<open>
  C23. The long-run rate is bounded. Over any sequence of refills and requests under a monotone
  clock, the tokens granted are at most those held at the start plus the fill rate times the
  elapsed time, up to the four floating-point roundings of each refill (a factor below
  \<open>(1 + 2^-53)^4\<close>).
\<close>

theorem token_bucket_rate_bound:
  assumes "clock_monotone (last_refill_time b) evs"
    and "tb_run evs b = (g, b')"
  shows "of_nat g \<le> of_nat (unat (available_tokens b)) +
     of_nat (unat (fill_rate (tb_config b))) *
       of_nat (unat (last_refill_time b') - unat (last_refill_time b)) / 1000000 * rounding_slack
     \<and> last_refill_time b \<le> last_refill_time b'"
  using assms
proof (induction evs b arbitrary: g b' rule: tb_run.induct)
  case (1 b)
  then show ?case by (simp del: of_nat_unat)
next
  case (2 now evs b)
  let ?t0 = "unat (last_refill_time b)" and ?t1 = "unat now" and ?t2 = "unat (last_refill_time b')"
    and ?r = "of_nat (unat (fill_rate (tb_config b))) :: rat"
  from "2.prems" have le: "last_refill_time b \<le> now" and mono: "clock_monotone now evs" by simp_all
  then have IH: "of_nat g \<le> of_nat (unat (available_tokens (refill now b))) +
      ?r * of_nat (?t2 - ?t1) / 1000000 * rounding_slack" and le2: "now \<le> last_refill_time b'"
    using "2.IH" "2.prems" by simp_all
  have gap: "unat (saturating_sub now (last_refill_time b)) = ?t1 - ?t0"
    using le by (simp add: saturating_sub_def unat_sub)
  have "of_nat (unat (available_tokens (refill now b))) \<le> of_nat (unat (available_tokens b)) +
      (of_nat (unat (tokens_to_add (fill_rate (tb_config b)) now (last_refill_time b))) :: rat)"
    using refill_gain [of now b] by (simp only: of_nat_add [symmetric] of_nat_le_iff)
  also have "\<dots> \<le> of_nat (unat (available_tokens b)) + ?r * of_nat (?t1 - ?t0) / 1000000 * rounding_slack"
    using tokens_to_add_upper [of "fill_rate (tb_config b)" now "last_refill_time b"]
    by (simp only: gap add_left_mono)
  finally have step: "of_nat (unat (available_tokens (refill now b))) \<le>
      of_nat (unat (available_tokens b)) + ?r * of_nat (?t1 - ?t0) / 1000000 * rounding_slack" .
  have "?t1 - ?t0 + (?t2 - ?t1) = ?t2 - ?t0"
    using le le2 by (simp add: word_le_nat_alt)
  then have split: "of_nat (?t2 - ?t0) = (of_nat (?t1 - ?t0) + of_nat (?t2 - ?t1) :: rat)"
    by (simp only: of_nat_add [symmetric])
  have chain: "u \<le> y + B \<Longrightarrow> y \<le> x + A \<Longrightarrow> u \<le> x + (A + B)" for u x y A B :: rat
    by linarith
  show ?case
    unfolding split distrib_left distrib_right add_divide_distrib
    using chain [OF IH step] order_trans [OF le le2] by (rule conjI)
next
  case (3 t evs b)
  obtain ok b1 where c: "try_consume t b = (ok, b1)" by (cases "try_consume t b")
  obtain g1 where r: "tb_run evs b1 = (g1, b')" and g: "g = (if ok then unat t + g1 else g1)"
    using "3.prems"(2) by (auto simp: c split: prod.splits)
  have same: "tb_config b1 = tb_config b" "last_refill_time b1 = last_refill_time b"
    using try_consume_simps [of t b] by (simp_all add: c)
  have acc: "unat (available_tokens b) = unat (available_tokens b1) + (if ok then unat t else 0)"
    using try_consume_account [of b t] by (simp add: c)
  have "clock_monotone (last_refill_time b1) evs"
    using "3.prems"(1) by (simp add: same)
  from "3.IH" [OF c [symmetric] this r] show ?case
    by (simp add: same g acc del: of_nat_unat)
qed

theorem token_bucket_rate_bound_witness:
  "\<exists>g b'. tb_run [Consume 4, Consume 4] (token_bucket_new 5 100 10) = (g, b') \<and>
     of_nat g \<le> (5 :: rat)"
proof -
  let ?b = "token_bucket_new 5 100 10"
  obtain g b' where r: "tb_run [Consume 4, Consume 4] ?b = (g, b')" by fastforce
  have t: "last_refill_time b' = last_refill_time ?b"
    using r by (auto simp: try_consume_def split: prod.splits if_splits)
  have "clock_monotone (last_refill_time ?b) [Consume 4, Consume 4]" by simp
  from token_bucket_rate_bound [OF this r] have "of_nat g \<le> (5 :: rat)"
    by (simp add: t) (simp add: token_bucket_new_def token_bucket_new_from_cfg_def)
  with r show ?thesis by blast
qed

fun refills_below_one :: "nat \<Rightarrow> u64 \<Rightarrow> tb_event list \<Rightarrow> bool" where
  "refills_below_one rate t [] = True"
| "refills_below_one rate t (Refill now # evs) =
     (t \<le> now \<and> rate * (unat now - unat t) < 1000000 \<and> refills_below_one rate now evs)"
| "refills_below_one rate t (Consume _ # evs) = refills_below_one rate t evs"

lemma tokens_to_add_zero:
  assumes "prev \<le> now" and "unat rate * (unat now - unat prev) < 1000000"
  shows "tokens_to_add rate now prev = 0"
proof -
  have gap: "unat (saturating_sub now prev) = unat now - unat prev"
    using assms(1) by (simp add: saturating_sub_def unat_sub)
  have "unat rate * (unat now - unat prev) \<le> 999999" using assms(2) by simp
  then have "of_nat (unat rate) * of_nat (unat (saturating_sub now prev)) \<le> (999999 :: rat)"
    unfolding gap of_nat_mult [symmetric] by (metis of_nat_le_iff of_nat_numeral)
  then have "of_nat (unat rate) * of_nat (unat (saturating_sub now prev)) / 1000000 * rounding_slack
      \<le> 999999 / 1000000 * rounding_slack"
    by (intro mult_right_mono divide_right_mono) simp_all
  also have "\<dots> < 1" by (simp add: power4_eq_xxxx)
  finally have "of_nat (unat (tokens_to_add rate now prev)) < (1 :: rat)"
    using tokens_to_add_upper [of rate now prev] by (rule le_less_trans [rotated])
  then have "unat (tokens_to_add rate now prev) = 0"
    by (metis less_one of_nat_1 of_nat_less_iff)
  then show ?thesis by (simp add: unat_eq_zero)
qed

text \<open>
  C27. A slow bucket never refills. When every refill comes so soon after the previous one that the
  rate times the gap is below one token, the truncation yields zero, yet the refill time has
  already been advanced: the fraction is lost, the bucket only drains, and the tokens ever granted
  are those it started with.
\<close>

theorem token_bucket_slow_rate_stalls:
  assumes "tb_run evs b = (g, b')"
    and "refills_below_one (unat (fill_rate (tb_config b))) (last_refill_time b) evs"
  shows "g + unat (available_tokens b') = unat (available_tokens b)"
  using assms
proof (induction evs b arbitrary: g b' rule: tb_run.induct)
  case (1 b)
  then show ?case by simp
next
  case (2 now evs b)
  from "2.prems"(2) have "tokens_to_add (fill_rate (tb_config b)) now (last_refill_time b) = 0"
    by (intro tokens_to_add_zero) simp_all
  then have "available_tokens (refill now b) = available_tokens b" by (rule refill_no_gain)
  with "2.IH" "2.prems" show ?case by simp
next
  case (3 t evs b)
  obtain ok b1 where c: "try_consume t b = (ok, b1)" by (cases "try_consume t b")
  obtain g1 where r: "tb_run evs b1 = (g1, b')" and g: "g = (if ok then unat t + g1 else g1)"
    using "3.prems"(1) by (auto simp: c split: prod.splits)
  have same: "tb_config b1 = tb_config b" "last_refill_time b1 = last_refill_time b"
    using try_consume_simps [of t b] by (simp_all add: c)
  have "refills_below_one (unat (fill_rate (tb_config b1))) (last_refill_time b1) evs"
    using "3.prems"(2) by (simp add: same)
  from "3.IH" [OF c [symmetric] r this] try_consume_account [of b t] show ?case
    by (simp add: g c)
qed

text \<open>Fifty packets per second with the ten-millisecond ticks of the packet filter.\<close>

theorem token_bucket_slow_rate_stalls_witness:
  "\<exists>g b'. tb_run [Consume 1, Refill 10000, Refill 20000, Consume 1, Refill 30000]
      (token_bucket_new 1 50 10) = (g, b') \<and> g + unat (available_tokens b') = 1"
proof -
  let ?evs = "[Consume 1, Refill 10000, Refill 20000, Consume 1, Refill 30000]"
  let ?b = "token_bucket_new 1 50 10"
  obtain g b' where r: "tb_run ?evs ?b = (g, b')" by (cases "tb_run ?evs ?b")
  have "refills_below_one (unat (fill_rate (tb_config ?b))) (last_refill_time ?b) ?evs"
    by (simp add: token_bucket_new_def token_bucket_new_from_cfg_def)
  from token_bucket_slow_rate_stalls [OF r this]
  have "g + unat (available_tokens b') = 1"
    by (simp add: token_bucket_new_def token_bucket_new_from_cfg_def)
  with r show ?thesis by blast
qed

end
