(* ===== verification/OspfSynced.thy ===== *)
theory OspfSynced
  imports Prelude
begin

text \<open>
  The synchronised route information of one node: \<open>AtomicVersion\<close>, \<open>RoutePeerInfo\<close>,
  \<open>RouteConnBitmap\<close> and \<open>SyncedRouteInfo\<close> of \<open>src/app/src/peers/peer_ospf_route.rs\<close>.

  Times are nanoseconds since the epoch and passed in as \<open>now\<close>. \<open>last_update\<close> stamps are always made
  from the local clock (every receiver overwrites the sender's stamp), so their conversion to
  \<open>SystemTime\<close> succeeds and they are plain times. A \<open>BTreeSet\<close> is its strictly sorted list. Reflected
  protobuf messages (\<open>DynamicMessage\<close>) are values of a type parameter, read through the
  parameter \<open>raw_pid\<close>; the check of a group proof (an HMAC) is the parameter \<open>verify\<close>.
\<close>

type_synonym PeerId = u32
type_synonym Version = u32
type_synonym time = nat

definition secs :: "nat \<Rightarrow> time" where
  "secs n = n * 1000000000"

definition UPDATE_PEER_INFO_PERIOD :: time where
  "UPDATE_PEER_INFO_PERIOD = secs 3600"

definition REMOVE_DEAD_PEER_INFO_AFTER :: time where
  "REMOVE_DEAD_PEER_INFO_AFTER = secs 3660"

section \<open>Versions\<close>

text \<open>
  \<open>inc\<close> is \<open>fetch_add(1) + 1\<close>: the sum that is returned overflows, and panics, at the largest version;
  \<open>set_if_larger\<close> reports whether the stored version grew.
\<close>

definition version_inc :: "Version \<Rightarrow> Version rust" where
  "version_inc v = checked_add v 1"

definition set_if_larger :: "Version \<Rightarrow> Version \<Rightarrow> Version \<times> bool" where
  "set_if_larger old new = (max old new, old < new)"

section \<open>Ordered sets\<close>

definition btree_set :: "'a::linorder list \<Rightarrow> 'a list" where
  "btree_set xs = sort (remdups xs)"

lemma set_btree_set [simp]: "set (btree_set xs) = set xs"
  by (simp add: btree_set_def)

lemma distinct_btree_set [simp]: "distinct (btree_set xs)"
  by (simp add: btree_set_def)

lemma btree_set_eq_iff: "btree_set xs = btree_set ys \<longleftrightarrow> set xs = set ys"
proof
  assume "set xs = set ys"
  then show "btree_set xs = btree_set ys"
    unfolding btree_set_def by (simp add: sorted_list_of_set_sort_remdups [symmetric])
qed (metis set_btree_set)

section \<open>Peer information\<close>

record PeerFeatureFlag =
  is_public_server :: bool
  avoid_relay_data :: bool
  kcp_input :: bool
  no_relay_kcp :: bool

record PeerGroupInfo =
  group_name :: string
  group_proof :: "byte list"

record RoutePeerInfo =
  rpi_peer_id :: PeerId
  rpi_inst_id :: "(128 word) option"
  rpi_cost :: u32
  rpi_ipv4_addr :: "u32 option"
  rpi_proxy_cidrs :: "string list"
  rpi_hostname :: "string option"
  rpi_udp_stun_info :: "32 word"
  rpi_last_update :: "time option"
  rpi_version :: Version
  rpi_peerlink_version :: string
  rpi_feature_flag :: "PeerFeatureFlag option"
  rpi_peer_route_id :: u64
  rpi_network_length :: u32
  rpi_quic_port :: "u32 option"
  rpi_ipv6_addr :: "((128 word) option \<times> u32) option"
  rpi_groups :: "PeerGroupInfo list"

text \<open>The value of \<open>or_default\<close>: the protobuf default message.\<close>

definition route_peer_info_default :: RoutePeerInfo where
  "route_peer_info_default =
     \<lparr>rpi_peer_id = 0, rpi_inst_id = None, rpi_cost = 0, rpi_ipv4_addr = None, rpi_proxy_cidrs = [],
      rpi_hostname = None, rpi_udp_stun_info = 0, rpi_last_update = None, rpi_version = 0,
      rpi_peerlink_version = [], rpi_feature_flag = None, rpi_peer_route_id = 0,
      rpi_network_length = 0, rpi_quic_port = None, rpi_ipv6_addr = None, rpi_groups = []\<rparr>"

text \<open>What the node knows of itself: the fields of \<open>GlobalCtx\<close> that \<open>update_self\<close> reads.\<close>

record GlobalCtx =
  ctx_id :: "128 word"
  ctx_ipv4 :: "(u32 \<times> u8) option"
  ctx_proxy_cidrs :: "(string option \<times> string) list"
  ctx_vpn_portal_cidr :: "string option"
  ctx_hostname :: string
  ctx_udp_nat_type :: "32 word"
  ctx_peerlink_version :: string
  ctx_feature_flags :: PeerFeatureFlag
  ctx_quic_proxy_port :: "u16 option"
  ctx_ipv6 :: "((128 word) option \<times> u32) option"
  ctx_acl_groups :: "PeerGroupInfo list"

definition route_peer_info_new :: "string \<Rightarrow> time \<Rightarrow> RoutePeerInfo" where
  "route_peer_info_new peerlink_version now = route_peer_info_default
     \<lparr>rpi_inst_id := Some 0, rpi_last_update := Some now, rpi_peerlink_version := peerlink_version,
      rpi_network_length := 24\<rparr>"

definition update_self_fields :: "RoutePeerInfo \<Rightarrow> PeerId \<Rightarrow> u64 \<Rightarrow> GlobalCtx \<Rightarrow> RoutePeerInfo" where
  "update_self_fields self my_peer_id peer_route_id ctx =
     \<lparr>rpi_peer_id = my_peer_id, rpi_inst_id = Some (ctx_id ctx), rpi_cost = 0,
      rpi_ipv4_addr = map_option fst (ctx_ipv4 ctx),
      rpi_proxy_cidrs = map (\<lambda>(mapped, cidr). case mapped of Some m \<Rightarrow> m | None \<Rightarrow> cidr) (ctx_proxy_cidrs ctx)
                        @ (case ctx_vpn_portal_cidr ctx of Some c \<Rightarrow> [c] | None \<Rightarrow> []),
      rpi_hostname = Some (ctx_hostname ctx), rpi_udp_stun_info = ctx_udp_nat_type ctx,
      rpi_last_update = rpi_last_update self, rpi_version = rpi_version self,
      rpi_peerlink_version = ctx_peerlink_version ctx,
      rpi_feature_flag = Some (ctx_feature_flags ctx), rpi_peer_route_id = peer_route_id,
      rpi_network_length = (case ctx_ipv4 ctx of Some (_, len) \<Rightarrow> ucast len | None \<Rightarrow> 24),
      rpi_quic_port = map_option ucast (ctx_quic_proxy_port ctx), rpi_ipv6_addr = ctx_ipv6 ctx,
      rpi_groups = ctx_acl_groups ctx\<rparr>"

definition need_update_periodically :: "time \<Rightarrow> RoutePeerInfo \<Rightarrow> bool" where
  "need_update_periodically now info =
     (let t = (case rpi_last_update info of Some t \<Rightarrow> t | None \<Rightarrow> 0)
      in if t \<le> now then now - t > UPDATE_PEER_INFO_PERIOD else True)"

definition update_self :: "time \<Rightarrow> RoutePeerInfo \<Rightarrow> PeerId \<Rightarrow> u64 \<Rightarrow> GlobalCtx \<Rightarrow> RoutePeerInfo rust" where
  "update_self now self my_peer_id peer_route_id ctx =
     (let new = update_self_fields self my_peer_id peer_route_id ctx
      in if new \<noteq> self \<or> need_update_periodically now new
         then rmap (\<lambda>v. new\<lparr>rpi_last_update := Some now, rpi_version := v\<rparr>)
                (checked_add (rpi_version new) 1)
         else Inr new)"

section \<open>Connection bitmaps\<close>

record RouteConnBitmap =
  rcb_peer_ids :: "(PeerId \<times> Version) list"
  rcb_bitmap :: "byte list"

definition route_conn_bitmap_new :: RouteConnBitmap where
  "route_conn_bitmap_new = \<lparr>rcb_peer_ids = [], rcb_bitmap = []\<rparr>"

unbundle bit_operations_syntax

definition get_bit :: "RouteConnBitmap \<Rightarrow> usize \<Rightarrow> bool rust" where
  "get_bit bm idx =
     (let byte_idx = idx div 8; bit_idx = idx mod 8
      in if byte_idx < length (rcb_bitmap bm)
         then Inr ((drop_bit bit_idx (rcb_bitmap bm ! byte_idx)) AND 1 = 1)
         else Inl IndexOutOfRange)"

fun connected_peers_from ::
  "RouteConnBitmap \<Rightarrow> usize \<Rightarrow> usize \<Rightarrow> (PeerId \<times> Version) list \<Rightarrow> PeerId list rust" where
  "connected_peers_from bm row idx [] = Inr []"
| "connected_peers_from bm row idx ((peer_id, _) # ps) =
     rbind (get_bit bm (row * length (rcb_peer_ids bm) + idx))
       (\<lambda>b. rmap (\<lambda>rest. if b then peer_id # rest else rest) (connected_peers_from bm row (idx + 1) ps))"

definition bitmap_connected_peers :: "RouteConnBitmap \<Rightarrow> usize \<Rightarrow> PeerId list rust" where
  "bitmap_connected_peers bm peer_idx =
     rmap btree_set (connected_peers_from bm peer_idx 0 (rcb_peer_ids bm))"

section \<open>The synchronised store\<close>

record ForeignNetworkRouteInfoKey =
  fnk_peer_id :: PeerId
  fnk_network_name :: string

record ForeignNetworkRouteInfoEntry =
  fne_foreign_peer_ids :: "PeerId list"
  fne_last_update :: "time option"
  fne_version :: Version
  fne_network_secret_digest :: "byte list"
  fne_my_peer_id_for_this_network :: PeerId

type_synonym RouteForeignNetworkInfos =
  "(ForeignNetworkRouteInfoKey option \<times> ForeignNetworkRouteInfoEntry option) list"

record 'raw SyncedRouteInfo =
  sri_peer_infos :: "(PeerId, RoutePeerInfo) dmap"
  sri_raw_peer_infos :: "(PeerId, 'raw) dmap"
  sri_conn_map :: "(PeerId, PeerId list \<times> Version) dmap"
  sri_foreign_network :: "(ForeignNetworkRouteInfoKey, ForeignNetworkRouteInfoEntry) dmap"
  sri_group_trust_map :: "(PeerId, (string, byte list) dmap) dmap"
  sri_group_trust_map_cache :: "(PeerId, string list) dmap"
  sri_version :: Version

datatype SyncRouteInfoError = DuplicatePeerId | Stopped

definition is_foreign_network_info_newer ::
  "ForeignNetworkRouteInfoEntry \<Rightarrow> ForeignNetworkRouteInfoEntry \<Rightarrow> bool option" where
  "is_foreign_network_info_newer nxt prev =
     (case fne_last_update nxt of None \<Rightarrow> None
      | Some a \<Rightarrow> (case fne_last_update prev of None \<Rightarrow> None | Some b \<Rightarrow> Some (b < a)))"

definition sri_inc_version :: "'raw SyncedRouteInfo \<Rightarrow> 'raw SyncedRouteInfo rust" where
  "sri_inc_version st = rmap (\<lambda>v. st\<lparr>sri_version := v\<rparr>) (version_inc (sri_version st))"

definition synced_route_info_new :: "'raw SyncedRouteInfo" where
  "synced_route_info_new =
     \<lparr>sri_peer_infos = [], sri_raw_peer_infos = [], sri_conn_map = [], sri_foreign_network = [],
      sri_group_trust_map = [], sri_group_trust_map_cache = [], sri_version = 0\<rparr>"

definition get_connected_peers :: "'raw SyncedRouteInfo \<Rightarrow> PeerId \<Rightarrow> PeerId list option" where
  "get_connected_peers st peer_id = map_option fst (dm_get (sri_conn_map st) peer_id)"

definition remove_peer :: "PeerId \<Rightarrow> 'raw SyncedRouteInfo \<Rightarrow> 'raw SyncedRouteInfo rust" where
  "remove_peer peer_id st = sri_inc_version
     (st\<lparr>sri_peer_infos := dm_remove peer_id (sri_peer_infos st),
         sri_raw_peer_infos := dm_remove peer_id (sri_raw_peer_infos st),
         sri_conn_map := dm_remove peer_id (sri_conn_map st),
         sri_foreign_network := dm_retain (\<lambda>k _. fnk_peer_id k \<noteq> peer_id) (sri_foreign_network st),
         sri_group_trust_map := dm_remove peer_id (sri_group_trust_map st),
         sri_group_trust_map_cache := dm_remove peer_id (sri_group_trust_map_cache st)\<rparr>)"

definition fill_empty_one ::
  "string \<Rightarrow> time \<Rightarrow> PeerId \<Rightarrow> 'raw SyncedRouteInfo \<times> bool \<Rightarrow> 'raw SyncedRouteInfo \<times> bool" where
  "fill_empty_one pv now p st_need =
     (let (st, need) = st_need
      in (st\<lparr>sri_peer_infos := dm_or_insert p (route_peer_info_new pv now) (sri_peer_infos st),
             sri_conn_map := dm_or_insert p ([], 0) (sri_conn_map st)\<rparr>,
          need \<or> \<not> dm_contains (sri_peer_infos st) p \<or> \<not> dm_contains (sri_conn_map st) p))"

definition fill_empty_peer_info ::
  "string \<Rightarrow> time \<Rightarrow> PeerId list \<Rightarrow> 'raw SyncedRouteInfo \<Rightarrow> 'raw SyncedRouteInfo rust" where
  "fill_empty_peer_info pv now peer_ids st =
     (let (st', need_inc_version) = fold (fill_empty_one pv now) peer_ids (st, False)
      in if need_inc_version then sri_inc_version st' else Inr st')"

definition get_peer_info_version_with_default :: "'raw SyncedRouteInfo \<Rightarrow> PeerId \<Rightarrow> Version" where
  "get_peer_info_version_with_default st peer_id =
     (case dm_get (sri_peer_infos st) peer_id of Some i \<Rightarrow> rpi_version i | None \<Rightarrow> 0)"

definition get_avoid_relay_data :: "'raw SyncedRouteInfo \<Rightarrow> PeerId \<Rightarrow> bool" where
  "get_avoid_relay_data st peer_id =
     (case Option.bind (dm_get (sri_peer_infos st) peer_id) rpi_feature_flag of
        Some f \<Rightarrow> avoid_relay_data f | None \<Rightarrow> False)"

text \<open>\<open>Inr None\<close> is \<open>Ok(())\<close>; the duplicate of the node's own id panics.\<close>

definition check_duplicate_peer_id ::
  "'raw SyncedRouteInfo \<Rightarrow> PeerId \<Rightarrow> u64 \<Rightarrow> PeerId \<Rightarrow> u64 option \<Rightarrow> RoutePeerInfo
    \<Rightarrow> SyncRouteInfoError option rust" where
  "check_duplicate_peer_id st my_peer_id my_peer_route_id dst_peer_id dst_peer_route_id info =
     (if rpi_peer_id info = my_peer_id then
        if rpi_peer_route_id info \<noteq> my_peer_route_id \<and>
           rpi_version info > get_peer_info_version_with_default st (rpi_peer_id info)
        then Inl ExplicitPanic else Inr None
      else if rpi_peer_id info = dst_peer_id then
        (case dst_peer_route_id of
           None \<Rightarrow> Inr None
         | Some rid \<Rightarrow>
             if rid \<noteq> rpi_peer_route_id info \<and>
                rpi_version info < get_peer_info_version_with_default st (rpi_peer_id info)
             then Inr (Some DuplicatePeerId) else Inr None)
      else Inr None)"

definition merge_peer_info ::
  "time \<Rightarrow> RoutePeerInfo \<Rightarrow> 'raw \<Rightarrow> 'raw SyncedRouteInfo \<times> bool \<Rightarrow> 'raw SyncedRouteInfo \<times> bool" where
  "merge_peer_info now info raw st_need =
     (let (st, need) = st_need; p = rpi_peer_id info;
          route_info = info\<lparr>rpi_last_update := Some now\<rparr>;
          changed = (case dm_get (sri_peer_infos st) p of
                       Some old \<Rightarrow> rpi_version route_info > rpi_version old | None \<Rightarrow> True)
      in (st\<lparr>sri_peer_infos := dm_merge_newer rpi_version p route_info (sri_peer_infos st),
             sri_raw_peer_infos := (if changed then dm_insert p raw (sri_raw_peer_infos st)
                                    else sri_raw_peer_infos st)\<rparr>,
          need \<or> changed))"

fun update_peer_infos_loop ::
  "('raw \<Rightarrow> PeerId) \<Rightarrow> time \<Rightarrow> PeerId \<Rightarrow> u64 \<Rightarrow> PeerId \<Rightarrow> RoutePeerInfo list \<Rightarrow> 'raw list
    \<Rightarrow> 'raw SyncedRouteInfo \<times> bool \<Rightarrow> (('raw SyncedRouteInfo \<times> bool) \<times> SyncRouteInfoError option) rust" where
  "update_peer_infos_loop raw_pid now my_id my_route dst [] raws sn = Inr (sn, None)"
| "update_peer_infos_loop raw_pid now my_id my_route dst (i # infos) [] sn = Inl IndexOutOfRange"
| "update_peer_infos_loop raw_pid now my_id my_route dst (i # infos) (r # raws) sn =
     rbind (check_duplicate_peer_id (fst sn) my_id my_route dst
              (if rpi_peer_id i = dst
               then map_option rpi_peer_route_id (dm_get (sri_peer_infos (fst sn)) dst) else None) i)
       (\<lambda>e. case e of
              Some err \<Rightarrow> Inr (sn, Some err)
            | None \<Rightarrow>
                if raw_pid r \<noteq> rpi_peer_id i then Inl AssertFailed
                else update_peer_infos_loop raw_pid now my_id my_route dst infos raws
                       (merge_peer_info now i r sn))"

definition update_peer_infos ::
  "('raw \<Rightarrow> PeerId) \<Rightarrow> time \<Rightarrow> PeerId \<Rightarrow> u64 \<Rightarrow> PeerId \<Rightarrow> RoutePeerInfo list \<Rightarrow> 'raw list
    \<Rightarrow> 'raw SyncedRouteInfo \<Rightarrow> ('raw SyncedRouteInfo \<times> SyncRouteInfoError option) rust" where
  "update_peer_infos raw_pid now my_id my_route dst infos raws st =
     rbind (update_peer_infos_loop raw_pid now my_id my_route dst infos raws (st, False))
       (\<lambda>((st', need_inc_version), err).
          case err of
            Some e \<Rightarrow> Inr (st', Some e)
          | None \<Rightarrow> rmap (\<lambda>st''. (st'', None))
              (if need_inc_version then sri_inc_version st' else Inr st'))"

definition merge_conn ::
  "PeerId \<Rightarrow> PeerId list \<Rightarrow> Version \<Rightarrow> 'raw SyncedRouteInfo \<times> bool \<Rightarrow> 'raw SyncedRouteInfo \<times> bool" where
  "merge_conn p connected v st_need =
     (let (st, need) = st_need
      in (st\<lparr>sri_conn_map := dm_merge_newer snd p (connected, v) (sri_conn_map st)\<rparr>,
          need \<or> (case dm_get (sri_conn_map st) p of Some (_, old) \<Rightarrow> old < v | None \<Rightarrow> True)))"

fun update_conn_map_loop ::
  "string \<Rightarrow> time \<Rightarrow> RouteConnBitmap \<Rightarrow> usize \<Rightarrow> (PeerId \<times> Version) list
    \<Rightarrow> 'raw SyncedRouteInfo \<times> bool \<Rightarrow> ('raw SyncedRouteInfo \<times> bool) rust" where
  "update_conn_map_loop pv now bm peer_idx [] sn = Inr sn"
| "update_conn_map_loop pv now bm peer_idx ((p, v) # ps) sn =
     rbind (bitmap_connected_peers bm peer_idx) (\<lambda>connected.
     rbind (fill_empty_peer_info pv now connected (fst sn)) (\<lambda>st.
       update_conn_map_loop pv now bm (peer_idx + 1) ps (merge_conn p connected v (st, snd sn))))"

definition update_conn_map ::
  "string \<Rightarrow> time \<Rightarrow> RouteConnBitmap \<Rightarrow> 'raw SyncedRouteInfo \<Rightarrow> 'raw SyncedRouteInfo rust" where
  "update_conn_map pv now bm st =
     rbind (fill_empty_peer_info pv now (btree_set (map fst (rcb_peer_ids bm))) st) (\<lambda>st1.
     rbind (update_conn_map_loop pv now bm 0 (rcb_peer_ids bm) (st1, False)) (\<lambda>(st', need_inc_version).
       if need_inc_version then sri_inc_version st' else Inr st'))"

definition merge_foreign ::
  "time \<Rightarrow> ForeignNetworkRouteInfoKey option \<times> ForeignNetworkRouteInfoEntry option
    \<Rightarrow> (ForeignNetworkRouteInfoKey, ForeignNetworkRouteInfoEntry) dmap
    \<Rightarrow> (ForeignNetworkRouteInfoKey, ForeignNetworkRouteInfoEntry) dmap" where
  "merge_foreign now item m =
     (case item of
        (Some key, Some entry) \<Rightarrow> dm_merge_newer fne_version key (entry\<lparr>fne_last_update := Some now\<rparr>) m
      | _ \<Rightarrow> m)"

definition update_foreign_network ::
  "time \<Rightarrow> RouteForeignNetworkInfos \<Rightarrow> 'raw SyncedRouteInfo \<Rightarrow> 'raw SyncedRouteInfo" where
  "update_foreign_network now infos st =
     st\<lparr>sri_foreign_network := fold (merge_foreign now) infos (sri_foreign_network st)\<rparr>"

definition sri_update_my_peer_info ::
  "time \<Rightarrow> PeerId \<Rightarrow> u64 \<Rightarrow> GlobalCtx \<Rightarrow> 'raw SyncedRouteInfo \<Rightarrow> ('raw SyncedRouteInfo \<times> bool) rust" where
  "sri_update_my_peer_info now my_id my_route ctx st =
     (let old = (case dm_get (sri_peer_infos st) my_id of Some i \<Rightarrow> i | None \<Rightarrow> route_peer_info_default)
      in rbind (update_self now old my_id my_route ctx) (\<lambda>new.
           let st' = st\<lparr>sri_peer_infos := dm_insert my_id new (sri_peer_infos st)\<rparr>
           in if rpi_version new \<noteq> rpi_version old
              then rmap (\<lambda>st''. (st'', True)) (sri_inc_version st') else Inr (st', False)))"

definition sri_update_my_conn_info ::
  "string \<Rightarrow> time \<Rightarrow> PeerId \<Rightarrow> PeerId list \<Rightarrow> 'raw SyncedRouteInfo \<Rightarrow> ('raw SyncedRouteInfo \<times> bool) rust" where
  "sri_update_my_conn_info pv now my_id connected st =
     rbind (fill_empty_peer_info pv now connected st) (\<lambda>st1.
       let (peers, v) = (case dm_get (sri_conn_map st1) my_id of Some c \<Rightarrow> c | None \<Rightarrow> ([], 0));
           st2 = st1\<lparr>sri_conn_map := dm_or_insert my_id ([], 0) (sri_conn_map st1)\<rparr>
       in if connected = peers then Inr (st2, False)
          else rbind (version_inc v) (\<lambda>v'.
            rmap (\<lambda>st3. (st3, True)) (sri_inc_version
              (st2\<lparr>sri_conn_map := dm_insert my_id (connected, v') (sri_conn_map st2)\<rparr>))))"

text \<open>
  One entry of the first loop of \<open>update_my_foreign_network\<close>: the state is the map of networks not yet
  matched and whether anything changed; the result is the entry to keep.
\<close>

definition renew_my_foreign ::
  "time \<Rightarrow> Version \<Rightarrow> PeerId \<Rightarrow> ForeignNetworkRouteInfoKey \<times> ForeignNetworkRouteInfoEntry
    \<Rightarrow> (ForeignNetworkRouteInfoKey, ForeignNetworkRouteInfoEntry) dmap \<times> bool
    \<Rightarrow> ((ForeignNetworkRouteInfoKey \<times> ForeignNetworkRouteInfoEntry) \<times>
        ((ForeignNetworkRouteInfoKey, ForeignNetworkRouteInfoEntry) dmap \<times> bool)) rust" where
  "renew_my_foreign now now_version my_id item acc =
     (let (key, entry) = item; (fns, updated) = acc
      in if fnk_peer_id key \<noteq> my_id then Inr (item, acc)
         else (case dm_get fns key of
             Some new_entry \<Rightarrow>
               if fne_foreign_peer_ids new_entry = [] then Inl AssertFailed
               else (case is_foreign_network_info_newer new_entry entry of
                   Some is_newer \<Rightarrow>
                     rbind (if is_newer then Inr True
                            else rmap (\<lambda>t. now - t > UPDATE_PEER_INFO_PERIOD) (unwrap (fne_last_update entry)))
                       (\<lambda>need_renew.
                          if need_renew
                          then rmap (\<lambda>v. ((key, new_entry\<lparr>fne_version := max v now_version\<rparr>), dm_remove key fns, True))
                                 (checked_add (fne_version new_entry) 1)
                          else Inr (item, dm_remove key fns, updated))
                 | None \<Rightarrow> Inr (item, dm_remove key fns, updated))
           | None \<Rightarrow>
               if fne_foreign_peer_ids entry \<noteq> []
               then rmap (\<lambda>v. ((key, entry\<lparr>fne_foreign_peer_ids := [], fne_last_update := Some now,
                                            fne_version := max v now_version\<rparr>), fns, True))
                      (checked_add (fne_version entry) 1)
               else Inr (item, acc)))"

fun renew_my_foreign_loop ::
  "time \<Rightarrow> Version \<Rightarrow> PeerId \<Rightarrow> (ForeignNetworkRouteInfoKey, ForeignNetworkRouteInfoEntry) dmap
    \<Rightarrow> (ForeignNetworkRouteInfoKey, ForeignNetworkRouteInfoEntry) dmap \<times> bool
    \<Rightarrow> ((ForeignNetworkRouteInfoKey, ForeignNetworkRouteInfoEntry) dmap \<times>
        ((ForeignNetworkRouteInfoKey, ForeignNetworkRouteInfoEntry) dmap \<times> bool)) rust" where
  "renew_my_foreign_loop now nv my_id [] acc = Inr ([], acc)"
| "renew_my_foreign_loop now nv my_id (item # m) acc =
     rbind (renew_my_foreign now nv my_id item acc)
       (\<lambda>(item', acc'). rmap (\<lambda>(m', acc''). (item' # m', acc'')) (renew_my_foreign_loop now nv my_id m acc'))"

fun add_my_foreign_loop ::
  "Version \<Rightarrow> (ForeignNetworkRouteInfoKey, ForeignNetworkRouteInfoEntry) dmap
    \<Rightarrow> (ForeignNetworkRouteInfoKey, ForeignNetworkRouteInfoEntry) dmap
    \<Rightarrow> (ForeignNetworkRouteInfoKey, ForeignNetworkRouteInfoEntry) dmap rust" where
  "add_my_foreign_loop now_version [] m = Inr m"
| "add_my_foreign_loop now_version ((key, value) # fns) m =
     (if fne_foreign_peer_ids value = [] then Inl AssertFailed
      else add_my_foreign_loop now_version fns
        (dm_upsert key (\<lambda>old. if fne_version value > fne_version old then value else old)
           (value\<lparr>fne_version := now_version\<rparr>) m))"

definition sri_update_my_foreign_network ::
  "time \<Rightarrow> PeerId \<Rightarrow> (ForeignNetworkRouteInfoKey, ForeignNetworkRouteInfoEntry) dmap
    \<Rightarrow> 'raw SyncedRouteInfo \<Rightarrow> ('raw SyncedRouteInfo \<times> bool) rust" where
  "sri_update_my_foreign_network now my_id fns st =
     (let now_version = of_nat (now div secs 1)
      in rbind (renew_my_foreign_loop now now_version my_id (sri_foreign_network st) (fns, False))
        (\<lambda>(m, rest, updated).
           rbind (add_my_foreign_loop now_version rest m) (\<lambda>m'.
             let st' = st\<lparr>sri_foreign_network := m'\<rparr>; updated' = (updated \<or> rest \<noteq> [])
             in rmap (\<lambda>st''. (st'', updated')) (if updated' then sri_inc_version st' else Inr st'))))"

definition is_peer_bidirectly_connected :: "'raw SyncedRouteInfo \<Rightarrow> PeerId \<Rightarrow> PeerId \<Rightarrow> bool" where
  "is_peer_bidirectly_connected st src dst =
     (case dm_get (sri_conn_map st) src of Some (peers, _) \<Rightarrow> dst \<in> set peers | None \<Rightarrow> False)"

definition is_peer_directly_connected :: "'raw SyncedRouteInfo \<Rightarrow> PeerId \<Rightarrow> PeerId \<Rightarrow> bool" where
  "is_peer_directly_connected st src dst =
     (is_peer_bidirectly_connected st src dst \<or> is_peer_bidirectly_connected st dst src)"

section \<open>Group trust\<close>

definition verify_group ::
  "(PeerGroupInfo \<Rightarrow> string \<Rightarrow> PeerId \<Rightarrow> bool) \<Rightarrow> (string, string) dmap \<Rightarrow> (string, byte list) dmap option
    \<Rightarrow> PeerId \<Rightarrow> PeerGroupInfo \<Rightarrow> (string, byte list) dmap \<Rightarrow> (string, byte list) dmap" where
  "verify_group verify decls old_trusted p g trusted =
     (if Option.bind old_trusted (\<lambda>m. dm_get m (group_name g)) = Some (group_proof g)
      then dm_insert (group_name g) (group_proof g) trusted
      else (case dm_get decls (group_name g) of
              Some secret \<Rightarrow>
                if verify g secret p then dm_insert (group_name g) (group_proof g) trusted else trusted
            | None \<Rightarrow> trusted))"

definition verify_groups ::
  "(PeerGroupInfo \<Rightarrow> string \<Rightarrow> PeerId \<Rightarrow> bool) \<Rightarrow> (string, string) dmap \<Rightarrow> (string, byte list) dmap option
    \<Rightarrow> RoutePeerInfo \<Rightarrow> (string, byte list) dmap" where
  "verify_groups verify decls old_trusted info =
     fold (verify_group verify decls old_trusted (rpi_peer_id info)) (rpi_groups info) []"

definition update_group_trust ::
  "(PeerGroupInfo \<Rightarrow> string \<Rightarrow> PeerId \<Rightarrow> bool) \<Rightarrow> (string, string) dmap \<Rightarrow> RoutePeerInfo
    \<Rightarrow> 'raw SyncedRouteInfo \<Rightarrow> 'raw SyncedRouteInfo" where
  "update_group_trust verify decls info st =
     (let p = rpi_peer_id info
      in case dm_get (sri_group_trust_map st) p of
           Some old \<Rightarrow>
             (let trusted = verify_groups verify decls (Some old) info
              in if trusted = []
                 then st\<lparr>sri_group_trust_map := dm_remove p (sri_group_trust_map st),
                         sri_group_trust_map_cache := dm_remove p (sri_group_trust_map_cache st)\<rparr>
                 else st\<lparr>sri_group_trust_map_cache := dm_insert p (map fst trusted) (sri_group_trust_map_cache st),
                         sri_group_trust_map := dm_insert p trusted (sri_group_trust_map st)\<rparr>)
         | None \<Rightarrow>
             (let trusted = verify_groups verify decls None info
              in if trusted \<noteq> []
                 then st\<lparr>sri_group_trust_map_cache := dm_insert p (map fst trusted) (sri_group_trust_map_cache st),
                         sri_group_trust_map := dm_insert p trusted (sri_group_trust_map st)\<rparr>
                 else st))"

text \<open>Local declarations are collected into a map, a later declaration of a name replacing an earlier.\<close>

definition verify_and_update_group_trusts ::
  "(PeerGroupInfo \<Rightarrow> string \<Rightarrow> PeerId \<Rightarrow> bool) \<Rightarrow> RoutePeerInfo list \<Rightarrow> (string \<times> string) list
    \<Rightarrow> 'raw SyncedRouteInfo \<Rightarrow> 'raw SyncedRouteInfo" where
  "verify_and_update_group_trusts verify infos declarations st =
     fold (update_group_trust verify (fold (\<lambda>(n, s). dm_insert n s) declarations [])) infos st"

section \<open>Merging peer information\<close>

lemma merge_peer_info_peers:
  "sri_peer_infos (fst (merge_peer_info now i r sn)) =
     dm_merge_newer rpi_version (rpi_peer_id i) (i\<lparr>rpi_last_update := Some now\<rparr>) (sri_peer_infos (fst sn))"
  by (simp add: merge_peer_info_def split_beta Let_def)

lemma merge_peer_info_frame:
  "sri_conn_map (fst (merge_peer_info now i r sn)) = sri_conn_map (fst sn)"
  "sri_foreign_network (fst (merge_peer_info now i r sn)) = sri_foreign_network (fst sn)"
  "sri_group_trust_map (fst (merge_peer_info now i r sn)) = sri_group_trust_map (fst sn)"
  "sri_group_trust_map_cache (fst (merge_peer_info now i r sn)) = sri_group_trust_map_cache (fst sn)"
  "sri_version (fst (merge_peer_info now i r sn)) = sri_version (fst sn)"
  by (simp_all add: merge_peer_info_def split_beta Let_def)

definition merge_infos :: "time \<Rightarrow> RoutePeerInfo list \<Rightarrow> (PeerId, RoutePeerInfo) dmap \<Rightarrow> (PeerId, RoutePeerInfo) dmap" where
  "merge_infos now infos m =
     fold (\<lambda>(k, v). dm_merge_newer rpi_version k v)
       (map (\<lambda>i. (rpi_peer_id i, i\<lparr>rpi_last_update := Some now\<rparr>)) infos) m"

text \<open>A version that can be incremented: what \<open>inc\<close> does when it does not panic.\<close>

definition bumped :: "'raw SyncedRouteInfo \<Rightarrow> 'raw SyncedRouteInfo" where
  "bumped st = st\<lparr>sri_version := sri_version st + 1\<rparr>"

lemma sri_inc_version_Inr [rust_Inr]:
  "sri_inc_version st = Inr st' \<longleftrightarrow> unat (sri_version st) + 1 < 2 ^ 32 \<and> st' = bumped st"
  by (auto simp: sri_inc_version_def version_inc_def checked_add_def bumped_def)

lemma sri_inc_version_Inl:
  "sri_inc_version st = Inl e \<longleftrightarrow> \<not> unat (sri_version st) + 1 < 2 ^ 32 \<and> e = ArithOverflow"
  by (auto simp: sri_inc_version_def version_inc_def checked_add_def)

lemma bumped_simps [simp]:
  "sri_peer_infos (bumped st) = sri_peer_infos st"
  "sri_raw_peer_infos (bumped st) = sri_raw_peer_infos st"
  "sri_conn_map (bumped st) = sri_conn_map st"
  "sri_foreign_network (bumped st) = sri_foreign_network st"
  "sri_group_trust_map (bumped st) = sri_group_trust_map st"
  "sri_group_trust_map_cache (bumped st) = sri_group_trust_map_cache st"
  "sri_version (bumped st) = sri_version st + 1"
  by (simp_all add: bumped_def)

definition filled :: "string \<Rightarrow> time \<Rightarrow> PeerId list \<Rightarrow> 'raw SyncedRouteInfo \<Rightarrow> 'raw SyncedRouteInfo" where
  "filled pv now ps st = fst (fold (fill_empty_one pv now) ps (st, False))"

lemma fill_empty_peer_info_Inr:
  "fill_empty_peer_info pv now ps st = Inr st' \<Longrightarrow> st' = filled pv now ps st \<or> st' = bumped (filled pv now ps st)"
  by (auto simp: fill_empty_peer_info_def filled_def split_beta Let_def rust_Inr split: if_splits)

text \<open>Every run merges a prefix of the received list, and a successful run merges all of it.\<close>

lemma update_peer_infos_loop_prefix:
  "update_peer_infos_loop raw_pid now my_id my_route dst infos raws sn = Inr (sn', err) \<Longrightarrow>
     \<exists>pre. sri_peer_infos (fst sn') = merge_infos now pre (sri_peer_infos (fst sn)) \<and>
       set pre \<subseteq> set infos \<and> (err = None \<longrightarrow> pre = infos)"
proof (induction infos arbitrary: raws sn)
  case Nil
  then show ?case by (auto simp: merge_infos_def intro: exI [of _ "[]"])
next
  case (Cons i infos)
  then obtain r rs where raws: "raws = r # rs" by (cases raws) auto
  show ?case
  proof (cases "sn' = sn \<and> err \<noteq> None")
    case True
    then show ?thesis by (intro exI [of _ "[]"]) (simp add: merge_infos_def)
  next
    case False
    then have "update_peer_infos_loop raw_pid now my_id my_route dst infos rs (merge_peer_info now i r sn)
        = Inr (sn', err)"
      using Cons.prems by (auto simp: raws rust_Inr split: option.splits if_splits)
    from Cons.IH [OF this] obtain pre where
      "sri_peer_infos (fst sn') = merge_infos now pre (sri_peer_infos (fst (merge_peer_info now i r sn)))"
      "set pre \<subseteq> set infos" "err = None \<longrightarrow> pre = infos" by blast
    then show ?thesis
      by (intro exI [of _ "i # pre"]) (auto simp: merge_infos_def merge_peer_info_peers)
  qed
qed

lemma update_peer_infos_prefix:
  assumes "update_peer_infos raw_pid now my_id my_route dst infos raws st = Inr (st', err)"
  shows "\<exists>pre. sri_peer_infos st' = merge_infos now pre (sri_peer_infos st) \<and>
           set pre \<subseteq> set infos \<and> (err = None \<longrightarrow> pre = infos)"
proof -
  obtain sn' where run: "update_peer_infos_loop raw_pid now my_id my_route dst infos raws (st, False) = Inr (sn', err)"
    and same: "sri_peer_infos st' = sri_peer_infos (fst sn')"
    using assms by (auto simp: update_peer_infos_def rust_Inr split: option.splits if_splits)
  from update_peer_infos_loop_prefix [OF run] same show ?thesis by simp
qed

lemma update_peer_infos_ok:
  "update_peer_infos raw_pid now my_id my_route dst infos raws st = Inr (st', None) \<Longrightarrow>
     sri_peer_infos st' = merge_infos now infos (sri_peer_infos st)"
  using update_peer_infos_prefix by blast

text \<open>
  The view of the table that is the same at every node: local time stamps are erased.
\<close>

definition erase_stamp :: "RoutePeerInfo \<Rightarrow> RoutePeerInfo" where
  "erase_stamp i = i\<lparr>rpi_last_update := None\<rparr>"

lemma erase_stamp_simps [simp]:
  "rpi_version (erase_stamp i) = rpi_version i" "rpi_peer_id (erase_stamp i) = rpi_peer_id i"
  "erase_stamp (i\<lparr>rpi_last_update := t\<rparr>) = erase_stamp i"
  by (simp_all add: erase_stamp_def)

definition shared_table :: "'raw SyncedRouteInfo \<Rightarrow> (PeerId, RoutePeerInfo) dmap" where
  "shared_table st = map (map_prod id erase_stamp) (sri_peer_infos st)"

lemma dm_get_map_values: "dm_get (map (map_prod id f) m) k = map_option f (dm_get m k)"
  by (induction m) (auto simp: dm_get_def)

lemma dm_insert_map_values: "map (map_prod id f) (dm_insert k v m) = dm_insert k (f v) (map (map_prod id f) m)"
  by (induction m) (auto simp: dm_insert_def)

lemma dm_merge_newer_map_values:
  assumes "\<And>v. ver (f v) = ver v"
  shows "map (map_prod id f) (dm_merge_newer ver k v m) = dm_merge_newer ver k (f v) (map (map_prod id f) m)"
  by (auto simp: dm_merge_newer_def dm_upsert_def dm_get_map_values dm_insert_map_values assms
      split: option.split)

lemma merge_infos_shared:
  "map (map_prod id erase_stamp) (merge_infos now infos m) =
     fold (\<lambda>(k, v). dm_merge_newer rpi_version k v) (map (\<lambda>i. (rpi_peer_id i, erase_stamp i)) infos)
       (map (map_prod id erase_stamp) m)"
  by (induction infos arbitrary: m) (simp_all add: merge_infos_def dm_merge_newer_map_values)

text \<open>
  A history of received requests: each has its own time, sender, peer infos and raw messages.
\<close>

record 'raw sync_batch =
  sb_now :: time
  sb_from :: PeerId
  sb_infos :: "RoutePeerInfo list"
  sb_raws :: "'raw list"

fun receive_batches ::
  "('raw \<Rightarrow> PeerId) \<Rightarrow> PeerId \<Rightarrow> u64 \<Rightarrow> 'raw sync_batch list \<Rightarrow> 'raw SyncedRouteInfo
    \<Rightarrow> ('raw SyncedRouteInfo \<times> SyncRouteInfoError option) rust" where
  "receive_batches raw_pid my_id my_route [] st = Inr (st, None)"
| "receive_batches raw_pid my_id my_route (b # bs) st =
     rbind (update_peer_infos raw_pid (sb_now b) my_id my_route (sb_from b) (sb_infos b) (sb_raws b) st)
       (\<lambda>(st', err). case err of None \<Rightarrow> receive_batches raw_pid my_id my_route bs st'
                              | Some e \<Rightarrow> Inr (st', Some e))"

definition batch_updates :: "'raw sync_batch list \<Rightarrow> (PeerId \<times> RoutePeerInfo) list" where
  "batch_updates bs = map (\<lambda>i. (rpi_peer_id i, erase_stamp i)) (concat (map sb_infos bs))"

lemma receive_batches_shared:
  "receive_batches raw_pid my_id my_route bs st = Inr (st', None) \<Longrightarrow>
     shared_table st' = fold (\<lambda>(k, v). dm_merge_newer rpi_version k v) (batch_updates bs) (shared_table st)"
proof (induction bs arbitrary: st)
  case Nil
  then show ?case by (simp add: batch_updates_def)
next
  case (Cons b bs)
  then obtain st1 where
    st1: "update_peer_infos raw_pid (sb_now b) my_id my_route (sb_from b) (sb_infos b) (sb_raws b) st = Inr (st1, None)"
    and rest: "receive_batches raw_pid my_id my_route bs st1 = Inr (st', None)"
    by (auto simp: rust_Inr split: option.splits)
  have "shared_table st1 = fold (\<lambda>(k, v). dm_merge_newer rpi_version k v)
      (map (\<lambda>i. (rpi_peer_id i, erase_stamp i)) (sb_infos b)) (shared_table st)"
    by (simp add: shared_table_def update_peer_infos_ok [OF st1] merge_infos_shared)
  with Cons.IH [OF rest] show ?case by (simp add: batch_updates_def)
qed


definition example_info :: "PeerId \<Rightarrow> Version \<Rightarrow> RoutePeerInfo" where
  "example_info p v = route_peer_info_default\<lparr>rpi_peer_id := p, rpi_version := v\<rparr>"

definition example_batches_a :: "PeerId sync_batch list" where
  "example_batches_a =
     [\<lparr>sb_now = 5, sb_from = 2, sb_infos = [example_info 7 1], sb_raws = [7]\<rparr>,
      \<lparr>sb_now = 6, sb_from = 4, sb_infos = [example_info 7 2], sb_raws = [7]\<rparr>]"

definition example_batches_b :: "PeerId sync_batch list" where
  "example_batches_b =
     [\<lparr>sb_now = 9, sb_from = 4, sb_infos = [example_info 7 2, example_info 7 1], sb_raws = [7, 7]\<rparr>]"

lemma rust_ok_exists:
  "(case x of Inl e \<Rightarrow> False | Inr (s, err) \<Rightarrow> err = None) \<Longrightarrow> \<exists>s. x = Inr (s, None)"
  by (auto split: sum.splits)

lemma example_batches_a_run:
  "\<exists>s. receive_batches id 1 0 example_batches_a synced_route_info_new = Inr (s, None)"
  by (rule rust_ok_exists) code_simp

lemma example_batches_b_run:
  "\<exists>s. receive_batches id 3 0 example_batches_b synced_route_info_new = Inr (s, None)"
  by (rule rust_ok_exists) code_simp


section \<open>The store invariant\<close>

text \<open>
  Maps have distinct keys; every peer info has a time stamp, and is filed under its own peer id
  unless it is a placeholder of version 0; the cache of trusted group names mirrors the trust map,
  which has no empty entry.
\<close>

definition info_ok :: "PeerId \<Rightarrow> RoutePeerInfo \<Rightarrow> bool" where
  "info_ok k i \<longleftrightarrow> rpi_last_update i \<noteq> None \<and> (rpi_version i \<noteq> 0 \<longrightarrow> rpi_peer_id i = k)"

definition trust_ok :: "'raw SyncedRouteInfo \<Rightarrow> bool" where
  "trust_ok st \<longleftrightarrow>
     dm_inv (sri_group_trust_map st) \<and> dm_inv (sri_group_trust_map_cache st) \<and>
     (\<forall>p. dm_get (sri_group_trust_map_cache st) p = map_option (map fst) (dm_get (sri_group_trust_map st) p)) \<and>
     (\<forall>p m. dm_get (sri_group_trust_map st) p = Some m \<longrightarrow> m \<noteq> [] \<and> dm_inv m)"

definition sri_inv :: "'raw SyncedRouteInfo \<Rightarrow> bool" where
  "sri_inv st \<longleftrightarrow>
     dm_inv (sri_peer_infos st) \<and> dm_inv (sri_raw_peer_infos st) \<and> dm_inv (sri_conn_map st) \<and>
     dm_inv (sri_foreign_network st) \<and> trust_ok st \<and>
     (\<forall>k i. dm_get (sri_peer_infos st) k = Some i \<longrightarrow> info_ok k i)"

text \<open>The operations of the store, as steps.\<close>

inductive sri_step ::
  "string \<Rightarrow> ('raw \<Rightarrow> PeerId) \<Rightarrow> (PeerGroupInfo \<Rightarrow> string \<Rightarrow> PeerId \<Rightarrow> bool) \<Rightarrow> (string \<times> string) list set
    \<Rightarrow> 'raw SyncedRouteInfo \<Rightarrow> 'raw SyncedRouteInfo \<Rightarrow> bool"
  for pv raw_pid verify D where
  step_remove: "remove_peer p st = Inr st' \<Longrightarrow> sri_step pv raw_pid verify D st st'"
| step_fill: "fill_empty_peer_info pv now ps st = Inr st' \<Longrightarrow> sri_step pv raw_pid verify D st st'"
| step_peer_infos: "update_peer_infos raw_pid now my_id my_route dst infos raws st = Inr (st', err) \<Longrightarrow>
    sri_step pv raw_pid verify D st st'"
| step_conn_map: "update_conn_map pv now bm st = Inr st' \<Longrightarrow> sri_step pv raw_pid verify D st st'"
| step_foreign: "sri_step pv raw_pid verify D st (update_foreign_network now infos st)"
| step_drop_foreign: "sri_step pv raw_pid verify D st
    (st\<lparr>sri_foreign_network := dm_remove key (sri_foreign_network st)\<rparr>)"
| step_my_peer: "sri_update_my_peer_info now my_id my_route ctx st = Inr (st', b) \<Longrightarrow>
    sri_step pv raw_pid verify D st st'"
| step_my_conn: "sri_update_my_conn_info pv now my_id connected st = Inr (st', b) \<Longrightarrow>
    sri_step pv raw_pid verify D st st'"
| step_my_foreign: "sri_update_my_foreign_network now my_id fns st = Inr (st', b) \<Longrightarrow>
    sri_step pv raw_pid verify D st st'"
| step_trust: "decls \<in> D \<Longrightarrow>
    sri_step pv raw_pid verify D st (verify_and_update_group_trusts verify infos decls st)"
| step_inc: "sri_inc_version st = Inr st' \<Longrightarrow> sri_step pv raw_pid verify D st st'"

lemma trust_ok_cong:
  "sri_group_trust_map st' = sri_group_trust_map st \<Longrightarrow>
   sri_group_trust_map_cache st' = sri_group_trust_map_cache st \<Longrightarrow> trust_ok st' = trust_ok st"
  by (simp add: trust_ok_def)

lemma sri_inv_bumped [simp]: "sri_inv (bumped st) = sri_inv st"
  by (simp add: sri_inv_def trust_ok_def)

lemma sri_inv_inc: "sri_inc_version st = Inr st' \<Longrightarrow> sri_inv st \<Longrightarrow> sri_inv st'"
  by (simp add: rust_Inr)

lemma sri_inv_remove: "remove_peer p st = Inr st' \<Longrightarrow> sri_inv st \<Longrightarrow> sri_inv st'"
  by (auto simp: sri_inv_def remove_peer_def trust_ok_def rust_Inr split: if_splits)

lemma sri_inv_fill_one: "sri_inv (fst sn) \<Longrightarrow> sri_inv (fst (fill_empty_one pv now p sn))"
  by (auto simp: sri_inv_def fill_empty_one_def split_beta Let_def trust_ok_def dm_get_or_insert info_ok_def
      route_peer_info_new_def route_peer_info_default_def split: if_splits option.splits)

lemma sri_inv_fill:
  assumes "fill_empty_peer_info pv now ps st = Inr st'" "sri_inv st"
  shows "sri_inv st'"
proof -
  have "sri_inv (fst (fold (fill_empty_one pv now) ps sn))" if "sri_inv (fst sn)" for sn
    using that by (induction ps arbitrary: sn) (simp_all add: sri_inv_fill_one)
  from this [of "(st, False)"] assms(2) have "sri_inv (filled pv now ps st)" by (simp add: filled_def)
  with fill_empty_peer_info_Inr [OF assms(1)] show ?thesis by auto
qed

lemma sri_inv_merge_peer: "sri_inv (fst sn) \<Longrightarrow> sri_inv (fst (merge_peer_info now i r sn))"
  by (auto simp: sri_inv_def merge_peer_info_def split_beta Let_def trust_ok_def info_ok_def
      dm_merge.lookup_merge split: if_splits option.splits)

lemma sri_inv_peer_infos_loop:
  "update_peer_infos_loop raw_pid now my_id my_route dst infos raws sn = Inr (sn', err) \<Longrightarrow>
     sri_inv (fst sn) \<Longrightarrow> sri_inv (fst sn')"
proof (induction raw_pid now my_id my_route dst infos raws sn rule: update_peer_infos_loop.induct)
  case (3 raw_pid now my_id my_route dst i infos r raws sn)
  from "3.prems" sri_inv_merge_peer [OF "3.prems"(2)] show ?case
    by (auto simp: rust_Inr split: option.splits if_splits intro: "3.IH")
qed auto

lemma sri_inv_peer_infos:
  assumes "update_peer_infos raw_pid now my_id my_route dst infos raws st = Inr (st', err)" "sri_inv st"
  shows "sri_inv st'"
proof -
  obtain sn where "update_peer_infos_loop raw_pid now my_id my_route dst infos raws (st, False) = Inr (sn, err)"
    "st' = fst sn \<or> st' = bumped (fst sn)"
    using assms(1) by (auto simp: update_peer_infos_def rust_Inr split: option.splits if_splits)
  with sri_inv_peer_infos_loop [of _ _ _ _ _ _ _ "(st, False)"] assms(2) show ?thesis by fastforce
qed

lemma sri_inv_merge_conn: "sri_inv (fst sn) \<Longrightarrow> sri_inv (fst (merge_conn p c v sn))"
  by (auto simp: sri_inv_def merge_conn_def split_beta Let_def trust_ok_def)

lemma sri_inv_conn_loop:
  "update_conn_map_loop pv now bm idx ps sn = Inr sn' \<Longrightarrow> sri_inv (fst sn) \<Longrightarrow> sri_inv (fst sn')"
proof (induction pv now bm idx ps sn rule: update_conn_map_loop.induct)
  case (2 pv now bm idx p v ps sn)
  from "2.prems" show ?case
    by (auto simp: rust_Inr intro!: "2.IH" sri_inv_merge_conn intro: sri_inv_fill)
qed simp

lemma sri_inv_conn_map: "update_conn_map pv now bm st = Inr st' \<Longrightarrow> sri_inv st \<Longrightarrow> sri_inv st'"
  by (auto simp: update_conn_map_def rust_Inr split: if_splits
      dest!: sri_inv_conn_loop intro: sri_inv_fill)

lemma dm_inv_merge_foreign: "dm_inv m \<Longrightarrow> dm_inv (merge_foreign now item m)"
  by (auto simp: merge_foreign_def split: prod.split option.split)

lemma sri_inv_foreign: "sri_inv st \<Longrightarrow> sri_inv (update_foreign_network now infos st)"
proof -
  have "dm_inv (fold (merge_foreign now) infos m)" if "dm_inv m" for m
    using that by (induction infos arbitrary: m) (simp_all add: dm_inv_merge_foreign)
  then show "sri_inv st \<Longrightarrow> ?thesis"
    by (simp add: sri_inv_def update_foreign_network_def trust_ok_def)
qed

lemma update_self_fields_simps [simp]:
  "rpi_peer_id (update_self_fields self my_id route ctx) = my_id"
  "rpi_version (update_self_fields self my_id route ctx) = rpi_version self"
  "rpi_hostname (update_self_fields self my_id route ctx) \<noteq> None"
  by (simp_all add: update_self_fields_def)

lemma update_self_cases:
  assumes "update_self now self my_id route ctx = Inr new"
  shows "rpi_peer_id new = my_id \<and> rpi_hostname new \<noteq> None \<and>
    (new = self \<or> rpi_last_update new = Some now \<and> rpi_version new = rpi_version self + 1)"
proof -
  let ?f = "update_self_fields self my_id route ctx"
  have "new = ?f \<and> ?f = self \<or>
      new = ?f\<lparr>rpi_last_update := Some now, rpi_version := rpi_version self + 1\<rparr>"
    using assms by (auto simp: update_self_def Let_def rust_Inr checked_add_def split: if_splits)
  then show ?thesis
  proof
    assume "new = ?f \<and> ?f = self"
    then show ?thesis using update_self_fields_simps [of self my_id route ctx] by simp
  next
    assume "new = ?f\<lparr>rpi_last_update := Some now, rpi_version := rpi_version self + 1\<rparr>"
    then show ?thesis by simp
  qed
qed

lemma sri_inv_my_peer:
  assumes run: "sri_update_my_peer_info now my_id my_route ctx st = Inr (st', b)" and inv: "sri_inv st"
  shows "sri_inv st'"
proof -
  let ?old = "case dm_get (sri_peer_infos st) my_id of Some i \<Rightarrow> i | None \<Rightarrow> route_peer_info_default"
  obtain new where new: "update_self now ?old my_id my_route ctx = Inr new"
    and st': "st' = st\<lparr>sri_peer_infos := dm_insert my_id new (sri_peer_infos st)\<rparr> \<or>
              st' = bumped (st\<lparr>sri_peer_infos := dm_insert my_id new (sri_peer_infos st)\<rparr>)"
    using run by (auto simp: sri_update_my_peer_info_def Let_def rust_Inr split: if_splits)
  have default: "new \<noteq> route_peer_info_default"
    using update_self_cases [OF new] by (auto simp: route_peer_info_default_def)
  have "info_ok my_id new"
  proof (cases "dm_get (sri_peer_infos st) my_id")
    case None
    then show ?thesis using update_self_cases [OF new] default by (auto simp: info_ok_def)
  next
    case (Some i)
    then have "info_ok my_id i" using inv by (simp add: sri_inv_def)
    then show ?thesis using update_self_cases [OF new] Some by (auto simp: info_ok_def)
  qed
  with inv have "sri_inv (st\<lparr>sri_peer_infos := dm_insert my_id new (sri_peer_infos st)\<rparr>)"
    by (simp add: sri_inv_def trust_ok_def)
  with st' show ?thesis by auto
qed

lemma sri_inv_my_conn:
  assumes "sri_update_my_conn_info pv now my_id c st = Inr (st', b)" "sri_inv st"
  shows "sri_inv st'"
proof -
  obtain st1 m where fill: "fill_empty_peer_info pv now c st = Inr st1"
    and st': "st' = st1\<lparr>sri_conn_map := m\<rparr> \<or> st' = bumped (st1\<lparr>sri_conn_map := m\<rparr>)"
    and m: "m = dm_or_insert my_id ([], 0) (sri_conn_map st1) \<or>
      (\<exists>e. m = dm_insert my_id e (dm_or_insert my_id ([], 0) (sri_conn_map st1)))"
    using assms(1) by (auto simp: sri_update_my_conn_info_def Let_def split_beta rust_Inr split: if_splits)
  have "sri_inv (st1\<lparr>sri_conn_map := m\<rparr>)"
    using sri_inv_fill [OF fill assms(2)] m by (auto simp: sri_inv_def trust_ok_def)
  with st' show ?thesis by auto
qed

lemma renew_my_foreign_key:
  "renew_my_foreign now nv my_id item acc = Inr (item', acc') \<Longrightarrow> fst item' = fst item"
  by (auto simp: renew_my_foreign_def split_beta Let_def rust_Inr split: if_splits option.splits)

lemma renew_my_foreign_loop_keys:
  "renew_my_foreign_loop now nv my_id m acc = Inr (m', acc') \<Longrightarrow> map fst m' = map fst m"
proof (induction m arbitrary: acc m')
  case (Cons item m)
  then show ?case
    by (auto simp: rust_Inr dest!: renew_my_foreign_key)
qed simp

lemma add_my_foreign_loop_inv: "add_my_foreign_loop nv fns m = Inr m' \<Longrightarrow> dm_inv m \<Longrightarrow> dm_inv m'"
  by (induction nv fns m rule: add_my_foreign_loop.induct) (auto split: if_splits)

lemma sri_inv_my_foreign:
  assumes "sri_update_my_foreign_network now my_id fns st = Inr (st', b)" "sri_inv st"
  shows "sri_inv st'"
proof -
  let ?nv = "of_nat (now div secs 1)"
  obtain m rest u m' where
    m: "renew_my_foreign_loop now ?nv my_id (sri_foreign_network st) (fns, False) = Inr (m, rest, u)"
    and m': "add_my_foreign_loop ?nv rest m = Inr m'"
    and st': "st' = st\<lparr>sri_foreign_network := m'\<rparr> \<or> st' = bumped (st\<lparr>sri_foreign_network := m'\<rparr>)"
    using assms(1)
    by (auto simp: sri_update_my_foreign_network_def Let_def rust_Inr split: if_splits)
  have "dm_inv m" using assms(2) renew_my_foreign_loop_keys [OF m] by (simp add: sri_inv_def dm_inv_def)
  then have "dm_inv m'" by (rule add_my_foreign_loop_inv [OF m'])
  with assms(2) have "sri_inv (st\<lparr>sri_foreign_network := m'\<rparr>)" by (simp add: sri_inv_def trust_ok_def)
  with st' show ?thesis by auto
qed

lemma dm_inv_verify_groups: "dm_inv (verify_groups verify decls old info)"
proof -
  have "dm_inv (fold (verify_group verify decls old p) gs m)" if "dm_inv m" for p gs m
    using that by (induction gs arbitrary: m) (auto simp: verify_group_def split: option.split)
  then show ?thesis by (simp add: verify_groups_def)
qed

lemma trust_ok_update: "trust_ok st \<Longrightarrow> trust_ok (update_group_trust verify decls info st)"
  by (auto simp: trust_ok_def update_group_trust_def Let_def dm_inv_verify_groups split: option.splits)

lemma update_group_trust_frame:
  "sri_peer_infos (update_group_trust verify decls info st) = sri_peer_infos st"
  "sri_raw_peer_infos (update_group_trust verify decls info st) = sri_raw_peer_infos st"
  "sri_conn_map (update_group_trust verify decls info st) = sri_conn_map st"
  "sri_foreign_network (update_group_trust verify decls info st) = sri_foreign_network st"
  by (simp_all add: update_group_trust_def Let_def split: option.split)

lemma sri_inv_update_trust: "sri_inv st \<Longrightarrow> sri_inv (update_group_trust verify decls info st)"
  by (simp add: sri_inv_def update_group_trust_frame trust_ok_update)

lemma sri_inv_trust: "sri_inv st \<Longrightarrow> sri_inv (verify_and_update_group_trusts verify infos decls st)"
  unfolding verify_and_update_group_trusts_def
  by (induction infos arbitrary: st) (simp_all add: sri_inv_update_trust)

lemma sri_inv_drop_foreign:
  "sri_inv st \<Longrightarrow> sri_inv (st\<lparr>sri_foreign_network := dm_remove key (sri_foreign_network st)\<rparr>)"
  by (simp add: sri_inv_def trust_ok_def)

lemmas sri_inv_ops = sri_inv_remove sri_inv_fill sri_inv_peer_infos sri_inv_conn_map sri_inv_foreign
  sri_inv_drop_foreign sri_inv_my_peer sri_inv_my_conn sri_inv_my_foreign sri_inv_trust

lemma sri_inv_step: "sri_step pv raw_pid verify D st st' \<Longrightarrow> sri_inv st \<Longrightarrow> sri_inv st'"
  by (induction rule: sri_step.induct) (blast intro: sri_inv_ops sri_inv_inc)+

lemma sri_inv_new: "sri_inv synced_route_info_new"
  by (simp add: sri_inv_def synced_route_info_new_def trust_ok_def)

lemma sri_inv_reachable:
  "(sri_step pv raw_pid verify D)\<^sup>*\<^sup>* synced_route_info_new st \<Longrightarrow> sri_inv st"
  by (induction rule: rtranclp_induct) (auto intro: sri_inv_step sri_inv_new)

text \<open>
  C20. In every state the store can reach by its operations, the cache of trusted groups
  agrees with the trust map, every peer info has a time stamp, and every peer info that is more
  than a placeholder is stored under its own peer id.
\<close>

theorem synced_store_invariant:
  assumes "(sri_step pv raw_pid verify D)\<^sup>*\<^sup>* synced_route_info_new st"
  shows "dm_inv (sri_peer_infos st) \<and> dm_inv (sri_conn_map st) \<and> dm_inv (sri_foreign_network st) \<and>
    (\<forall>p. dm_get (sri_group_trust_map_cache st) p = map_option (map fst) (dm_get (sri_group_trust_map st) p)) \<and>
    (\<forall>k i. dm_get (sri_peer_infos st) k = Some i \<longrightarrow>
       rpi_last_update i \<noteq> None \<and> (rpi_version i \<noteq> 0 \<longrightarrow> rpi_peer_id i = k))"
  using sri_inv_reachable [OF assms] by (simp add: sri_inv_def trust_ok_def info_ok_def)

theorem synced_store_invariant_witness:
  "\<exists>st. (sri_step [] id (\<lambda>_ _ _. True) {[]})\<^sup>*\<^sup>* synced_route_info_new (st :: PeerId SyncedRouteInfo) \<and>
     sri_peer_infos st \<noteq> [] \<and>
     (\<forall>p. dm_get (sri_group_trust_map_cache st) p = map_option (map fst) (dm_get (sri_group_trust_map st) p)) \<and>
     (\<forall>k i. dm_get (sri_peer_infos st) k = Some i \<longrightarrow>
       rpi_last_update i \<noteq> None \<and> (rpi_version i \<noteq> 0 \<longrightarrow> rpi_peer_id i = k))"
proof -
  have "case fill_empty_peer_info [] 5 [7] synced_route_info_new :: PeerId SyncedRouteInfo rust of
      Inl e \<Rightarrow> False | Inr st \<Rightarrow> sri_peer_infos st \<noteq> []" by code_simp
  then obtain st :: "PeerId SyncedRouteInfo" where
    st: "fill_empty_peer_info [] 5 [7] synced_route_info_new = Inr st" "sri_peer_infos st \<noteq> []"
    by (auto split: sum.splits)
  have reach: "(sri_step [] id (\<lambda>_ _ _. True) {[]})\<^sup>*\<^sup>* synced_route_info_new st"
    by (rule r_into_rtranclp) (rule step_fill [OF st(1)])
  with st synced_store_invariant [OF reach] show ?thesis by blast
qed

section \<open>Group trust is earned\<close>

definition proof_checked ::
  "(PeerGroupInfo \<Rightarrow> string \<Rightarrow> PeerId \<Rightarrow> bool) \<Rightarrow> (string \<times> string) list set \<Rightarrow> PeerId \<Rightarrow> string \<Rightarrow> byte list \<Rightarrow> bool" where
  "proof_checked verify D p n pr \<longleftrightarrow>
     (\<exists>decls \<in> D. \<exists>secret. (n, secret) \<in> set decls \<and> verify \<lparr>group_name = n, group_proof = pr\<rparr> secret p)"

definition all_checked ::
  "(PeerGroupInfo \<Rightarrow> string \<Rightarrow> PeerId \<Rightarrow> bool) \<Rightarrow> (string \<times> string) list set \<Rightarrow> 'raw SyncedRouteInfo \<Rightarrow> bool" where
  "all_checked verify D st \<longleftrightarrow>
     (\<forall>p m n pr. dm_get (sri_group_trust_map st) p = Some m \<longrightarrow> dm_get m n = Some pr \<longrightarrow>
        proof_checked verify D p n pr)"

lemma declared_secret:
  "dm_get (fold (\<lambda>(n, s). dm_insert n s) decls m) n = Some s \<Longrightarrow> (n, s) \<in> set decls \<or> dm_get m n = Some s"
proof (induction decls arbitrary: m)
  case (Cons d decls)
  obtain n' s' where "d = (n', s')" by force
  with Cons.IH [of "dm_insert n' s' m"] Cons.prems show ?case by (auto split: if_splits)
qed simp

lemma verify_groups_sound:
  assumes "dm_get (verify_groups verify dm old info) n = Some pr"
  shows "Option.bind old (\<lambda>m. dm_get m n) = Some pr \<or>
    (\<exists>secret. dm_get dm n = Some secret \<and> verify \<lparr>group_name = n, group_proof = pr\<rparr> secret (rpi_peer_id info))"
proof -
  let ?ok = "\<lambda>n pr. Option.bind old (\<lambda>m. dm_get m n) = Some pr \<or>
    (\<exists>secret. dm_get dm n = Some secret \<and> verify \<lparr>group_name = n, group_proof = pr\<rparr> secret (rpi_peer_id info))"
  have one: "?ok n pr"
    if "dm_get (verify_group verify dm old (rpi_peer_id info) g m) n = Some pr" "dm_get m n \<noteq> Some pr" for g m n pr
    using that by (cases g) (auto simp: verify_group_def split: if_splits option.splits)
  have "\<forall>n pr. dm_get (fold (verify_group verify dm old (rpi_peer_id info)) gs m) n = Some pr \<longrightarrow> ?ok n pr"
    if "\<forall>n pr. dm_get m n = Some pr \<longrightarrow> ?ok n pr" for gs m
    using that
  proof (induction gs arbitrary: m)
    case (Cons g gs)
    have "\<forall>n pr. dm_get (verify_group verify dm old (rpi_peer_id info) g m) n = Some pr \<longrightarrow> ?ok n pr"
      using Cons.prems one by blast
    from Cons.IH [OF this] show ?case by (simp only: fold_simps)
  qed (simp only: fold_simps)
  from this [of "[]" "rpi_groups info"] assms show ?thesis by (simp add: verify_groups_def)
qed

lemma all_checked_update:
  assumes checked: "all_checked verify D st" and decls: "decls \<in> D"
  shows "all_checked verify D
    (update_group_trust verify (fold (\<lambda>(n, s). dm_insert n s) decls []) info st)"
proof -
  let ?dm = "fold (\<lambda>(n, s). dm_insert n s) decls []" and ?p = "rpi_peer_id info"
  have sound: "proof_checked verify D ?p n pr"
    if "dm_get (verify_groups verify ?dm (dm_get (sri_group_trust_map st) ?p) info) n = Some pr" for n pr
    using verify_groups_sound [OF that]
  proof
    assume "Option.bind (dm_get (sri_group_trust_map st) ?p) (\<lambda>m. dm_get m n) = Some pr"
    then show ?thesis using checked
      by (cases "dm_get (sri_group_trust_map st) ?p") (auto simp: all_checked_def)
  next
    assume "\<exists>secret. dm_get ?dm n = Some secret \<and> verify \<lparr>group_name = n, group_proof = pr\<rparr> secret ?p"
    then show ?thesis using declared_secret [of decls "[]" n] decls by (auto simp: proof_checked_def)
  qed
  show ?thesis
  proof (cases "dm_get (sri_group_trust_map st) ?p")
    case None
    with sound have "dm_get (verify_groups verify ?dm None info) n = Some pr \<Longrightarrow>
        proof_checked verify D ?p n pr" for n pr by simp
    with None checked show ?thesis
      unfolding all_checked_def update_group_trust_def by (simp add: Let_def)
  next
    case (Some old)
    with sound have "dm_get (verify_groups verify ?dm (Some old) info) n = Some pr \<Longrightarrow>
        proof_checked verify D ?p n pr" for n pr by simp
    with Some checked show ?thesis
      unfolding all_checked_def update_group_trust_def by (simp add: Let_def)
  qed
qed

lemma all_checked_cong:
  "sri_group_trust_map st' = sri_group_trust_map st \<Longrightarrow> all_checked verify D st' = all_checked verify D st"
  by (simp add: all_checked_def)

lemma trust_map_fill:
  "fill_empty_peer_info pv now ps st = Inr st' \<Longrightarrow> sri_group_trust_map st' = sri_group_trust_map st"
proof -
  assume fill: "fill_empty_peer_info pv now ps st = Inr st'"
  have "sri_group_trust_map (fst (fold (fill_empty_one pv now) ps sn)) = sri_group_trust_map (fst sn)" for sn
    by (induction ps arbitrary: sn) (simp_all add: fill_empty_one_def split_beta Let_def)
  from this [of "(st, False)"] fill_empty_peer_info_Inr [OF fill] show ?thesis
    by (auto simp: filled_def)
qed

lemma trust_map_inc: "sri_inc_version st = Inr st' \<Longrightarrow> sri_group_trust_map st' = sri_group_trust_map st"
  by (simp add: rust_Inr)

lemma trust_map_peer_infos_loop:
  "update_peer_infos_loop raw_pid now my_id my_route dst infos raws sn = Inr (sn', err) \<Longrightarrow>
     sri_group_trust_map (fst sn') = sri_group_trust_map (fst sn)"
  by (induction raw_pid now my_id my_route dst infos raws sn rule: update_peer_infos_loop.induct)
    (auto simp: rust_Inr merge_peer_info_frame split: option.splits if_splits)

lemma trust_map_conn_loop:
  "update_conn_map_loop pv now bm idx ps sn = Inr sn' \<Longrightarrow>
     sri_group_trust_map (fst sn') = sri_group_trust_map (fst sn)"
  by (induction pv now bm idx ps sn rule: update_conn_map_loop.induct)
    (auto simp: rust_Inr merge_conn_def Let_def split_beta dest!: trust_map_fill)

lemma trust_map_my_conn:
  "sri_update_my_conn_info pv now my_id c st = Inr (st', b) \<Longrightarrow>
     sri_group_trust_map st' = sri_group_trust_map st"
  by (auto simp: sri_update_my_conn_info_def Let_def split_beta rust_Inr split: if_splits dest!: trust_map_fill)

lemma trust_map_foreign [simp]:
  "sri_group_trust_map (update_foreign_network now infos st) = sri_group_trust_map st"
  by (simp add: update_foreign_network_def)

lemma trust_map_peer_infos:
  "update_peer_infos raw_pid now my_id my_route dst infos raws st = Inr (st', err) \<Longrightarrow>
     sri_group_trust_map st' = sri_group_trust_map st"
  by (auto simp: update_peer_infos_def rust_Inr split: option.splits if_splits
      dest!: trust_map_peer_infos_loop)

lemma trust_map_conn_map:
  "update_conn_map pv now bm st = Inr st' \<Longrightarrow> sri_group_trust_map st' = sri_group_trust_map st"
  by (auto simp: update_conn_map_def rust_Inr split: if_splits dest!: trust_map_conn_loop trust_map_fill)

lemma trust_map_my_peer:
  "sri_update_my_peer_info now my_id my_route ctx st = Inr (st', b) \<Longrightarrow>
     sri_group_trust_map st' = sri_group_trust_map st"
  by (auto simp: sri_update_my_peer_info_def Let_def rust_Inr split: if_splits)

lemma trust_map_my_foreign:
  "sri_update_my_foreign_network now my_id fns st = Inr (st', b) \<Longrightarrow>
     sri_group_trust_map st' = sri_group_trust_map st"
  by (auto simp: sri_update_my_foreign_network_def Let_def rust_Inr split: if_splits)

lemma all_checked_remove:
  "remove_peer p st = Inr st' \<Longrightarrow> all_checked verify D st \<Longrightarrow> all_checked verify D st'"
  by (auto simp: all_checked_def remove_peer_def rust_Inr split: if_splits)

lemma all_checked_trust:
  assumes "all_checked verify D st" "decls \<in> D"
  shows "all_checked verify D (verify_and_update_group_trusts verify infos decls st)"
  unfolding verify_and_update_group_trusts_def using assms
  by (induction infos arbitrary: st) (simp_all add: all_checked_update)

lemma all_checked_step:
  assumes "sri_step pv raw_pid verify D st st'" and checked: "all_checked verify D st"
  shows "all_checked verify D st'"
  using assms(1)
proof (cases rule: sri_step.cases)
  case (step_remove p)
  then show ?thesis using all_checked_remove [OF _ checked] by blast
next
  case (step_fill now ps)
  then show ?thesis using all_checked_cong [OF trust_map_fill] checked by blast
next
  case (step_my_conn now my_id connected b)
  then show ?thesis using all_checked_cong [OF trust_map_my_conn] checked by blast
next
  case step_inc
  then show ?thesis using all_checked_cong [OF trust_map_inc] checked by blast
next
  case (step_trust decls infos)
  then show ?thesis using all_checked_trust [OF checked] by simp
next
  case (step_drop_foreign key)
  then show ?thesis using all_checked_cong [of st' st] checked by simp
next
  case (step_peer_infos now my_id my_route dst infos raws err)
  then show ?thesis using all_checked_cong [OF trust_map_peer_infos] checked by blast
next
  case (step_conn_map now bm)
  then show ?thesis using all_checked_cong [OF trust_map_conn_map] checked by blast
next
  case (step_my_peer now my_id my_route ctx b)
  then show ?thesis using all_checked_cong [OF trust_map_my_peer] checked by blast
next
  case (step_my_foreign now my_id fns b)
  then show ?thesis using all_checked_cong [OF trust_map_my_foreign] checked by blast
qed (use all_checked_cong [of st' st] checked in simp_all)

text \<open>
  C21. A group name is trusted for a peer only with a proof that was verified for exactly that peer
  id under a secret the node itself declared for that group, in some configuration it has had.
\<close>

theorem group_trust_sound:
  assumes "(sri_step pv raw_pid verify D)\<^sup>*\<^sup>* synced_route_info_new st"
    and "dm_get (sri_group_trust_map st) p = Some m" and "dm_get m n = Some pr"
  shows "\<exists>decls \<in> D. \<exists>secret. (n, secret) \<in> set decls \<and>
           verify \<lparr>group_name = n, group_proof = pr\<rparr> secret p"
proof -
  have "all_checked verify D st"
    using assms(1)
  proof (induction rule: rtranclp_induct)
    case base
    then show ?case by (simp add: all_checked_def synced_route_info_new_def)
  next
    case (step y z)
    then show ?case by (blast intro: all_checked_step)
  qed
  with assms(2,3) show ?thesis unfolding all_checked_def proof_checked_def by blast
qed

definition example_verify :: "PeerGroupInfo \<Rightarrow> string \<Rightarrow> PeerId \<Rightarrow> bool" where
  "example_verify g secret p \<longleftrightarrow> group_proof g = map of_char secret @ be_bytes 4 p"

definition example_member :: RoutePeerInfo where
  "example_member = (example_info 7 1)\<lparr>rpi_groups :=
     [\<lparr>group_name = ''ops'', group_proof = map of_char ''s3'' @ be_bytes 4 (7 :: PeerId)\<rparr>]\<rparr>"

theorem group_trust_sound_witness:
  "\<exists>decls \<in> {[(''ops'', ''s3'')]}. \<exists>secret. (''ops'', secret) \<in> set decls \<and>
     example_verify \<lparr>group_name = ''ops'', group_proof = [115, 51, 0, 0, 0, 7]\<rparr> secret 7"
proof -
  let ?st = "verify_and_update_group_trusts example_verify [example_member] [(''ops'', ''s3'')]
    (synced_route_info_new :: PeerId SyncedRouteInfo)"
  have reach: "(sri_step [] id example_verify {[(''ops'', ''s3'')]})\<^sup>*\<^sup>* synced_route_info_new ?st"
    by (rule r_into_rtranclp) (rule step_trust, simp)
  have trust: "dm_get (sri_group_trust_map ?st) 7 = Some [(''ops'', [115, 51, 0, 0, 0, 7])]"
    by code_simp
  show ?thesis
    by (rule group_trust_sound [OF reach trust]) (simp add: dm_get_def)
qed

end
