(* ===== verification/OspfBitmap.thy ===== *)
theory OspfBitmap
  imports OspfSynced
begin

unbundle bit_operations_syntax

text \<open>
  Encoding and decoding of the connection bitmap (\<open>src/app/src/peers/peer_ospf_route.rs\<close>): the
  encoder of \<open>update_route_table_and_cached_local_conn_bitmap\<close> against \<open>RouteConnBitmap::get_bit\<close>
  and \<open>get_connected_peers\<close>, and what \<open>update_conn_map\<close> does with a decoded bitmap.
\<close>

section \<open>The encoder\<close>

definition bitmap_or :: "usize \<Rightarrow> byte list \<Rightarrow> byte list rust" where
  "bitmap_or k bm =
     (if k div 8 < length bm then Inr (bm[k div 8 := (bm ! (k div 8)) OR push_bit (k mod 8) 1])
      else Inl IndexOutOfRange)"

fun encode_row :: "usize \<Rightarrow> PeerId list \<Rightarrow> usize \<Rightarrow> (PeerId \<times> Version) list \<Rightarrow> byte list \<Rightarrow> byte list rust" where
  "encode_row base connected idx [] bm = Inr bm"
| "encode_row base connected idx ((other, _) # others) bm =
     rbind (if other \<in> set connected then bitmap_or (base + idx) bm else Inr bm)
       (encode_row base connected (idx + 1) others)"

fun encode_rows ::
  "(PeerId, PeerId list \<times> Version) dmap \<Rightarrow> (PeerId \<times> Version) list \<Rightarrow> usize \<Rightarrow> (PeerId \<times> Version) list
    \<Rightarrow> byte list \<Rightarrow> byte list rust" where
  "encode_rows conn_map all row [] bm = Inr bm"
| "encode_rows conn_map all row ((p, _) # ps) bm =
     rbind (case dm_get conn_map p of
              None \<Rightarrow> Inr bm
            | Some (connected, _) \<Rightarrow> encode_row (row * length all) connected 0 all bm)
       (encode_rows conn_map all (row + 1) ps)"

definition encode_conn_bitmap ::
  "(PeerId, PeerId list \<times> Version) dmap \<Rightarrow> (PeerId \<times> Version) list \<Rightarrow> RouteConnBitmap rust" where
  "encode_conn_bitmap conn_map all_peer_ids =
     (let n = length all_peer_ids
      in rmap (\<lambda>bm. \<lparr>rcb_peer_ids = all_peer_ids, rcb_bitmap = bm\<rparr>)
           (encode_rows conn_map all_peer_ids 0 all_peer_ids (replicate ((n * n + 7) div 8) 0)))"

section \<open>Bits\<close>

definition bit_at :: "byte list \<Rightarrow> nat \<Rightarrow> bool" where
  "bit_at bm k \<longleftrightarrow> bit (bm ! (k div 8)) (k mod 8)"

lemma get_bit_eq:
  "get_bit bm k = (if k div 8 < length (rcb_bitmap bm) then Inr (bit_at (rcb_bitmap bm) k) else Inl IndexOutOfRange)"
proof -
  have "(w AND 1 = 1) \<longleftrightarrow> bit w 0" for w :: byte
    by (simp add: and_one_eq odd_iff_mod_2_eq_one [symmetric] bit_0)
  then show ?thesis by (simp add: get_bit_def Let_def bit_at_def bit_drop_bit_eq)
qed

lemma bitmap_or_ok:
  assumes "k < 8 * length bm"
  shows "\<exists>bm'. bitmap_or k bm = Inr bm' \<and> length bm' = length bm \<and>
    (\<forall>j < 8 * length bm. bit_at bm' j \<longleftrightarrow> bit_at bm j \<or> j = k)"
proof -
  have k: "k div 8 < length bm" using assms by auto
  have eq: "j = k \<longleftrightarrow> j div 8 = k div 8 \<and> j mod 8 = k mod 8" for j
    by (metis div_mult_mod_eq)
  have "bit_at (bm[k div 8 := (bm ! (k div 8)) OR push_bit (k mod 8) 1]) j \<longleftrightarrow> bit_at bm j \<or> j = k"
    if "j < 8 * length bm" for j
    using k by (cases "j div 8 = k div 8") (auto simp: bit_at_def bit_simps eq)
  with k show ?thesis by (simp add: bitmap_or_def)
qed

lemma encode_row_ok:
  assumes "base + idx + length others \<le> 8 * length bm"
  shows "\<exists>bm'. encode_row base connected idx others bm = Inr bm' \<and> length bm' = length bm \<and>
    (\<forall>j < 8 * length bm. bit_at bm' j \<longleftrightarrow> bit_at bm j \<or>
       (\<exists>i < length others. fst (others ! i) \<in> set connected \<and> j = base + idx + i))"
  using assms
proof (induction base connected idx others bm rule: encode_row.induct)
  case (1 base connected idx bm)
  then show ?case by simp
next
  case (2 base connected idx other v others bm)
  obtain bm1 where bm1: "(if other \<in> set connected then bitmap_or (base + idx) bm else Inr bm) = Inr bm1"
    and len: "length bm1 = length bm"
    and bits: "\<forall>j < 8 * length bm. bit_at bm1 j \<longleftrightarrow> bit_at bm j \<or> other \<in> set connected \<and> j = base + idx"
    using bitmap_or_ok [of "base + idx" bm] "2.prems" by (cases "other \<in> set connected") auto
  obtain bm2 where bm2: "encode_row base connected (idx + 1) others bm1 = Inr bm2" "length bm2 = length bm"
    "\<forall>j < 8 * length bm. bit_at bm2 j \<longleftrightarrow> bit_at bm1 j \<or>
       (\<exists>i < length others. fst (others ! i) \<in> set connected \<and> j = base + (idx + 1) + i)"
    using "2.IH" [of bm1] "2.prems" len by auto
  have step: "(\<exists>i < length ((other, v) # others). fst (((other, v) # others) ! i) \<in> set connected \<and> j = base + idx + i)
      \<longleftrightarrow> other \<in> set connected \<and> j = base + idx \<or>
        (\<exists>i < length others. fst (others ! i) \<in> set connected \<and> j = base + (idx + 1) + i)" for j
    by (auto simp: less_Suc_eq_0_disj)
  show ?case
    using bm1 bm2 bits unfolding step by auto
qed

lemma row_col_unique:
  assumes "c < n" "c' < n" "r * n + c = r' * n + (c' :: nat)"
  shows "r = r' \<and> c = c'"
proof -
  have "(r * n + c) div n = r" "(r' * n + c') div n = r'" using assms(1,2) by simp_all
  with assms show ?thesis by auto
qed

definition connects :: "(PeerId, PeerId list \<times> Version) dmap \<Rightarrow> PeerId \<Rightarrow> PeerId \<Rightarrow> bool" where
  "connects conn_map p q \<longleftrightarrow> (\<exists>peers v. dm_get conn_map p = Some (peers, v) \<and> q \<in> set peers)"

lemma encode_rows_ok:
  assumes "(row + length ps) * length all \<le> 8 * length bm"
  shows "\<exists>bm'. encode_rows conn_map all row ps bm = Inr bm' \<and> length bm' = length bm \<and>
    (\<forall>j < 8 * length bm. bit_at bm' j \<longleftrightarrow> bit_at bm j \<or>
       (\<exists>r < length ps. \<exists>i < length all. connects conn_map (fst (ps ! r)) (fst (all ! i)) \<and>
          j = (row + r) * length all + i))"
  using assms
proof (induction conn_map all row ps bm rule: encode_rows.induct)
  case (1 conn_map all row bm)
  then show ?case by simp
next
  case (2 conn_map all row p v ps bm)
  let ?n = "length all"
  have room: "row * ?n + 0 + length all \<le> 8 * length bm"
    using "2.prems" by (simp add: algebra_simps)
  obtain bm1 where bm1: "(case dm_get conn_map p of None \<Rightarrow> Inr bm
        | Some (connected, _) \<Rightarrow> encode_row (row * ?n) connected 0 all bm) = Inr bm1"
    and len: "length bm1 = length bm"
    and bits: "\<forall>j < 8 * length bm. bit_at bm1 j \<longleftrightarrow> bit_at bm j \<or>
       (\<exists>i < ?n. connects conn_map p (fst (all ! i)) \<and> j = row * ?n + i)"
  proof (cases "dm_get conn_map p")
    case None
    then show ?thesis using that [of bm] by (simp add: connects_def)
  next
    case (Some c)
    then show ?thesis
      using that encode_row_ok [OF room, of "fst c"] by (cases c) (auto simp: connects_def)
  qed
  obtain bm2 where bm2: "encode_rows conn_map all (row + 1) ps bm1 = Inr bm2" "length bm2 = length bm"
    "\<forall>j < 8 * length bm. bit_at bm2 j \<longleftrightarrow> bit_at bm1 j \<or>
       (\<exists>r < length ps. \<exists>i < ?n. connects conn_map (fst (ps ! r)) (fst (all ! i)) \<and>
          j = (row + 1 + r) * ?n + i)"
    using "2.IH" [of bm1] "2.prems" len by (auto simp: algebra_simps)
  have step: "(\<exists>r < length ((p, v) # ps). \<exists>i < ?n. connects conn_map (fst (((p, v) # ps) ! r)) (fst (all ! i)) \<and>
          j = (row + r) * ?n + i) \<longleftrightarrow>
      (\<exists>i < ?n. connects conn_map p (fst (all ! i)) \<and> j = row * ?n + i) \<or>
      (\<exists>r < length ps. \<exists>i < ?n. connects conn_map (fst (ps ! r)) (fst (all ! i)) \<and>
          j = (row + 1 + r) * ?n + i)" for j
    by (auto simp: less_Suc_eq_0_disj)
  show ?case
    using bm1 bm2 bits unfolding step by auto
qed

section \<open>The decoder\<close>

lemma connected_peers_from_ok:
  assumes "row * length (rcb_peer_ids bm) + idx + length ps \<le> 8 * length (rcb_bitmap bm)"
  shows "connected_peers_from bm row idx ps =
    Inr (map (\<lambda>i. fst (ps ! i))
      (filter (\<lambda>i. bit_at (rcb_bitmap bm) (row * length (rcb_peer_ids bm) + idx + i)) [0..<length ps]))"
  using assms
proof (induction bm row idx ps rule: connected_peers_from.induct)
  case (1 bm row idx)
  then show ?case by simp
next
  case (2 bm row idx p v ps)
  let ?k = "row * length (rcb_peer_ids bm) + idx"
  have "?k div 8 < length (rcb_bitmap bm)" using "2.prems" by auto
  then have bit: "get_bit bm ?k = Inr (bit_at (rcb_bitmap bm) ?k)" by (simp add: get_bit_eq)
  have upt: "[0..<length ((p, v) # ps)] = 0 # map Suc [0..<length ps]"
    by (simp add: upt_conv_Cons map_Suc_upt del: upt_Suc)
  show ?case
    using "2.IH" "2.prems" unfolding upt
    by (simp add: bit filter_map o_def)
qed

lemma connected_peers_from_panic:
  "connected_peers_from bm row idx ps = Inl e \<longleftrightarrow>
     e = IndexOutOfRange \<and> ps \<noteq> [] \<and>
     8 * length (rcb_bitmap bm) < row * length (rcb_peer_ids bm) + idx + length ps"
proof (induction bm row idx ps rule: connected_peers_from.induct)
  case (1 bm row idx)
  then show ?case by simp
next
  case (2 bm row idx p v ps)
  let ?k = "row * length (rcb_peer_ids bm) + idx"
  show ?case
  proof (cases "?k div 8 < length (rcb_bitmap bm)")
    case True
    then have "?k < 8 * length (rcb_bitmap bm)" by auto
    with True "2.IH" show ?thesis
      by (cases "connected_peers_from bm row (idx + 1) ps") (auto simp: get_bit_eq)
  next
    case False
    then show ?thesis by (auto simp: get_bit_eq)
  qed
qed

lemma bitmap_connected_peers_panic:
  "bitmap_connected_peers bm row = Inl e \<longleftrightarrow>
     e = IndexOutOfRange \<and> rcb_peer_ids bm \<noteq> [] \<and>
     8 * length (rcb_bitmap bm) < (row + 1) * length (rcb_peer_ids bm)"
  using connected_peers_from_panic [of bm row 0 "rcb_peer_ids bm" e]
  by (cases "connected_peers_from bm row 0 (rcb_peer_ids bm)")
    (auto simp: bitmap_connected_peers_def algebra_simps)

text \<open>
  The rows name only listed peers, and the first step of \<open>update_conn_map\<close> fills these in. The calls
  of \<open>fill_empty_peer_info\<close> for the single rows therefore change nothing.
\<close>

definition known_all :: "'raw SyncedRouteInfo \<Rightarrow> PeerId list \<Rightarrow> bool" where
  "known_all st ps \<longleftrightarrow> (\<forall>p \<in> set ps. dm_contains (sri_peer_infos st) p \<and> dm_contains (sri_conn_map st) p)"

definition conn_version :: "'raw SyncedRouteInfo \<Rightarrow> PeerId \<Rightarrow> Version" where
  "conn_version st p = (case dm_get (sri_conn_map st) p of Some (_, v) \<Rightarrow> v | None \<Rightarrow> 0)"

lemma connected_peers_listed:
  "bitmap_connected_peers bm row = Inr c \<Longrightarrow> set c \<subseteq> set (map fst (rcb_peer_ids bm))"
proof -
  have "set c' \<subseteq> set (map fst ps)" if "connected_peers_from bm row idx ps = Inr c'" for idx ps c'
    using that
    by (induction bm row idx ps arbitrary: c' rule: connected_peers_from.induct)
      (auto simp: rust_Inr split: if_splits)
  from this [of 0 "rcb_peer_ids bm"] show "bitmap_connected_peers bm row = Inr c \<Longrightarrow> ?thesis"
    by (auto simp: bitmap_connected_peers_def rust_Inr simp del: set_map)
qed

lemma fill_one:
  "snd (fill_empty_one pv now p sn) = (snd sn \<or> \<not> known_all (fst sn) [p])"
  "known_all (fst (fill_empty_one pv now p sn)) [q] = (known_all (fst sn) [q] \<or> q = p)"
  "conn_version (fst (fill_empty_one pv now p sn)) q = conn_version (fst sn) q"
  "sri_version (fst (fill_empty_one pv now p sn)) = sri_version (fst sn)"
  "known_all (fst sn) [p] \<Longrightarrow> fill_empty_one pv now p sn = sn"
  by (auto simp: fill_empty_one_def known_all_def conn_version_def dm_contains_def dm_get_or_insert dm_or_insert_def
      split_beta Let_def split: option.splits)

lemma known_all_Cons: "known_all st (p # ps) \<longleftrightarrow> known_all st [p] \<and> known_all st ps"
  by (auto simp: known_all_def)

lemma known_all_iff: "known_all st ps \<longleftrightarrow> (\<forall>p \<in> set ps. known_all st [p])"
  by (auto simp: known_all_def)

lemma fill_fold:
  "snd (fold (fill_empty_one pv now) ps sn) = (snd sn \<or> \<not> known_all (fst sn) ps)"
  "known_all (fst (fold (fill_empty_one pv now) ps sn)) [q] = (known_all (fst sn) [q] \<or> q \<in> set ps)"
  "conn_version (fst (fold (fill_empty_one pv now) ps sn)) q = conn_version (fst sn) q"
  "sri_version (fst (fold (fill_empty_one pv now) ps sn)) = sri_version (fst sn)"
  "known_all (fst sn) ps \<Longrightarrow> fold (fill_empty_one pv now) ps sn = sn"
proof (induction ps arbitrary: sn)
  case (Cons p ps)
  note one = fill_one [where pv = pv and now = now and p = p]
  have "known_all (fst (fill_empty_one pv now p sn)) ps \<longleftrightarrow> (\<forall>q \<in> set ps. known_all (fst sn) [q] \<or> q = p)"
    for sn :: "'a SyncedRouteInfo \<times> bool"
    unfolding known_all_iff [of _ ps] one(2) ..
  then have rest: "known_all (fst sn) [p] \<Longrightarrow>
      known_all (fst (fill_empty_one pv now p sn)) ps = known_all (fst sn) ps"
    for sn :: "'a SyncedRouteInfo \<times> bool"
    unfolding known_all_iff [of "fst sn" ps] by blast
  {
    case (1 sn)
    show ?case using Cons.IH(1) [of "fill_empty_one pv now p sn"] one(1) [of sn] rest [of sn]
      unfolding known_all_Cons [of _ p ps] by auto
  next
    case (2 sn)
    show ?case using Cons.IH(2) [of "fill_empty_one pv now p sn"] one(2) [of sn] by auto
  next
    case (3 sn)
    show ?case using Cons.IH(3) [of "fill_empty_one pv now p sn"] one(3) [of sn] by simp
  next
    case (4 sn)
    show ?case using Cons.IH(4) [of "fill_empty_one pv now p sn"] one(4) [of sn] by simp
  next
    case (5 sn)
    then show ?case using Cons.IH(5) [of sn] one(5) [of sn] by (simp add: known_all_Cons [of _ p ps])
  }
qed (simp_all add: known_all_def)

lemma fill_known: "known_all st ps \<Longrightarrow> fill_empty_peer_info pv now ps st = Inr st"
  using fill_fold(5) [of "(st, False)" ps pv now] by (simp add: fill_empty_peer_info_def)

lemma fill_outcome:
  "fill_empty_peer_info pv now ps st =
     (if known_all st ps then Inr (filled pv now ps st) else sri_inc_version (filled pv now ps st))"
  using fill_fold(1) [where ps = ps and sn = "(st, False)"]
  by (simp add: fill_empty_peer_info_def filled_def split_beta Let_def)

lemma filled_facts:
  "known_all (filled pv now ps st) ps" "conn_version (filled pv now ps st) q = conn_version st q"
  "sri_version (filled pv now ps st) = sri_version st"
  unfolding filled_def known_all_iff [of _ ps] fill_fold(2,3,4) by simp_all

lemma merge_conn_known:
  assumes "known_all st [p]"
  shows "snd (merge_conn p c v (st, need)) = (need \<or> conn_version st p < v)"
    and "conn_version (fst (merge_conn p c v (st, need))) q =
      (if q = p then max (conn_version st p) v else conn_version st q)"
    and "known_all st ps \<Longrightarrow> known_all (fst (merge_conn p c v (st, need))) ps"
    and "sri_version (fst (merge_conn p c v (st, need))) = sri_version st"
  using assms
  by (auto simp: merge_conn_def known_all_def conn_version_def dm_contains_def dm_merge.lookup_merge max_def
      split: option.splits if_splits)

text \<open>Whether a bitmap, with its listed versions, says something new about some listed peer.\<close>

definition newer_conn :: "(PeerId \<times> Version) list \<Rightarrow> 'raw SyncedRouteInfo \<Rightarrow> bool" where
  "newer_conn ps st \<longleftrightarrow> list_ex (\<lambda>(p, v). conn_version st p < v) ps"

lemma newer_conn_iff: "newer_conn ps st \<longleftrightarrow> (\<exists>p v. (p, v) \<in> set ps \<and> conn_version st p < v)"
  by (auto simp: newer_conn_def list_ex_iff)

lemma newer_conn_Cons:
  assumes "known_all st [p]"
  shows "(snd (merge_conn p c v (st, need)) \<or> newer_conn ps (fst (merge_conn p c v (st, need)))) =
    (need \<or> newer_conn ((p, v) # ps) st)"
proof -
  have new: "newer_conn ps (fst (merge_conn p c v (st, need))) \<longleftrightarrow>
      (\<exists>q w. (q, w) \<in> set ps \<and> (if q = p then max (conn_version st p) v else conn_version st q) < w)"
    by (simp add: newer_conn_iff merge_conn_known(2) [OF assms])
  have "conn_version st p < v \<or> newer_conn ps (fst (merge_conn p c v (st, need))) \<longleftrightarrow>
      conn_version st p < v \<or> newer_conn ps st"
  proof (cases "conn_version st p < v")
    case False
    then have "max (conn_version st p) v = conn_version st p" by simp
    then show ?thesis unfolding new newer_conn_iff [of ps st] by (auto split: if_splits)
  qed simp
  then show ?thesis
    unfolding merge_conn_known(1) [OF assms] by (auto simp: newer_conn_def)
qed

lemma update_conn_map_loop_outcome:
  assumes "known_all st (map fst (rcb_peer_ids bm))" "set ps \<subseteq> set (rcb_peer_ids bm)"
  shows "if ps \<noteq> [] \<and> 8 * length (rcb_bitmap bm) < (row + length ps) * length (rcb_peer_ids bm)
    then update_conn_map_loop pv now bm row ps (st, need) = Inl IndexOutOfRange
    else \<exists>st'. update_conn_map_loop pv now bm row ps (st, need) = Inr (st', need \<or> newer_conn ps st) \<and>
      sri_version st' = sri_version st"
  using assms
proof (induction ps arbitrary: row st need)
  case Nil
  then show ?case by (simp add: newer_conn_def)
next
  case (Cons e ps)
  obtain p v where e: "e = (p, v)" by force
  let ?n = "length (rcb_peer_ids bm)" and ?l = "8 * length (rcb_bitmap bm)"
  have ne: "rcb_peer_ids bm \<noteq> []" using Cons.prems(2) by auto
  show ?case
  proof (cases "bitmap_connected_peers bm row")
    case (Inl e')
    then have e': "e' = IndexOutOfRange" "?l < (row + 1) * ?n"
      using bitmap_connected_peers_panic [of bm row e'] by auto
    have "(row + 1) * ?n \<le> (row + length (e # ps)) * ?n" by (rule mult_le_mono1) simp
    with e'(2) have "?l < (row + length (e # ps)) * ?n" by (rule less_le_trans)
    with e'(1) Inl show ?thesis by (simp add: e)
  next
    case (Inr c)
    have room: "\<not> ?l < (row + 1) * ?n"
      using bitmap_connected_peers_panic [of bm row IndexOutOfRange] Inr ne by auto
    have "known_all st c"
      using Cons.prems(1) connected_peers_listed [OF Inr] unfolding known_all_def by blast
    note fill = fill_known [OF this, of pv now]
    have p: "known_all st [p]" using Cons.prems by (force simp: e known_all_def)
    let ?m = "merge_conn p c v (st, need)"
    note m = merge_conn_known [OF p, where c = c and v = v and need = need]
    have run: "update_conn_map_loop pv now bm row (e # ps) (st, need) =
        update_conn_map_loop pv now bm (row + 1) ps (fst ?m, snd ?m)"
      by (simp add: e Inr fill)
    have new: "(snd ?m \<or> newer_conn ps (fst ?m)) = (need \<or> newer_conn (e # ps) st)"
      unfolding e by (rule newer_conn_Cons [OF p])
    have "set ps \<subseteq> set (rcb_peer_ids bm)" using Cons.prems(2) by simp
    from Cons.IH [OF m(3) [OF Cons.prems(1)] this, of "row + 1" "snd ?m"] show ?thesis
      using room ne by (auto simp: run new m(4) split: if_splits)
  qed
qed

lemma update_conn_map_after_fill:
  fixes st1 :: "'raw SyncedRouteInfo"
  assumes "known_all st1 (map fst (rcb_peer_ids bm))"
  shows "rbind (update_conn_map_loop pv now bm 0 (rcb_peer_ids bm) (st1, False)) (\<lambda>(st', need_inc_version).
       if need_inc_version then sri_inc_version st' else Inr st') = Inl e \<longleftrightarrow>
     (if 8 * length (rcb_bitmap bm) < length (rcb_peer_ids bm) * length (rcb_peer_ids bm) then e = IndexOutOfRange
      else newer_conn (rcb_peer_ids bm) st1 \<and> 2 ^ 32 \<le> unat (sri_version st1) + 1 \<and> e = ArithOverflow)"
  using update_conn_map_loop_outcome [OF assms order_refl, where row = 0 and pv = pv and now = now and need = False]
  by (cases "rcb_peer_ids bm = []"; cases "newer_conn (rcb_peer_ids bm) st1")
    (auto simp: sri_inc_version_Inl not_less split: if_splits)

lemma update_conn_map_outcome:
  "update_conn_map pv now bm st = Inl e \<longleftrightarrow>
     (let n = length (rcb_peer_ids bm);
          fills = (if known_all st (map fst (rcb_peer_ids bm)) then 0 else 1);
          merges = (if newer_conn (rcb_peer_ids bm) st then 1 else 0)
      in if 2 ^ 32 \<le> unat (sri_version st) + fills then e = ArithOverflow
         else if 8 * length (rcb_bitmap bm) < n * n then e = IndexOutOfRange
         else 2 ^ 32 \<le> unat (sri_version st) + fills + merges \<and> e = ArithOverflow)"
proof -
  let ?ids = "btree_set (map fst (rcb_peer_ids bm))"
  let ?f = "filled pv now ?ids st"
  have ids: "known_all x ?ids = known_all x (map fst (rcb_peer_ids bm))" for x :: "'a SyncedRouteInfo"
    by (simp add: known_all_def)
  have known: "known_all ?f (map fst (rcb_peer_ids bm))" using filled_facts(1) [of pv now ?ids st] ids by simp
  have newer: "newer_conn ps ?f = newer_conn ps st" for ps by (simp add: newer_conn_def filled_facts(2))
  have bump: "known_all (bumped x) ps = known_all x ps" "newer_conn qs (bumped x) = newer_conn qs x"
    for x :: "'a SyncedRouteInfo" and ps qs by (simp_all add: known_all_def newer_conn_def conn_version_def)
  have small: "unat (sri_version st) < 2 ^ 32" using unsigned_less [where ?'a = nat and w = "sri_version st"] by simp
  show ?thesis
  proof (cases "known_all st (map fst (rcb_peer_ids bm))")
    case True
    then show ?thesis
      using update_conn_map_after_fill [OF known, of pv now e] small
      by (auto simp: update_conn_map_def fill_outcome ids newer filled_facts(3) Let_def)
  next
    case False
    show ?thesis
    proof (cases "2 ^ 32 \<le> unat (sri_version st) + 1")
      case True
      then have "sri_inc_version ?f = Inl ArithOverflow" by (simp add: sri_inc_version_Inl filled_facts(3) not_less)
      with True False show ?thesis by (auto simp: update_conn_map_def fill_outcome ids Let_def)
    next
      case False': False
      then have inc: "sri_inc_version ?f = Inr (bumped ?f)" by (simp add: sri_inc_version_Inr filled_facts(3))
      have ver: "unat (sri_version st + 1) = unat (sri_version st) + 1"
        using False' unat_add_lem [of "sri_version st" 1] by simp
      from False False' inc show ?thesis
        using update_conn_map_after_fill [of "bumped ?f" bm pv now e] known
        by (auto simp: update_conn_map_def fill_outcome ids newer bump ver filled_facts(3) Let_def)
    qed
  qed
qed

section \<open>Properties\<close>

text \<open>
  C22. The bitmap a node sends decodes at the receiver, row by row and without a panic, to exactly
  the peers each listed peer is connected to, restricted to the listed peers.
\<close>

theorem conn_bitmap_roundtrip:
  "\<exists>bm. encode_conn_bitmap conn_map ids = Inr bm \<and> rcb_peer_ids bm = ids \<and>
     (\<forall>r < length ids. bitmap_connected_peers bm r =
        Inr (btree_set (filter (connects conn_map (fst (ids ! r))) (map fst ids))))"
proof -
  let ?n = "length ids"
  let ?z = "replicate ((?n * ?n + 7) div 8) (0 :: byte)"
  have room: "(0 + length ids) * length ids \<le> 8 * length ?z" by simp
  obtain bits where enc: "encode_rows conn_map ids 0 ids ?z = Inr bits" and len: "length bits = length ?z"
    and bit: "\<forall>j < 8 * length ?z. bit_at bits j \<longleftrightarrow> bit_at ?z j \<or>
       (\<exists>r < ?n. \<exists>i < ?n. connects conn_map (fst (ids ! r)) (fst (ids ! i)) \<and> j = (0 + r) * ?n + i)"
    using encode_rows_ok [OF room] by blast
  have zero: "\<not> bit_at ?z j" if "j < 8 * length ?z" for j
  proof -
    have "j div 8 < length ?z" using that by auto
    then show ?thesis by (simp add: bit_at_def)
  qed
  let ?bm = "\<lparr>rcb_peer_ids = ids, rcb_bitmap = bits\<rparr>"
  have row: "bitmap_connected_peers ?bm r =
      Inr (btree_set (filter (connects conn_map (fst (ids ! r))) (map fst ids)))" if r: "r < ?n" for r
  proof -
    have inside: "r * ?n + ?n \<le> ?n * ?n"
      using mult_le_mono1 [of "Suc r" ?n ?n] r by simp
    have cell: "bit_at bits (r * ?n + i) \<longleftrightarrow> connects conn_map (fst (ids ! r)) (fst (ids ! i))"
      if "i < ?n" for i
    proof -
      have "r * ?n + i < 8 * length ?z" using inside room that by simp
      then have "bit_at bits (r * ?n + i) \<longleftrightarrow>
          (\<exists>r' < ?n. \<exists>i' < ?n. connects conn_map (fst (ids ! r')) (fst (ids ! i')) \<and> r * ?n + i = (0 + r') * ?n + i')"
        using bit zero by blast
      then show ?thesis using r that row_col_unique [of i ?n _ r] by auto
    qed
    have "connected_peers_from ?bm r 0 ids =
        Inr (map (\<lambda>i. fst (ids ! i)) (filter (\<lambda>i. bit_at bits (r * ?n + i)) [0..<?n]))"
      using connected_peers_from_ok [of r ?bm 0 ids] inside room len by simp
    also have "filter (\<lambda>i. bit_at bits (r * ?n + i)) [0..<?n] =
        filter (\<lambda>i. connects conn_map (fst (ids ! r)) (fst (ids ! i))) [0..<?n]"
      by (rule filter_cong) (simp_all add: cell)
    also have "map (\<lambda>i. fst (ids ! i)) \<dots> = filter (connects conn_map (fst (ids ! r))) (map fst ids)"
    proof -
      have "map fst ids = map (\<lambda>i. fst (ids ! i)) [0..<?n]" by (rule nth_equalityI) simp_all
      then show ?thesis by (simp add: filter_map o_def)
    qed
    finally show ?thesis by (simp add: bitmap_connected_peers_def)
  qed
  have "encode_conn_bitmap conn_map ids = Inr ?bm"
    using enc by (simp add: encode_conn_bitmap_def Let_def)
  with row show ?thesis by (intro exI [of _ ?bm]) simp
qed

theorem conn_bitmap_roundtrip_witness:
  "\<exists>bm. encode_conn_bitmap [(1, [2], 4), (2, [1, 3], 5)] [(1, 4), (2, 5)] = Inr bm \<and>
     rcb_peer_ids bm = [(1, 4), (2, 5)] \<and>
     (\<forall>r < length [(1 :: PeerId, 4 :: Version), (2, 5)]. bitmap_connected_peers bm r =
        Inr (btree_set (filter (connects [(1, [2], 4 :: Version), (2, [1, 3], 5)]
          (fst ([(1 :: PeerId, 4 :: Version), (2, 5)] ! r))) (map fst [(1 :: PeerId, 4 :: Version), (2, 5)]))))"
  by (rule conn_bitmap_roundtrip)


end
