(* ===== verification/OspfVersions.thy ===== *)
theory OspfVersions
  imports OspfSynced
begin

text \<open>
  How the store's version counters relate to its contents
  (\<open>SyncedRouteInfo\<close> in \<open>src/app/src/peers/peer_ospf_route.rs\<close>): the table version that makes the route
  table be rebuilt, and the versions of the node's own foreign network entries.
\<close>

section \<open>The table version follows the peer table\<close>

definition advanced :: "(PeerId, RoutePeerInfo) dmap \<Rightarrow> (PeerId, RoutePeerInfo) dmap \<Rightarrow> bool" where
  "advanced m m' \<longleftrightarrow>
     (\<exists>p i'. dm_get m' p = Some i' \<and> (\<forall>i. dm_get m p = Some i \<longrightarrow> rpi_version i < rpi_version i'))"

lemma advanced_neq: "advanced m m' \<Longrightarrow> m \<noteq> m'"
  by (auto simp: advanced_def)

lemma dm_insert_same: "dm_get m k = Some v \<Longrightarrow> dm_insert k v m = m"
  by (induction m) (auto simp: dm_get_def dm_insert_def split: if_splits)

lemma advanced_merge_infos:
  assumes "advanced m m1"
  shows "advanced m (merge_infos now infos m1)"
proof -
  obtain p i' where p: "dm_get m1 p = Some i'" "\<forall>i. dm_get m p = Some i \<longrightarrow> rpi_version i < rpi_version i'"
    using assms by (auto simp: advanced_def)
  obtain w where "dm_get (merge_infos now infos m1) p = Some w" "rpi_version i' \<le> rpi_version w"
    unfolding merge_infos_def using dm_merge.fold_merge_version_mono [OF p(1)] by blast
  with p(2) show ?thesis unfolding advanced_def by (meson less_le_trans)
qed

lemma merge_peer_info_flag:
  "snd (merge_peer_info now i r sn) \<longleftrightarrow> snd sn \<or> advanced (sri_peer_infos (fst sn))
     (sri_peer_infos (fst (merge_peer_info now i r sn)))"
  (is "?l \<longleftrightarrow> ?r")
proof
  assume ?l
  then show ?r
    by (auto simp: merge_peer_info_def split_beta Let_def advanced_def dm_merge.lookup_merge
        split: option.splits intro!: exI [of _ "rpi_peer_id i"])
next
  assume ?r
  then show ?l
    by (auto simp: merge_peer_info_def split_beta Let_def advanced_def dm_merge.lookup_merge
        split: option.splits if_splits)
qed

lemma merge_peer_info_quiet:
  "\<not> snd (merge_peer_info now i r sn) \<Longrightarrow>
     sri_peer_infos (fst (merge_peer_info now i r sn)) = sri_peer_infos (fst sn)"
  by (auto simp: merge_peer_info_def split_beta Let_def dm_merge_newer_def dm_upsert_def dm_insert_same
      split: option.splits)

lemma update_peer_infos_loop_flag:
  "update_peer_infos_loop raw_pid now my_id my_route dst infos raws sn = Inr (sn', None) \<Longrightarrow>
     (\<not> snd sn \<longrightarrow> \<not> snd sn' \<longrightarrow> sri_peer_infos (fst sn') = sri_peer_infos (fst sn)) \<and>
     (\<not> snd sn \<longrightarrow> snd sn' \<longrightarrow> advanced (sri_peer_infos (fst sn)) (sri_peer_infos (fst sn'))) \<and>
     (snd sn \<longrightarrow> snd sn') \<and> sri_version (fst sn') = sri_version (fst sn)"
proof (induction infos arbitrary: raws sn)
  case Nil
  then show ?case by simp
next
  case (Cons i infos)
  then obtain r rs where raws: "raws = r # rs" by (cases raws) auto
  let ?m = "merge_peer_info now i r sn"
  have run: "update_peer_infos_loop raw_pid now my_id my_route dst infos rs ?m = Inr (sn', None)"
    using Cons.prems by (auto simp: raws rust_Inr split: option.splits if_splits)
  have merged: "sri_peer_infos (fst sn') = merge_infos now infos (sri_peer_infos (fst ?m))"
    using update_peer_infos_loop_prefix [OF run] by blast
  show ?case
  proof (cases "snd ?m")
    case True
    then have "snd sn \<or> advanced (sri_peer_infos (fst sn)) (sri_peer_infos (fst sn'))"
      using merge_peer_info_flag [of now i r sn] advanced_merge_infos merged by metis
    with True Cons.IH [OF run] show ?thesis by (auto simp: merge_peer_info_frame)
  next
    case False
    have "\<not> snd sn" using False merge_peer_info_flag [of now i r sn] by blast
    moreover have "sri_peer_infos (fst ?m) = sri_peer_infos (fst sn)"
      using merge_peer_info_quiet [OF False] .
    ultimately show ?thesis using False Cons.IH [OF run] by (simp add: merge_peer_info_frame)
  qed
qed

text \<open>
  A successful \<open>update_peer_infos\<close> advances the table version by one if it changed the peer
  table and leaves it alone otherwise, so a rebuild of the route table is neither missed nor
  triggered without cause.
\<close>

theorem update_peer_infos_version:
  assumes "update_peer_infos raw_pid now my_id my_route dst infos raws st = Inr (st', None)"
  shows "sri_version st' =
    (if sri_peer_infos st' = sri_peer_infos st then sri_version st else sri_version st + 1)"
proof -
  obtain sn where run: "update_peer_infos_loop raw_pid now my_id my_route dst infos raws (st, False) = Inr (sn, None)"
    and st': "st' = (if snd sn then bumped (fst sn) else fst sn)"
    using assms by (auto simp: update_peer_infos_def rust_Inr split: option.splits if_splits)
  from update_peer_infos_loop_flag [OF run] advanced_neq st' show ?thesis
    by (cases "snd sn") force+
qed

theorem update_peer_infos_version_witness:
  "\<exists>st'. update_peer_infos id 5 1 0 2 [example_info 7 1] [7] synced_route_info_new = Inr (st', None) \<and>
     sri_version st' = (if sri_peer_infos st' = [] then 0 else 0 + 1)"
proof -
  have "\<exists>s. update_peer_infos id 5 1 0 2 [example_info 7 1] [7] synced_route_info_new = Inr (s, None)"
    by (rule rust_ok_exists) code_simp
  then obtain st' where run:
    "update_peer_infos id 5 1 0 2 [example_info 7 1] [7] synced_route_info_new = Inr (st', None)" by blast
  have "sri_peer_infos (synced_route_info_new :: PeerId SyncedRouteInfo) = []"
    "sri_version (synced_route_info_new :: PeerId SyncedRouteInfo) = 0"
    by (simp_all add: synced_route_info_new_def)
  with run update_peer_infos_version [OF run] show ?thesis by auto
qed

lemma update_peer_infos_loop_version:
  "update_peer_infos_loop raw_pid now my_id my_route dst infos raws sn = Inr (sn', err) \<Longrightarrow>
     sri_version (fst sn') = sri_version (fst sn)"
  by (induction raw_pid now my_id my_route dst infos raws sn rule: update_peer_infos_loop.induct)
    (auto simp: rust_Inr merge_peer_info_frame split: option.splits if_splits)

text \<open>
  The error path does not keep that relation: when the list is refused with \<open>DuplicatePeerId\<close>
  the table version stays as it was, although the infos before the refused one are merged.
  A list of two infos whose second is refused changes the peer table in this way.
\<close>

theorem duplicate_error_keeps_version:
  assumes "update_peer_infos raw_pid now my_id my_route dst infos raws st = Inr (st', Some e)"
  shows "sri_version st' = sri_version st \<and>
    (\<exists>pre. sri_peer_infos st' = merge_infos now pre (sri_peer_infos st) \<and> set pre \<subseteq> set infos)"
proof -
  obtain sn where run: "update_peer_infos_loop raw_pid now my_id my_route dst infos raws (st, False) = Inr (sn, Some e)"
    and st': "st' = fst sn"
    using assms by (auto simp: update_peer_infos_def rust_Inr split: option.splits if_splits)
  from update_peer_infos_loop_version [OF run] update_peer_infos_prefix [OF assms] st'
  show ?thesis by auto
qed

definition example_dup_store :: "PeerId SyncedRouteInfo" where
  "example_dup_store = synced_route_info_new\<lparr>sri_peer_infos := [(2, (example_info 2 9)\<lparr>rpi_peer_route_id := 11\<rparr>)]\<rparr>"

definition example_dup_run :: "(PeerId SyncedRouteInfo \<times> SyncRouteInfoError option) rust" where
  "example_dup_run = update_peer_infos id 5 1 0 2
     [example_info 7 1, (example_info 2 3)\<lparr>rpi_peer_route_id := 12\<rparr>] [7, 2] example_dup_store"

lemma rust_err_exists:
  "(case x of Inl e \<Rightarrow> False | Inr (s, err) \<Rightarrow> err = Some d \<and> P s) \<Longrightarrow> \<exists>s. x = Inr (s, Some d) \<and> P s"
  by (auto split: sum.splits)

theorem duplicate_error_keeps_version_witness:
  "\<exists>st'. example_dup_run = Inr (st', Some DuplicatePeerId) \<and>
     length (sri_peer_infos st') = 2 \<and> length (sri_peer_infos example_dup_store) = 1 \<and>
     sri_version st' = sri_version example_dup_store"
proof -
  have "\<exists>s. example_dup_run = Inr (s, Some DuplicatePeerId) \<and> length (sri_peer_infos s) = 2"
    by (rule rust_err_exists) code_simp
  then obtain s where s: "example_dup_run = Inr (s, Some DuplicatePeerId)" "length (sri_peer_infos s) = 2"
    by blast
  have "length (sri_peer_infos example_dup_store) = 1" by code_simp
  with s duplicate_error_keeps_version [OF s(1) [unfolded example_dup_run_def]] show ?thesis by blast
qed

section \<open>The node's own foreign network entries\<close>

text \<open>The version of a renewed entry does not depend on the version it replaces.\<close>

lemma renew_version_ignores_stored:
  assumes "fnk_peer_id key = my_id" "dm_get fns key = Some new_entry"
    and "renew_my_foreign now nv my_id (key, entry) (fns, u) = Inr ((key, e'), acc)" "e' \<noteq> entry"
  shows "fne_version e' = max (fne_version new_entry + 1) nv"
  using assms
  by (auto simp: renew_my_foreign_def Let_def rust_Inr checked_add_def split: if_splits option.splits)

lemma renew_my_foreign_expired:
  assumes "fnk_peer_id key = my_id" "dm_get fns key = Some new_entry" "fne_foreign_peer_ids new_entry \<noteq> []"
    and "fne_last_update new_entry = Some t" "fne_last_update entry = Some t" "fne_version new_entry = 0"
    and "now - t > UPDATE_PEER_INFO_PERIOD"
  shows "renew_my_foreign now nv my_id (key, entry) (fns, u) =
    Inr ((key, new_entry\<lparr>fne_version := max 1 nv\<rparr>), dm_remove key fns, True)"
  using assms by (simp add: renew_my_foreign_def is_foreign_network_info_newer_def checked_add_def)

text \<open>
  Renewal of an unchanged foreign network does not refresh its time stamp. Once an entry is older
  than the update period it is issued with a new version at every later poll, not once per period.
\<close>

theorem foreign_network_renewed_every_poll:
  assumes "fnk_peer_id key = my_id" "dm_get fns key = Some new_entry" "fne_foreign_peer_ids new_entry \<noteq> []"
    and "fne_last_update new_entry = Some t" "fne_last_update entry = Some t" "fne_version new_entry = 0"
    and "now - t > UPDATE_PEER_INFO_PERIOD" "now \<le> now'"
  shows "\<exists>e'. renew_my_foreign now nv my_id (key, entry) (fns, u) = Inr ((key, e'), dm_remove key fns, True) \<and>
    fne_last_update e' = Some t \<and>
    renew_my_foreign now' nv' my_id (key, e') (fns, u) =
      Inr ((key, new_entry\<lparr>fne_version := max 1 nv'\<rparr>), dm_remove key fns, True)"
proof -
  let ?e = "new_entry\<lparr>fne_version := max 1 nv\<rparr>"
  have "renew_my_foreign now' nv' my_id (key, ?e) (fns, u) =
      Inr ((key, new_entry\<lparr>fne_version := max 1 nv'\<rparr>), dm_remove key fns, True)"
    by (rule renew_my_foreign_expired [where t = t]) (use assms in simp_all)
  with renew_my_foreign_expired [OF assms(1-7)] assms(4) show ?thesis by simp
qed

definition example_fn_key :: ForeignNetworkRouteInfoKey where
  "example_fn_key = \<lparr>fnk_peer_id = 1, fnk_network_name = ''net''\<rparr>"

definition example_fn_entry :: ForeignNetworkRouteInfoEntry where
  "example_fn_entry = \<lparr>fne_foreign_peer_ids = [4], fne_last_update = Some 0, fne_version = 0,
     fne_network_secret_digest = [], fne_my_peer_id_for_this_network = 9\<rparr>"

theorem foreign_network_renewed_every_poll_witness:
  "\<exists>e'. renew_my_foreign (secs 3601) 3601 1 (example_fn_key, example_fn_entry) ([(example_fn_key, example_fn_entry)], False)
      = Inr ((example_fn_key, e'), dm_remove example_fn_key [(example_fn_key, example_fn_entry)], True) \<and>
    fne_last_update e' = Some 0 \<and>
    renew_my_foreign (secs 3611) 3611 1 (example_fn_key, e') ([(example_fn_key, example_fn_entry)], False) =
      Inr ((example_fn_key, example_fn_entry\<lparr>fne_version := max 1 3611\<rparr>),
           dm_remove example_fn_key [(example_fn_key, example_fn_entry)], True)"
  by (rule foreign_network_renewed_every_poll)
    (simp_all add: example_fn_key_def example_fn_entry_def dm_get_def UPDATE_PEER_INFO_PERIOD_def secs_def)

end
