(* ===== verification/GraphAlgo.thy ===== *)
theory GraphAlgo
  imports Prelude
begin

text \<open>
  Shortest paths with first hops (\<open>src/app/src/peers/graph_algo.rs\<close>).

  A directed graph is its list of weighted edges. \<open>dijkstra_with_first_hop\<close> keeps the visited set,
  the tentative scores, the first hop and hop count of the best path found so far, and a binary
  heap ordered by \<open>MinScored\<close>. The heap is the list of its entries; \<open>heap_pop\<close> takes an entry that
  is greatest in the reversed order of \<open>MinScored\<close>, that is, one of least score. The proofs use
  only that the entry has least score, so they do not depend on how ties are broken.
\<close>

section \<open>The heap order\<close>

datatype ordering = Less | Equal | Greater

text \<open>\<open>MinScored::cmp\<close> on a score type without incomparable values.\<close>

definition min_scored_cmp :: "nat \<Rightarrow> nat \<Rightarrow> ordering" where
  "min_scored_cmp a b = (if a = b then Equal else if a < b then Greater else Less)"

type_synonym 'n heap = "(nat \<times> 'n) list"

definition heap_push :: "nat \<times> 'n \<Rightarrow> 'n heap \<Rightarrow> 'n heap" where
  "heap_push x h = h @ [x]"

fun heap_greatest :: "nat \<times> 'n \<Rightarrow> 'n heap \<Rightarrow> nat \<times> 'n" where
  "heap_greatest m [] = m"
| "heap_greatest m (x # h) =
     heap_greatest (if min_scored_cmp (fst x) (fst m) = Greater then x else m) h"

definition heap_pop :: "'n heap \<Rightarrow> ((nat \<times> 'n) \<times> 'n heap) option" where
  "heap_pop h =
     (case h of [] \<Rightarrow> None
      | x # xs \<Rightarrow> let m = heap_greatest x xs in Some (m, remove1 m h))"

section \<open>The heap interface\<close>

locale min_heap =
  fixes pop :: "'q \<Rightarrow> ((nat \<times> 'n) \<times> 'q) option"
    and push :: "nat \<times> 'n \<Rightarrow> 'q \<Rightarrow> 'q"
    and entries :: "'q \<Rightarrow> (nat \<times> 'n) set"
  assumes pop_None: "pop h = None \<longleftrightarrow> entries h = {}"
    and pop_entry: "pop h = Some (x, h') \<Longrightarrow> x \<in> entries h"
    and pop_least: "pop h = Some (x, h') \<Longrightarrow> y \<in> entries h \<Longrightarrow> fst x \<le> fst y"
    and pop_rest: "pop h = Some (x, h') \<Longrightarrow> entries h - {x} \<subseteq> entries h' \<and> entries h' \<subseteq> entries h"
    and push_entries: "entries (push x h) = insert x (entries h)"
begin

text \<open>
  If every pending node is present with its current score and no entry is below the current score
  of its node, the entry popped for a pending node carries exactly its score.
\<close>

lemma popped_score_exact:
  assumes pop: "pop h = Some ((d, u), h')"
    and present: "\<And>c. score u = Some c \<Longrightarrow> (c, u) \<in> entries h"
    and above: "\<And>e v. (e, v) \<in> entries h \<Longrightarrow> \<exists>c. score v = Some c \<and> c \<le> e"
  shows "score u = Some d"
proof -
  obtain c where c: "score u = Some c" "c \<le> d"
    using above [OF pop_entry [OF pop]] by blast
  have "d \<le> c" using pop_least [OF pop present [OF c(1)]] by simp
  with c show ?thesis by simp
qed

end

lemma heap_greatest_in: "heap_greatest m h \<in> insert m (set h)"
  by (induction m h rule: heap_greatest.induct) (auto split: if_splits)

lemma heap_greatest_least: "y \<in> insert m (set h) \<Longrightarrow> fst (heap_greatest m h) \<le> fst y"
proof (induction m h arbitrary: y rule: heap_greatest.induct)
  case (1 m)
  then show ?case by simp
next
  case (2 m x h)
  let ?m = "if min_scored_cmp (fst x) (fst m) = Greater then x else m"
  have le: "fst ?m \<le> fst x" "fst ?m \<le> fst m"
    by (auto simp: min_scored_cmp_def)
  have IH: "z \<in> insert ?m (set h) \<Longrightarrow> fst (heap_greatest ?m h) \<le> fst z" for z
    by (rule "2.IH")
  from "2.prems" consider "y = m" | "y = x" | "y \<in> set h" by auto
  then have "fst (heap_greatest ?m h) \<le> fst y"
  proof cases
    case 1
    then show ?thesis using IH [of ?m] le(2) by (auto intro: order_trans)
  next
    case 2
    then show ?thesis using IH [of ?m] le(1) by (auto intro: order_trans)
  next
    case 3
    then show ?thesis using IH by blast
  qed
  then show ?case by simp
qed

lemma heap_pop_SomeD:
  assumes "heap_pop h = Some (x, h')"
  shows "x \<in> set h" "h' = remove1 x h" "\<And>y. y \<in> set h \<Longrightarrow> fst x \<le> fst y"
proof -
  obtain z zs where h: "h = z # zs" and x: "x = heap_greatest z zs" and h': "h' = remove1 x h"
    using assms by (cases h) (auto simp: heap_pop_def Let_def)
  show "x \<in> set h" using heap_greatest_in [of z zs] by (simp add: h x)
  show "h' = remove1 x h" by (rule h')
  show "\<And>y. y \<in> set h \<Longrightarrow> fst x \<le> fst y"
    using heap_greatest_least [of _ z zs] by (simp add: h x)
qed

lemma heap_pop_None: "heap_pop h = None \<longleftrightarrow> h = []"
  by (simp add: heap_pop_def Let_def split: list.split)

interpretation hp: min_heap heap_pop heap_push set
proof
  fix h h' :: "(nat \<times> 'a) list" and x y
  show "heap_pop h = None \<longleftrightarrow> set h = {}"
    by (simp add: heap_pop_None)
  show "heap_pop h = Some (x, h') \<Longrightarrow> x \<in> set h"
    by (rule heap_pop_SomeD(1))
  show "heap_pop h = Some (x, h') \<Longrightarrow> y \<in> set h \<Longrightarrow> fst x \<le> fst y"
    by (rule heap_pop_SomeD(3))
  show "heap_pop h = Some (x, h') \<Longrightarrow> set h - {x} \<subseteq> set h' \<and> set h' \<subseteq> set h"
    using set_remove1_subset [of x h] in_set_remove1 [of _ x h]
    by (blast dest: heap_pop_SomeD(2))
  show "set (heap_push x h) = insert x (set h)"
    by (simp add: heap_push_def)
qed

lemma heap_pop_length: "heap_pop h = Some (x, h') \<Longrightarrow> length h = Suc (length h')"
  using heap_pop_SomeD(1,2) [of h x h'] length_pos_if_in_set [of x h]
  by (auto simp: length_remove1)

section \<open>The algorithm\<close>

type_synonym 'n wgraph = "('n \<times> 'n \<times> nat) list"

definition out_edges :: "'n wgraph \<Rightarrow> 'n \<Rightarrow> ('n \<times> nat) list" where
  "out_edges g u = map snd (filter (\<lambda>e. fst e = u) g)"

record 'n dij =
  visited :: "'n list"
  scores :: "('n, nat) dmap"
  first_hop :: "('n, 'n \<times> nat) dmap"
  visit_next :: "'n heap"

definition improve :: "'n \<Rightarrow> 'n \<Rightarrow> 'n \<Rightarrow> nat \<Rightarrow> 'n dij \<Rightarrow> 'n dij rust" where
  "improve start node nxt next_score st =
     rmap (\<lambda>hop. st\<lparr>scores := dm_insert nxt next_score (scores st),
                    visit_next := heap_push (next_score, nxt) (visit_next st),
                    first_hop := dm_insert nxt (fst hop, snd hop + 1) (first_hop st)\<rparr>)
       (if node = start then Inr (nxt, 0)
        else (case dm_get (first_hop st) node of Some h \<Rightarrow> Inr h | None \<Rightarrow> Inl IndexOutOfRange))"

definition relax_edge :: "'n \<Rightarrow> 'n \<Rightarrow> nat \<Rightarrow> 'n \<times> nat \<Rightarrow> 'n dij \<Rightarrow> 'n dij rust" where
  "relax_edge start node node_score e st =
     (let nxt = fst e
      in if nxt \<in> set (visited st) then Inr st
         else rbind (checked_add_usize node_score (snd e)) (\<lambda>next_score.
           case dm_get (scores st) nxt of
             Some old \<Rightarrow> if next_score < old then improve start node nxt next_score st else Inr st
           | None \<Rightarrow> improve start node nxt next_score st))"

fun relax_edges :: "'n \<Rightarrow> 'n \<Rightarrow> nat \<Rightarrow> ('n \<times> nat) list \<Rightarrow> 'n dij \<Rightarrow> 'n dij rust" where
  "relax_edges start node node_score [] st = Inr st"
| "relax_edges start node node_score (e # es) st =
     rbind (relax_edge start node node_score e st) (relax_edges start node node_score es)"

lemma relax_edge_visited: "relax_edge start node d e st = Inr st' \<Longrightarrow> visited st' = visited st"
  by (auto simp: relax_edge_def improve_def Let_def rmap_Inr_iff rbind_Inr_iff split: if_splits option.splits)

lemma relax_edges_visited: "relax_edges start node d es st = Inr st' \<Longrightarrow> visited st' = visited st"
  by (induction es arbitrary: st) (auto simp: rbind_Inr_iff dest: relax_edge_visited)

definition unvisited_sources :: "'n wgraph \<Rightarrow> 'n list \<Rightarrow> 'n set" where
  "unvisited_sources g vs = fst ` set g - set vs"

function dijkstra_loop :: "'n wgraph \<Rightarrow> 'n \<Rightarrow> 'n dij \<Rightarrow> 'n dij rust" where
  "dijkstra_loop g start st =
     (case heap_pop (visit_next st) of
        None \<Rightarrow> Inr st
      | Some ((node_score, node), rest) \<Rightarrow>
          if node \<in> set (visited st) then dijkstra_loop g start (st\<lparr>visit_next := rest\<rparr>)
          else (case relax_edges start node node_score (out_edges g node) (st\<lparr>visit_next := rest\<rparr>) of
                  Inl e \<Rightarrow> Inl e
                | Inr st' \<Rightarrow> dijkstra_loop g start (st'\<lparr>visited := node # visited st'\<rparr>)))"
  by pat_completeness auto
termination
proof (relation "measures [\<lambda>(g, start, st). card (unvisited_sources g (visited st)),
    \<lambda>(g, start, st). length (visit_next st)]", goal_cases)
  case 1
  show ?case by simp
next
  case (2 g start st x e rest d u)
  then show ?case by (auto dest: heap_pop_length)
next
  case (3 g start st x e rest d u st')
  have pop: "heap_pop (visit_next st) = Some ((d, u), rest)" using 3 by simp
  have vis: "visited st' = visited st" using 3 relax_edges_visited by fastforce
  show ?case
  proof (cases "u \<in> fst ` set g")
    case True
    then have "unvisited_sources g (u # visited st) \<subset> unvisited_sources g (visited st)"
      using 3 by (auto simp: unvisited_sources_def)
    then have "card (unvisited_sources g (u # visited st)) < card (unvisited_sources g (visited st))"
      by (rule psubset_card_mono [rotated]) (simp add: unvisited_sources_def)
    then show ?thesis by (simp add: vis)
  next
    case False
    then have "out_edges g u = []" by (auto simp: out_edges_def filter_empty_conv)
    with 3 have "st' = st\<lparr>visit_next := rest\<rparr>" by simp
    moreover have "unvisited_sources g (u # visited st) = unvisited_sources g (visited st)"
      using False by (auto simp: unvisited_sources_def)
    ultimately show ?thesis using heap_pop_length [OF pop] by simp
  qed
qed

definition dijkstra_with_first_hop ::
  "'n wgraph \<Rightarrow> 'n \<Rightarrow> (('n, nat) dmap \<times> ('n, 'n \<times> nat) dmap) rust" where
  "dijkstra_with_first_hop g start =
     rmap (\<lambda>st. (scores st, first_hop st))
       (dijkstra_loop g start
          \<lparr>visited = [], scores = dm_insert start 0 [], first_hop = dm_insert start (start, 0) [],
           visit_next = heap_push (0, start) []\<rparr>)"

section \<open>Specification: walks\<close>

text \<open>
  \<open>walk g s c n v\<close>: some walk from \<open>s\<close> to \<open>v\<close> has cost \<open>c\<close> and \<open>n\<close> edges. \<open>fwalk g s h c n v\<close>:
  some walk with at least one edge, whose first edge enters \<open>h\<close>, has cost \<open>c\<close> and \<open>n\<close> edges.
\<close>

inductive walk :: "'n wgraph \<Rightarrow> 'n \<Rightarrow> nat \<Rightarrow> nat \<Rightarrow> 'n \<Rightarrow> bool" for g s where
  walk_nil: "walk g s 0 0 s"
| walk_snoc: "walk g s c n u \<Longrightarrow> (u, v, w) \<in> set g \<Longrightarrow> walk g s (c + w) (Suc n) v"

inductive fwalk :: "'n wgraph \<Rightarrow> 'n \<Rightarrow> 'n \<Rightarrow> nat \<Rightarrow> nat \<Rightarrow> 'n \<Rightarrow> bool" for g s h where
  fwalk_one: "(s, h, w) \<in> set g \<Longrightarrow> fwalk g s h w 1 h"
| fwalk_snoc: "fwalk g s h c n u \<Longrightarrow> (u, v, w) \<in> set g \<Longrightarrow> fwalk g s h (c + w) (Suc n) v"

lemma fwalk_walk: "fwalk g s h c n v \<Longrightarrow> walk g s c n v"
proof (induction rule: fwalk.induct)
  case (fwalk_one w)
  then show ?case using walk_snoc [OF walk_nil, of s h w g] by simp
qed (rule walk_snoc)

lemma walk_fwalk: "walk g s c n v \<Longrightarrow> n = 0 \<and> c = 0 \<and> v = s \<or> (\<exists>h. fwalk g s h c n v)"
proof (induction rule: walk.induct)
  case (walk_snoc c n u v w)
  then show ?case using fwalk_one [of s v w g] by (auto intro: fwalk_snoc)
qed simp

definition shortest :: "'n wgraph \<Rightarrow> 'n \<Rightarrow> 'n \<Rightarrow> nat \<Rightarrow> bool" where
  "shortest g s v d \<longleftrightarrow> (\<exists>n. walk g s d n v) \<and> (\<forall>c n. walk g s c n v \<longrightarrow> d \<le> c)"

lemma shortest_unique: "shortest g s v d \<Longrightarrow> shortest g s v d' \<Longrightarrow> d = d'"
  unfolding shortest_def by (meson le_antisym)

lemma shortest_exists: "walk g s c n v \<Longrightarrow> \<exists>d. shortest g s v d"
proof -
  assume w: "walk g s c n v"
  let ?P = "\<lambda>c. \<exists>n. walk g s c n v"
  have "?P (Least ?P)" using w by (intro LeastI [of ?P c]) blast
  moreover have "Least ?P \<le> c'" if "walk g s c' n' v" for c' n'
    using that by (intro Least_le) blast
  ultimately show ?thesis unfolding shortest_def by blast
qed

section \<open>Invariants of the search\<close>

definition dij_tree :: "'n wgraph \<Rightarrow> 'n \<Rightarrow> 'n dij \<Rightarrow> bool" where
  "dij_tree g s st \<longleftrightarrow>
     dm_get (scores st) s = Some 0 \<and> dm_get (first_hop st) s = Some (s, 0) \<and>
     (\<forall>v. dm_get (scores st) v = None \<longrightarrow> dm_get (first_hop st) v = None) \<and>
     (\<forall>v d. v \<noteq> s \<longrightarrow> dm_get (scores st) v = Some d \<longrightarrow>
        (\<exists>h n. dm_get (first_hop st) v = Some (h, n) \<and> fwalk g s h d n v))"

definition dij_front :: "'n dij \<Rightarrow> bool" where
  "dij_front st \<longleftrightarrow>
     (\<forall>v d. dm_get (scores st) v = Some d \<longrightarrow> v \<notin> set (visited st) \<longrightarrow> (d, v) \<in> set (visit_next st)) \<and>
     (\<forall>e v. (e, v) \<in> set (visit_next st) \<longrightarrow> (\<exists>d. dm_get (scores st) v = Some d \<and> d \<le> e)) \<and>
     (\<forall>u v b. u \<in> set (visited st) \<longrightarrow> v \<notin> set (visited st) \<longrightarrow> dm_get (scores st) v = Some b \<longrightarrow>
        (\<exists>a. dm_get (scores st) u = Some a \<and> a \<le> b))"

definition dij_relaxed :: "'n wgraph \<Rightarrow> 'n dij \<Rightarrow> bool" where
  "dij_relaxed g st \<longleftrightarrow>
     (\<forall>u v w. u \<in> set (visited st) \<longrightarrow> (u, v, w) \<in> set g \<longrightarrow>
        (\<exists>a b. dm_get (scores st) u = Some a \<and> dm_get (scores st) v = Some b \<and> b \<le> a + w))"

text \<open>What relaxing edges out of \<open>u\<close>, at score \<open>d\<close>, may change.\<close>

definition relaxes :: "'n \<Rightarrow> nat \<Rightarrow> 'n dij \<Rightarrow> 'n dij \<Rightarrow> bool" where
  "relaxes u d st st' \<longleftrightarrow>
     visited st' = visited st \<and>
     (\<forall>x a. dm_get (scores st) x = Some a \<longrightarrow> (\<exists>b. dm_get (scores st') x = Some b \<and> b \<le> a)) \<and>
     (\<forall>x. x = u \<or> x \<in> set (visited st) \<longrightarrow> dm_get (scores st') x = dm_get (scores st) x) \<and>
     (\<forall>x b. dm_get (scores st') x = Some b \<longrightarrow>
        dm_get (scores st) x = Some b \<or> d \<le> b \<and> (b, x) \<in> set (visit_next st')) \<and>
     set (visit_next st) \<subseteq> set (visit_next st') \<and>
     (\<forall>e x. (e, x) \<in> set (visit_next st') \<longrightarrow>
        (e, x) \<in> set (visit_next st) \<or> (\<exists>b. dm_get (scores st') x = Some b \<and> b \<le> e))"

lemma relaxes_refl: "relaxes u d st st"
  by (auto simp: relaxes_def)

lemma relaxes_trans:
  assumes 1: "relaxes u d a b" and 2: "relaxes u d b c"
  shows "relaxes u d a c"
proof -
  have mono: "\<exists>z. dm_get (scores c) x = Some z \<and> z \<le> y" if "dm_get (scores a) x = Some y" for x y
    using 1 2 that unfolding relaxes_def by (meson order_trans)
  have entry: "\<exists>z. dm_get (scores c) x = Some z \<and> z \<le> e"
    if "(e, x) \<in> set (visit_next c)" "(e, x) \<notin> set (visit_next a)" for e x
    using 1 2 that unfolding relaxes_def by (meson order_trans)
  have new: "d \<le> z \<and> (z, x) \<in> set (visit_next c)"
    if "dm_get (scores c) x = Some z" "dm_get (scores a) x \<noteq> Some z" for x z
    using 1 2 that unfolding relaxes_def by (meson subsetD)
  have frame: "visited c = visited a" "set (visit_next a) \<subseteq> set (visit_next c)"
    using 1 2 unfolding relaxes_def by (simp, blast)
  have fixed: "dm_get (scores c) x = dm_get (scores a) x" if "x = u \<or> x \<in> set (visited a)" for x
    using 1 2 that unfolding relaxes_def by metis
  show ?thesis
    unfolding relaxes_def using frame
    by (intro conjI allI impI) (use mono entry new fixed in blast)+
qed

lemma relaxes_mono:
  "relaxes u d st st' \<Longrightarrow> dm_get (scores st) x = Some a \<Longrightarrow>
     \<exists>b. dm_get (scores st') x = Some b \<and> b \<le> a"
  by (simp add: relaxes_def)

lemma relaxes_fixed:
  "relaxes u d st st' \<Longrightarrow> x = u \<or> x \<in> set (visited st) \<Longrightarrow>
     dm_get (scores st') x = dm_get (scores st) x"
  unfolding relaxes_def by blast

lemma relaxes_entry:
  "relaxes u d st st' \<Longrightarrow> (e, x) \<in> set (visit_next st') \<Longrightarrow>
     (e, x) \<in> set (visit_next st) \<or> (\<exists>b. dm_get (scores st') x = Some b \<and> b \<le> e)"
  unfolding relaxes_def by blast

lemma improve_ok:
  assumes tree: "dij_tree g s st" and u: "dm_get (scores st) u = Some d"
    and e: "(u, v, w) \<in> set g" and v: "v \<notin> set (visited st)"
    and better: "case dm_get (scores st) v of None \<Rightarrow> True | Some old \<Rightarrow> d + w < old"
  shows "\<exists>st'. improve s u v (d + w) st = Inr st' \<and> dij_tree g s st' \<and> relaxes u d st st' \<and>
           dm_get (scores st') v = Some (d + w)"
proof -
  have "v \<noteq> s" using better tree by (auto simp: dij_tree_def)
  have "v \<noteq> u" using better u by auto
  obtain h n where hop: "improve s u v (d + w) st =
      Inr (st\<lparr>scores := dm_insert v (d + w) (scores st),
              visit_next := heap_push (d + w, v) (visit_next st),
              first_hop := dm_insert v (h, Suc n) (first_hop st)\<rparr>)"
    and fw: "fwalk g s h (d + w) (Suc n) v"
  proof (cases "u = s")
    case True
    then have "d = 0" using u tree by (simp add: dij_tree_def)
    show ?thesis
      by (rule that [of v 0]) (use True e \<open>d = 0\<close> fwalk_one [of s v w g] in \<open>simp_all add: improve_def\<close>)
  next
    case False
    then obtain h n where "dm_get (first_hop st) u = Some (h, n)" "fwalk g s h d n u"
      using tree u unfolding dij_tree_def by fastforce
    then show ?thesis
      using that [of h n] False e by (simp add: improve_def fwalk_snoc)
  qed
  let ?st' = "st\<lparr>scores := dm_insert v (d + w) (scores st),
                  visit_next := heap_push (d + w, v) (visit_next st),
                  first_hop := dm_insert v (h, Suc n) (first_hop st)\<rparr>"
  have "dij_tree g s ?st'"
    using tree fw \<open>v \<noteq> s\<close> unfolding dij_tree_def by simp
  moreover have "relaxes u d st ?st'"
    using u better v \<open>v \<noteq> u\<close>
    by (auto simp: relaxes_def hp.push_entries split: option.splits)
  ultimately show ?thesis by (simp add: hop)
qed

lemma relax_edge_ok:
  assumes tree: "dij_tree g s st" and u: "dm_get (scores st) u = Some d"
    and e: "(u, v, w) \<in> set g"
  shows "(relax_edge s u d (v, w) st = Inl ArithOverflow \<and> 2 ^ 64 \<le> d + w) \<or>
         (\<exists>st'. relax_edge s u d (v, w) st = Inr st' \<and> dij_tree g s st' \<and> relaxes u d st st' \<and>
           (v \<in> set (visited st) \<or> (\<exists>b. dm_get (scores st') v = Some b \<and> b \<le> d + w)))"
proof (cases "v \<in> set (visited st) \<or> 2 ^ 64 \<le> d + w \<or> (\<exists>old. dm_get (scores st) v = Some old \<and> old \<le> d + w)")
  case True
  then have "relax_edge s u d (v, w) st = Inl ArithOverflow \<and> 2 ^ 64 \<le> d + w \<or>
      relax_edge s u d (v, w) st = Inr st \<and> (v \<in> set (visited st) \<or> (\<exists>old. dm_get (scores st) v = Some old \<and> old \<le> d + w))"
    by (auto simp: relax_edge_def Let_def checked_add_usize_def)
  with tree show ?thesis by (auto simp: relaxes_refl)
next
  case False
  then have "relax_edge s u d (v, w) st = improve s u v (d + w) st"
    by (auto simp: relax_edge_def Let_def checked_add_usize_def split: option.split)
  with improve_ok [OF tree u e] False show ?thesis by (fastforce split: option.splits)
qed

lemma relax_edges_ok:
  assumes "dij_tree g s st" "dm_get (scores st) u = Some d" "\<forall>(v, w) \<in> set es. (u, v, w) \<in> set g"
  shows "(relax_edges s u d es st = Inl ArithOverflow \<and> (\<exists>(v, w) \<in> set es. 2 ^ 64 \<le> d + w)) \<or>
         (\<exists>st'. relax_edges s u d es st = Inr st' \<and> dij_tree g s st' \<and> relaxes u d st st' \<and>
           (\<forall>(v, w) \<in> set es. v \<in> set (visited st) \<or>
              (\<exists>b. dm_get (scores st') v = Some b \<and> b \<le> d + w)))"
  using assms
proof (induction es arbitrary: st)
  case Nil
  then show ?case by (simp add: relaxes_refl)
next
  case (Cons e es)
  obtain v w where e: "e = (v, w)" by force
  show ?case
  proof (cases "relax_edge s u d (v, w) st = Inl ArithOverflow \<and> 2 ^ 64 \<le> d + w")
    case True
    then show ?thesis by (simp add: e)
  next
    case False
    then obtain st1 where st1: "relax_edge s u d (v, w) st = Inr st1" "dij_tree g s st1" "relaxes u d st st1"
      "v \<in> set (visited st) \<or> (\<exists>b. dm_get (scores st1) v = Some b \<and> b \<le> d + w)"
      using relax_edge_ok [of g s st u d v w] Cons.prems e by auto
    have u1: "dm_get (scores st1) u = Some d" and vis: "visited st1 = visited st"
      using st1(3) Cons.prems(2) by (auto simp: relaxes_def)
    have v2: "\<exists>b. dm_get (scores st2) v = Some b \<and> b \<le> d + w"
      if "v \<notin> set (visited st)" "relaxes u d st1 st2" for st2
      using st1(4) that unfolding relaxes_def by (meson order_trans)
    have "\<forall>(v, w) \<in> set es. (u, v, w) \<in> set g" using Cons.prems(3) by simp
    from Cons.IH [OF st1(2) u1 this] show ?thesis
    proof
      assume "relax_edges s u d es st1 = Inl ArithOverflow \<and> (\<exists>(v, w) \<in> set es. 2 ^ 64 \<le> d + w)"
      then show ?thesis using st1(1) e by auto
    next
      assume "\<exists>st2. relax_edges s u d es st1 = Inr st2 \<and> dij_tree g s st2 \<and> relaxes u d st1 st2 \<and>
        (\<forall>(v, w) \<in> set es. v \<in> set (visited st1) \<or> (\<exists>b. dm_get (scores st2) v = Some b \<and> b \<le> d + w))"
      then obtain st2 where st2: "relax_edges s u d es st1 = Inr st2" "dij_tree g s st2" "relaxes u d st1 st2"
        "\<forall>(v, w) \<in> set es. v \<in> set (visited st) \<or> (\<exists>b. dm_get (scores st2) v = Some b \<and> b \<le> d + w)"
        using vis by auto
      with st1 e v2 [OF _ st2(3)] show ?thesis by (auto intro: relaxes_trans)
    qed
  qed
qed

lemma out_edges_iff: "(v, w) \<in> set (out_edges g u) \<longleftrightarrow> (u, v, w) \<in> set g"
  by (force simp: out_edges_def)

lemma out_edges_sound: "\<forall>(v, w) \<in> set (out_edges g u). (u, v, w) \<in> set g"
  by (auto simp: out_edges_iff)

definition dij_inv :: "'n wgraph \<Rightarrow> 'n \<Rightarrow> 'n dij \<Rightarrow> bool" where
  "dij_inv g s st \<longleftrightarrow> dij_tree g s st \<and> dij_front st \<and> dij_relaxed g st"

lemma dij_inv_skip:
  assumes "dij_inv g s st" "heap_pop (visit_next st) = Some ((d, u), rest)" "u \<in> set (visited st)"
  shows "dij_inv g s (st\<lparr>visit_next := rest\<rparr>)"
  using assms hp.pop_rest [OF assms(2)]
  by (auto simp: dij_inv_def dij_tree_def dij_front_def dij_relaxed_def)

lemma dij_front_visit:
  assumes front: "dij_front st" and pop: "heap_pop (visit_next st) = Some ((d, u), rest)"
    and u: "u \<notin> set (visited st)" "dm_get (scores st) u = Some d"
    and rel: "relaxes u d (st\<lparr>visit_next := rest\<rparr>) st'"
  shows "dij_front (st'\<lparr>visited := u # visited st'\<rparr>)"
proof -
  have vis: "visited st' = visited st" using rel by (simp add: relaxes_def)
  have new: "dm_get (scores st) v = Some b \<or> d \<le> b \<and> (b, v) \<in> set (visit_next st')"
    if "dm_get (scores st') v = Some b" for v b
    using rel that by (simp add: relaxes_def)
  have pending: "(b, v) \<in> set (visit_next st)"
    if "dm_get (scores st) v = Some b" "v \<notin> set (visited st)" for v b
    using front that by (simp add: dij_front_def)
  have least: "d \<le> b" if "dm_get (scores st') v = Some b" "v \<notin> set (visited st)" for v b
    using new [OF that(1)] pending [OF _ that(2)] hp.pop_least [OF pop, of "(b, v)"] by auto
  have present: "(b, v) \<in> set (visit_next st')"
    if "dm_get (scores st') v = Some b" "v \<notin> set (visited st)" "v \<noteq> u" for v b
    using new [OF that(1)] pending [OF _ that(2)] hp.pop_rest [OF pop] rel that(3)
    by (auto simp: relaxes_def)
  have above: "\<exists>b. dm_get (scores st') v = Some b \<and> b \<le> e" if e: "(e, v) \<in> set (visit_next st')" for e v
  proof (cases "(e, v) \<in> set rest")
    case True
    then obtain a where "dm_get (scores st) v = Some a" "a \<le> e"
      using front hp.pop_rest [OF pop] unfolding dij_front_def by blast
    moreover from this obtain b where "dm_get (scores st') v = Some b" "b \<le> a"
      using relaxes_mono [OF rel, of v a] by auto
    ultimately show ?thesis by auto
  next
    case False
    then show ?thesis using relaxes_entry [OF rel e] by simp
  qed
  have old: "\<exists>a. dm_get (scores st') x = Some a \<and> a \<le> d" if "x = u \<or> x \<in> set (visited st)" for x
  proof -
    have "dm_get (scores st') x = dm_get (scores st) x"
      using relaxes_fixed [OF rel, of x] that by simp
    moreover have "\<exists>a. dm_get (scores st) x = Some a \<and> a \<le> d"
      using front u that unfolding dij_front_def by blast
    ultimately show ?thesis by simp
  qed
  have order: "\<exists>a. dm_get (scores st') x = Some a \<and> a \<le> b"
    if "x = u \<or> x \<in> set (visited st)" "dm_get (scores st') v = Some b" "v \<notin> set (visited st)" for x v b
    using old [OF that(1)] least [OF that(2,3)] by auto
  show ?thesis
    unfolding dij_front_def
  proof (intro conjI allI impI)
  qed (use vis present above order in simp_all)
qed

lemma dij_relaxed_visit:
  assumes relaxed: "dij_relaxed g st" and front: "dij_front st"
    and u: "u \<notin> set (visited st)" "dm_get (scores st) u = Some d"
    and rel: "relaxes u d (st\<lparr>visit_next := rest\<rparr>) st'"
    and edges: "\<forall>(v, w) \<in> set (out_edges g u). v \<in> set (visited st) \<or>
                  (\<exists>b. dm_get (scores st') v = Some b \<and> b \<le> d + w)"
  shows "dij_relaxed g (st'\<lparr>visited := u # visited st'\<rparr>)"
  unfolding dij_relaxed_def
proof (intro allI impI)
  fix x v w
  assume x: "x \<in> set (visited (st'\<lparr>visited := u # visited st'\<rparr>))" and e: "(x, v, w) \<in> set g"
  have same: "dm_get (scores st') y = dm_get (scores st) y" if "y = u \<or> y \<in> set (visited st)" for y
    using relaxes_fixed [OF rel, of y] that by simp
  have mono: "\<exists>b. dm_get (scores st') y = Some b \<and> b \<le> a" if "dm_get (scores st) y = Some a" for y a
    using relaxes_mono [OF rel, of y a] that by simp
  have "\<exists>a b. dm_get (scores st') x = Some a \<and> dm_get (scores st') v = Some b \<and> b \<le> a + w"
  proof (cases "x = u")
    case True
    have "v \<in> set (visited st) \<Longrightarrow> \<exists>b. dm_get (scores st') v = Some b \<and> b \<le> d"
      using front u same [of v] unfolding dij_front_def by auto
    then have "\<exists>b. dm_get (scores st') v = Some b \<and> b \<le> d + w"
      using edges e True by (fastforce simp: out_edges_iff [symmetric] intro: trans_le_add1)
    then show ?thesis using True u(2) same [of u] by simp
  next
    case False
    then have x': "x \<in> set (visited st)" using x rel by (simp add: relaxes_def)
    then obtain a b where "dm_get (scores st) x = Some a" "dm_get (scores st) v = Some b" "b \<le> a + w"
      using relaxed e unfolding dij_relaxed_def by blast
    then show ?thesis using mono [of v b] same [of x] x' by (auto intro: order_trans)
  qed
  then show "\<exists>a b. dm_get (scores (st'\<lparr>visited := u # visited st'\<rparr>)) x = Some a \<and>
      dm_get (scores (st'\<lparr>visited := u # visited st'\<rparr>)) v = Some b \<and> b \<le> a + w" by simp
qed

lemma tree_score_walk:
  assumes tree: "dij_tree g s st" and d: "dm_get (scores st) v = Some d"
  shows "\<exists>n. walk g s d n v"
proof (cases "v = s")
  case True
  then have "d = 0" using tree d by (simp add: dij_tree_def)
  with True walk_nil [of g s] show ?thesis by blast
next
  case False
  then obtain h n where "fwalk g s h d n v" using tree d unfolding dij_tree_def by blast
  then show ?thesis by (intro exI) (rule fwalk_walk)
qed

text \<open>
  While nodes are pending, a walk to an unvisited node passes an unvisited node that already has a
  score no larger than the cost of the walk. The popped score, the least of the pending ones, is
  therefore the least cost of a walk to the popped node.
\<close>

lemma walk_crosses_frontier:
  assumes inv: "dij_inv g s st" and "walk g s c n v"
  shows "(v \<in> set (visited st) \<and> (\<exists>a. dm_get (scores st) v = Some a \<and> a \<le> c)) \<or>
    (\<exists>x b. x \<notin> set (visited st) \<and> dm_get (scores st) x = Some b \<and> b \<le> c)"
  using assms(2)
proof (induction rule: walk.induct)
  case walk_nil
  have "dm_get (scores st) s = Some 0" using inv by (simp add: dij_inv_def dij_tree_def)
  then show ?case by blast
next
  case (walk_snoc c n u v w)
  from walk_snoc.IH show ?case
  proof
    assume "u \<in> set (visited st) \<and> (\<exists>a. dm_get (scores st) u = Some a \<and> a \<le> c)"
    then obtain a b where "dm_get (scores st) v = Some b" "b \<le> a + w" "a \<le> c"
      using inv walk_snoc.hyps(2) unfolding dij_inv_def dij_relaxed_def by fastforce
    then have "dm_get (scores st) v = Some b \<and> b \<le> c + w" by simp
    then show ?thesis by blast
  qed (use trans_le_add1 in blast)
qed

lemma popped_score_shortest:
  assumes inv: "dij_inv g s st" and pop: "heap_pop (visit_next st) = Some ((d, u), rest)"
    and u: "u \<notin> set (visited st)" and d: "dm_get (scores st) u = Some d"
  shows "shortest g s u d"
  unfolding shortest_def
proof (intro conjI allI impI)
  show "\<exists>n. walk g s d n u" using tree_score_walk [OF _ d] inv by (simp add: dij_inv_def)
  fix c n
  assume "walk g s c n u"
  then obtain x b where "x \<notin> set (visited st)" "dm_get (scores st) x = Some b" "b \<le> c"
    using walk_crosses_frontier [OF inv] u by blast
  moreover from this have "(b, x) \<in> set (visit_next st)" using inv by (simp add: dij_inv_def dij_front_def)
  ultimately show "d \<le> c" using hp.pop_least [OF pop, of "(b, x)"] by simp
qed

text \<open>
  The scores are of type \<open>usize\<close> and a sum that does not fit panics. The sums fit if every least
  cost, extended by one edge, does.
\<close>

definition costs_fit :: "'n wgraph \<Rightarrow> 'n \<Rightarrow> bool" where
  "costs_fit g s \<longleftrightarrow> (\<forall>u v w d. (u, v, w) \<in> set g \<longrightarrow> shortest g s u d \<longrightarrow> d + w < 2 ^ 64)"

lemma dij_inv_visit:
  assumes inv: "dij_inv g s st" and pop: "heap_pop (visit_next st) = Some ((d, u), rest)"
    and u: "u \<notin> set (visited st)"
  shows "(relax_edges s u d (out_edges g u) (st\<lparr>visit_next := rest\<rparr>) = Inl ArithOverflow \<and> \<not> costs_fit g s) \<or>
         (\<exists>st'. relax_edges s u d (out_edges g u) (st\<lparr>visit_next := rest\<rparr>) = Inr st' \<and>
           dij_inv g s (st'\<lparr>visited := u # visited st'\<rparr>))"
proof -
  have front: "dij_front st" and relaxed: "dij_relaxed g st"
    and tree: "dij_tree g s (st\<lparr>visit_next := rest\<rparr>)"
    using inv by (auto simp: dij_inv_def dij_tree_def)
  have d: "dm_get (scores st) u = Some d"
    using hp.popped_score_exact [OF pop, of "dm_get (scores st)"] front u
    unfolding dij_front_def by blast
  show ?thesis
  proof (cases "relax_edges s u d (out_edges g u) (st\<lparr>visit_next := rest\<rparr>) = Inl ArithOverflow \<and>
      (\<exists>(v, w) \<in> set (out_edges g u). 2 ^ 64 \<le> d + w)")
    case True
    then have "\<not> costs_fit g s"
      using popped_score_shortest [OF inv pop u d]
      by (fastforce simp: costs_fit_def out_edges_iff not_less)
    with True show ?thesis by blast
  next
    case False
    then obtain st' where st': "relax_edges s u d (out_edges g u) (st\<lparr>visit_next := rest\<rparr>) = Inr st'"
    "dij_tree g s st'" and rel: "relaxes u d (st\<lparr>visit_next := rest\<rparr>) st'"
    and es: "\<forall>(v, w) \<in> set (out_edges g u). v \<in> set (visited st) \<or>
                  (\<exists>b. dm_get (scores st') v = Some b \<and> b \<le> d + w)"
    using relax_edges_ok [OF tree _ out_edges_sound, of u d] d by auto
  have "dij_tree g s (st'\<lparr>visited := u # visited st'\<rparr>)"
    using st'(2) by (simp add: dij_tree_def)
  with st'(1) dij_front_visit [OF front pop u d rel] dij_relaxed_visit [OF relaxed front u d rel es]
    show ?thesis by (auto simp: dij_inv_def)
  qed
qed

declare dijkstra_loop.simps [simp del]

lemma dijkstra_loop_ok:
  assumes "dij_inv g s st"
  shows "(dijkstra_loop g s st = Inl ArithOverflow \<and> \<not> costs_fit g s) \<or>
         (\<exists>st'. dijkstra_loop g s st = Inr st' \<and> dij_inv g s st' \<and> visit_next st' = [])"
  using assms
proof (induction g s st rule: dijkstra_loop.induct)
  case (1 g s st)
  show ?case
  proof (cases "heap_pop (visit_next st)")
    case None
    then have "visit_next st = []" by (simp add: heap_pop_None)
    moreover have "dijkstra_loop g s st = Inr st"
      using None by (simp add: dijkstra_loop.simps [of g s st])
    ultimately show ?thesis using "1.prems" by auto
  next
    case (Some p)
    obtain d u rest where p: "p = ((d, u), rest)" by (cases p) auto
    note pop = Some [unfolded p]
    show ?thesis
    proof (cases "u \<in> set (visited st)")
      case True
      then have "dijkstra_loop g s st = dijkstra_loop g s (st\<lparr>visit_next := rest\<rparr>)"
        using pop by (subst dijkstra_loop.simps) simp
      then show ?thesis
        using "1.IH"(1) [OF pop refl refl True dij_inv_skip [OF "1.prems" pop True]] by (simp only:)
    next
      case False
      from dij_inv_visit [OF "1.prems" pop False] show ?thesis
      proof
        assume "relax_edges s u d (out_edges g u) (st\<lparr>visit_next := rest\<rparr>) = Inl ArithOverflow \<and> \<not> costs_fit g s"
        then show ?thesis using pop False by (subst dijkstra_loop.simps) simp
      next
        assume "\<exists>st'. relax_edges s u d (out_edges g u) (st\<lparr>visit_next := rest\<rparr>) = Inr st' \<and>
          dij_inv g s (st'\<lparr>visited := u # visited st'\<rparr>)"
        then obtain st' where st': "relax_edges s u d (out_edges g u) (st\<lparr>visit_next := rest\<rparr>) = Inr st'"
          and inv: "dij_inv g s (st'\<lparr>visited := u # visited st'\<rparr>)" by blast
        have "dijkstra_loop g s st = dijkstra_loop g s (st'\<lparr>visited := u # visited st'\<rparr>)"
          using pop False st' by (subst dijkstra_loop.simps) simp
        then show ?thesis using "1.IH"(2) [OF pop refl refl False st' inv] by (simp only:)
      qed
    qed
  qed
qed

lemma dij_inv_init:
  "dij_inv g s \<lparr>visited = [], scores = dm_insert s 0 [], first_hop = dm_insert s (s, 0) [],
                visit_next = heap_push (0, s) []\<rparr>"
  by (auto simp: dij_inv_def dij_tree_def dij_front_def dij_relaxed_def hp.push_entries
      split: if_splits)

lemma finished_below_walks:
  assumes inv: "dij_inv g s st" and fin: "visit_next st = []" and "walk g s c n v"
  shows "\<exists>d. dm_get (scores st) v = Some d \<and> d \<le> c"
  using assms(3)
proof (induction rule: walk.induct)
  case walk_nil
  then show ?case using inv by (simp add: dij_inv_def dij_tree_def)
next
  case (walk_snoc c n u v w)
  then obtain d where d: "dm_get (scores st) u = Some d" "d \<le> c" by blast
  then have "u \<in> set (visited st)" using inv fin by (auto simp: dij_inv_def dij_front_def)
  then have "\<exists>a b. dm_get (scores st) u = Some a \<and> dm_get (scores st) v = Some b \<and> b \<le> a + w"
    using inv walk_snoc.hyps(2) unfolding dij_inv_def dij_relaxed_def by blast
  with d show ?case by (auto intro: order_trans)
qed

lemma tree_dom: "dij_tree g s st \<Longrightarrow> dm_get (first_hop st) v = None \<longleftrightarrow> dm_get (scores st) v = None"
  unfolding dij_tree_def by (cases "v = s"; cases "dm_get (scores st) v") fastforce+

lemma finished_scores:
  assumes inv: "dij_inv g s st" and fin: "visit_next st = []"
  shows "dm_get (scores st) v = Some d \<longleftrightarrow> shortest g s v d"
proof -
  have tree: "dij_tree g s st" using inv by (simp add: dij_inv_def)
  have score: "shortest g s v e" if e: "dm_get (scores st) v = Some e" for e
    unfolding shortest_def
  proof (intro conjI allI impI)
    show "\<exists>n. walk g s e n v" by (rule tree_score_walk [OF tree e])
    show "e \<le> c" if "walk g s c n v" for c n
      using finished_below_walks [OF inv fin that] e by simp
  qed
  show ?thesis
  proof
    assume sh: "shortest g s v d"
    then obtain n where "walk g s d n v" unfolding shortest_def by blast
    then obtain e where "dm_get (scores st) v = Some e"
      using finished_below_walks [OF inv fin] by blast
    with shortest_unique [OF sh score] show "dm_get (scores st) v = Some d" by simp
  qed (rule score)
qed

text \<open>
  The result in the vocabulary of the callers: exact scores for exactly the reachable nodes, and for
  every other reachable node the first hop and length of a walk of least cost.
\<close>

definition exact_result ::
  "'n wgraph \<Rightarrow> 'n \<Rightarrow> ('n, nat) dmap \<Rightarrow> ('n, 'n \<times> nat) dmap \<Rightarrow> bool" where
  "exact_result g s sc fh \<longleftrightarrow>
     (\<forall>v d. dm_get sc v = Some d \<longleftrightarrow> shortest g s v d) \<and>
     dm_get fh s = Some (s, 0) \<and>
     (\<forall>v. dm_get fh v = None \<longleftrightarrow> dm_get sc v = None) \<and>
     (\<forall>v h n. v \<noteq> s \<longrightarrow> dm_get fh v = Some (h, n) \<longrightarrow>
        (\<exists>d. shortest g s v d \<and> fwalk g s h d n v))"

lemma finished_exact:
  assumes inv: "dij_inv g s st" and fin: "visit_next st = []"
  shows "exact_result g s (scores st) (first_hop st)"
proof -
  have sc: "dm_get (scores st) v = Some d \<longleftrightarrow> shortest g s v d" for v d
    by (rule finished_scores [OF inv fin])
  have tree: "dij_tree g s st" using inv by (simp add: dij_inv_def)
  have dom: "dm_get (first_hop st) v = None \<longleftrightarrow> dm_get (scores st) v = None" for v
    using tree by (rule tree_dom)
  have hops: "\<exists>d. shortest g s v d \<and> fwalk g s h d n v"
    if ne: "v \<noteq> s" and fh: "dm_get (first_hop st) v = Some (h, n)" for v h n
  proof -
    obtain d where d: "dm_get (scores st) v = Some d"
      using dom [of v] fh by (cases "dm_get (scores st) v") auto
    obtain h' n' where "dm_get (first_hop st) v = Some (h', n')" "fwalk g s h' d n' v"
      using tree ne d unfolding dij_tree_def by blast
    with fh d sc show ?thesis by auto
  qed
  have "dm_get (first_hop st) s = Some (s, 0)" using tree by (simp add: dij_tree_def)
  then show ?thesis
    unfolding exact_result_def by (intro conjI allI impI) (simp_all add: sc dom hops)
qed

lemma dijkstra_outcomes:
  "(dijkstra_with_first_hop g s = Inl ArithOverflow \<and> \<not> costs_fit g s) \<or>
   (\<exists>sc fh. dijkstra_with_first_hop g s = Inr (sc, fh) \<and> exact_result g s sc fh)"
  using dijkstra_loop_ok [OF dij_inv_init, of g s]
  by (auto simp: dijkstra_with_first_hop_def intro: finished_exact)

lemma dijkstra_correct:
  assumes "costs_fit g s"
  shows "\<exists>sc fh. dijkstra_with_first_hop g s = Inr (sc, fh) \<and>
     (\<forall>v d. dm_get sc v = Some d \<longleftrightarrow> shortest g s v d) \<and>
     dm_get fh s = Some (s, 0) \<and>
     (\<forall>v. dm_get fh v = None \<longleftrightarrow> dm_get sc v = None) \<and>
     (\<forall>v h n. v \<noteq> s \<longrightarrow> dm_get fh v = Some (h, n) \<longrightarrow>
        (\<exists>d. shortest g s v d \<and> fwalk g s h d n v))"
  using dijkstra_outcomes [of g s] assms unfolding exact_result_def by blast

section \<open>Graphs whose costs fit\<close>

text \<open>
  The least cost of a node is at most the largest weight times the number of nodes that are nearer.
\<close>

definition nearer :: "'n wgraph \<Rightarrow> 'n \<Rightarrow> nat \<Rightarrow> 'n set" where
  "nearer g s d = {x. \<exists>e. shortest g s x e \<and> e < d}"

lemma walk_enters_distance:
  assumes "walk g s c n v" "shortest g s v e" "0 < d" "d \<le> e"
  shows "\<exists>u v' w a. (u, v', w) \<in> set g \<and> shortest g s u a \<and> a < d \<and> d \<le> a + w"
  using assms
proof (induction arbitrary: e rule: walk.induct)
  case walk_nil
  then show ?case using walk.walk_nil [of g s] unfolding shortest_def by fastforce
next
  case (walk_snoc c n u v w)
  obtain a where a: "shortest g s u a" using shortest_exists [OF walk_snoc.hyps(1)] by blast
  show ?case
  proof (cases "a < d")
    case True
    obtain m where "walk g s a m u" using a unfolding shortest_def by blast
    from walk.walk_snoc [OF this walk_snoc.hyps(2)] have "e \<le> a + w"
      using walk_snoc.prems(1) unfolding shortest_def by blast
    with True a walk_snoc show ?thesis by (meson order_trans)
  qed (use a walk_snoc in auto)
qed

lemma walk_target: "walk g s c n v \<Longrightarrow> v \<in> insert s ((fst \<circ> snd) ` set g)"
  by (induction rule: walk.induct) force+

lemma nearer_subset: "nearer g s d \<subseteq> insert s ((fst \<circ> snd) ` set g)"
  using walk_target unfolding nearer_def shortest_def by fast

lemma finite_nearer: "finite (nearer g s d)"
  by (rule finite_subset [OF nearer_subset]) simp

lemma least_cost_bound:
  assumes "\<forall>(u, v, w) \<in> set g. w \<le> W" "shortest g s v d"
  shows "d \<le> W * card (nearer g s d)"
  using assms(2)
proof (induction d arbitrary: v rule: less_induct)
  case (less d)
  show ?case
  proof (cases "d = 0")
    case False
    obtain n where "walk g s d n v" using less.prems unfolding shortest_def by blast
    then obtain u v' w a where edge: "(u, v', w) \<in> set g" and a: "shortest g s u a" "a < d" "d \<le> a + w"
      using walk_enters_distance [OF _ less.prems, of d n d] False by auto
    have "u \<in> nearer g s d" using a(1,2) unfolding nearer_def by blast
    moreover have "u \<notin> nearer g s a" using shortest_unique [OF a(1)] unfolding nearer_def by blast
    moreover have "nearer g s a \<subseteq> nearer g s d" using a(2) less_trans unfolding nearer_def by blast
    ultimately have "nearer g s a \<subset> nearer g s d" by blast
    then have "card (nearer g s a) < card (nearer g s d)"
      by (rule psubset_card_mono [OF finite_nearer])
    then have "W * Suc (card (nearer g s a)) \<le> W * card (nearer g s d)" by (intro mult_le_mono2) simp
    moreover have "w \<le> W" using assms(1) edge by auto
    ultimately show ?thesis using less.IH [OF a(2,1)] a(3) unfolding mult_Suc_right by linarith
  qed simp
qed

lemma bounded_costs_fit:
  assumes "\<forall>(u, v, w) \<in> set g. v \<in> N \<and> w \<le> W" "s \<in> N" "finite N" "W * card N < 2 ^ 64"
  shows "costs_fit g s"
  unfolding costs_fit_def
proof (intro allI impI)
  fix u v w d
  assume edge: "(u, v, w) \<in> set g" and d: "shortest g s u d"
  have N: "insert s ((fst \<circ> snd) ` set g) \<subseteq> N" and W: "\<forall>(u, v, w) \<in> set g. w \<le> W"
    using assms(1,2) by (auto simp: split_beta)
  obtain n where "walk g s d n u" using d unfolding shortest_def by blast
  from walk_target [OF this] have "u \<in> N" using N by blast
  moreover have "u \<notin> nearer g s d" using shortest_unique [OF d] unfolding nearer_def by blast
  moreover have "nearer g s d \<subseteq> N" by (rule subset_trans [OF nearer_subset N])
  ultimately have "nearer g s d \<subset> N" by blast
  then have "card (nearer g s d) < card N" by (rule psubset_card_mono [OF assms(3)])
  then have "W * Suc (card (nearer g s d)) \<le> W * card N" by (intro mult_le_mono2) simp
  moreover have "d \<le> W * card (nearer g s d)" by (rule least_cost_bound [OF W d])
  moreover have "w \<le> W" using W edge by blast
  ultimately have "d + w \<le> W * card N" unfolding mult_Suc_right by linarith
  then show "d + w < 2 ^ 64" using assms(4) by (rule le_less_trans)
qed

section \<open>Properties\<close>



text \<open>
  For every node other than the start that has one, the recorded first hop \<open>h\<close> and length \<open>n\<close>
  belong to a walk of least cost: it leaves the start over an edge to \<open>h\<close> and has \<open>n\<close> edges.
\<close>

theorem dijkstra_first_hop_on_shortest_path:
  assumes "dijkstra_with_first_hop g s = Inr (sc, fh)" "v \<noteq> s" "dm_get fh v = Some (h, n)"
  shows "\<exists>d. dm_get sc v = Some d \<and> fwalk g s h d n v \<and> (\<forall>c m. walk g s c m v \<longrightarrow> d \<le> c)"
proof -
  have "exact_result g s sc fh" using dijkstra_outcomes [of g s] assms(1) by auto
  then show ?thesis using assms(2,3) unfolding exact_result_def shortest_def by blast
qed

theorem dijkstra_first_hop_on_shortest_path_witness:
  "\<exists>d. dm_get [(0 :: nat, 0), (1, 4), (2, 1)] 1 = Some d \<and>
     fwalk [(0 :: nat, 1, 5), (0, 2, 1), (2, 1, 3)] 0 2 d 2 1 \<and>
     (\<forall>c m. walk [(0 :: nat, 1, 5), (0, 2, 1), (2, 1, 3)] 0 c m 1 \<longrightarrow> d \<le> c)"
proof (rule dijkstra_first_hop_on_shortest_path)
  show "dijkstra_with_first_hop [(0 :: nat, 1, 5), (0, 2, 1), (2, 1, 3)] 0 =
      Inr ([(0, 0), (1, 4), (2, 1)], [(0, 0, 0), (1, 2, 2), (2, 2, 1)])"
    by code_simp
qed (simp_all add: dm_get_def)

end
