(* ===== verification/OspfTable.thy ===== *)
theory OspfTable
  imports OspfSynced GraphAlgo
begin

text \<open>
  The route table computed from the synchronised information: \<open>RouteTable\<close> of
  \<open>src/app/src/peers/peer_ospf_route.rs\<close>.

  Node indices of the peer graph are positions in its list of peers. \<open>petgraph\<close>'s own \<open>dijkstra\<close>, used
  for the hop counts, is the parameter \<open>pg_dijkstra\<close>; parsing a CIDR and its address test are
  the parameters \<open>parse_cidr\<close> and \<open>cidr_contains\<close>; link costs are the parameter \<open>calc\<close>, the
  \<open>calculate_cost\<close> of the installed cost calculator.
\<close>

section \<open>Data\<close>

definition AVOID_RELAY_COST :: usize where
  "AVOID_RELAY_COST = 2147483647"

record NextHopInfo =
  nh_next_hop_peer_id :: PeerId
  nh_path_latency :: "32 word"
  nh_path_len :: usize
  nh_version :: Version

record PeerIdAndVersion =
  piv_peer_id :: PeerId
  piv_version :: Version

record 'cidr RouteTable =
  rt_peer_infos :: "(PeerId, RoutePeerInfo) dmap"
  rt_next_hop_map :: "(PeerId, NextHopInfo) dmap"
  rt_ipv4_peer_id_map :: "(u32, PeerIdAndVersion) dmap"
  rt_ipv6_peer_id_map :: "(128 word, PeerIdAndVersion) dmap"
  rt_cidr_peer_id_map :: "('cidr, PeerIdAndVersion) dmap"
  rt_next_hop_map_version :: Version

record PeerGraph =
  pg_nodes :: "PeerId list"
  pg_edges :: "nat wgraph"

definition node_index_end :: nat where
  "node_index_end = 4294967295"

datatype NextHopPolicy = LeastHop | LeastCost

definition route_table_new :: "'cidr RouteTable" where
  "route_table_new = \<lparr>rt_peer_infos = [], rt_next_hop_map = [], rt_ipv4_peer_id_map = [],
     rt_ipv6_peer_id_map = [], rt_cidr_peer_id_map = [], rt_next_hop_map_version = 0\<rparr>"

definition rt_get_next_hop :: "'cidr RouteTable \<Rightarrow> PeerId \<Rightarrow> NextHopInfo option" where
  "rt_get_next_hop rt dst =
     Option.bind (dm_get (rt_next_hop_map rt) dst)
       (\<lambda>x. if nh_version x \<ge> rt_next_hop_map_version rt then Some x else None)"

definition peer_reachable :: "'cidr RouteTable \<Rightarrow> PeerId \<Rightarrow> bool" where
  "peer_reachable rt peer_id \<longleftrightarrow> rt_get_next_hop rt peer_id \<noteq> None"

datatype NatType = Unknown | OpenInternet | NoPat | FullCone | Restricted | PortRestricted
  | Symmetric | SymUdpFirewall | SymmetricEasyInc | SymmetricEasyDec

definition nat_type_try_from :: "32 word \<Rightarrow> NatType option" where
  "nat_type_try_from v =
     (let n = unat v; table = [Unknown, OpenInternet, NoPat, FullCone, Restricted, PortRestricted,
        Symmetric, SymUdpFirewall, SymmetricEasyInc, SymmetricEasyDec]
      in if n < length table then Some (table ! n) else None)"

definition get_nat_type :: "'cidr RouteTable \<Rightarrow> PeerId \<Rightarrow> NatType option" where
  "get_nat_type rt peer_id =
     map_option (\<lambda>i. case nat_type_try_from (rpi_udp_stun_info i) of Some t \<Rightarrow> t | None \<Rightarrow> Unknown)
       (dm_get (rt_peer_infos rt) peer_id)"

section \<open>The peer graph\<close>

text \<open>\<open>as usize\<close> on an \<open>i32\<close> sign extends: a negative cost becomes a huge one.\<close>

definition i32_as_usize :: "32 word \<Rightarrow> usize" where
  "i32_as_usize c = nat (sint c mod 2 ^ 64)"

fun add_graph_nodes ::
  "PeerId \<Rightarrow> (PeerId, RoutePeerInfo) dmap \<Rightarrow> PeerId list \<times> nat option \<times> (PeerId, nat) dmap
    \<Rightarrow> PeerId list \<times> nat option \<times> (PeerId, nat) dmap" where
  "add_graph_nodes my_id [] acc = acc"
| "add_graph_nodes my_id ((p, info) # items) (nodes, start, idx) =
     (if rpi_version info = 0 then add_graph_nodes my_id items (nodes, start, idx)
      else let node_idx = length nodes
           in add_graph_nodes my_id items
                (nodes @ [p], if p = my_id then Some node_idx else start, dm_insert p node_idx idx))"

definition link_cost ::
  "(PeerId \<Rightarrow> PeerId \<Rightarrow> 32 word) \<Rightarrow> 'raw SyncedRouteInfo \<Rightarrow> PeerId \<Rightarrow> PeerId \<Rightarrow> usize rust" where
  "link_cost calc st src dst =
     (let cost = i32_as_usize (calc src dst)
      in if get_avoid_relay_data st src then checked_add_usize cost AVOID_RELAY_COST else Inr cost)"

fun graph_edges_of ::
  "(PeerId \<Rightarrow> PeerId \<Rightarrow> 32 word) \<Rightarrow> 'raw SyncedRouteInfo \<Rightarrow> (PeerId, nat) dmap \<Rightarrow> PeerId \<Rightarrow> nat
    \<Rightarrow> PeerId list \<Rightarrow> nat wgraph rust" where
  "graph_edges_of calc st idx src src_idx [] = Inr []"
| "graph_edges_of calc st idx src src_idx (dst # dsts) =
     (case dm_get idx dst of
        None \<Rightarrow> graph_edges_of calc st idx src src_idx dsts
      | Some dst_idx \<Rightarrow>
          rbind (link_cost calc st src dst)
            (\<lambda>cost. rmap (Cons (src_idx, dst_idx, cost)) (graph_edges_of calc st idx src src_idx dsts)))"

fun graph_edges ::
  "(PeerId \<Rightarrow> PeerId \<Rightarrow> 32 word) \<Rightarrow> 'raw SyncedRouteInfo \<Rightarrow> (PeerId, nat) dmap \<Rightarrow> (PeerId, nat) dmap
    \<Rightarrow> nat wgraph rust" where
  "graph_edges calc st idx [] = Inr []"
| "graph_edges calc st idx ((src, src_idx) # items) =
     rbind (graph_edges_of calc st idx src src_idx
              (case get_connected_peers st src of Some ps \<Rightarrow> ps | None \<Rightarrow> []))
       (\<lambda>es. rmap (append es) (graph_edges calc st idx items))"

definition build_peer_graph_from_synced_info ::
  "(PeerId \<Rightarrow> PeerId \<Rightarrow> 32 word) \<Rightarrow> PeerId \<Rightarrow> 'raw SyncedRouteInfo \<Rightarrow> (PeerGraph \<times> nat) rust" where
  "build_peer_graph_from_synced_info calc my_id st =
     (case add_graph_nodes my_id (sri_peer_infos st) ([], None, []) of
        (nodes, None, idx) \<Rightarrow> Inr (\<lparr>pg_nodes = nodes, pg_edges = []\<rparr>, node_index_end)
      | (nodes, Some start, idx) \<Rightarrow>
          rmap (\<lambda>es. (\<lparr>pg_nodes = nodes, pg_edges = es\<rparr>, start)) (graph_edges calc st idx idx))"

definition clean_expired_route_info :: "'cidr RouteTable \<Rightarrow> 'cidr RouteTable" where
  "clean_expired_route_info rt =
     (let nhm = dm_retain (\<lambda>_ v. nh_version v \<ge> rt_next_hop_map_version rt) (rt_next_hop_map rt)
      in rt\<lparr>rt_next_hop_map := nhm,
            rt_peer_infos := dm_retain (\<lambda>k _. dm_contains nhm k) (rt_peer_infos rt),
            rt_ipv4_peer_id_map := dm_retain (\<lambda>_ v. dm_contains nhm (piv_peer_id v)) (rt_ipv4_peer_id_map rt),
            rt_ipv6_peer_id_map := dm_retain (\<lambda>_ v. dm_contains nhm (piv_peer_id v)) (rt_ipv6_peer_id_map rt),
            rt_cidr_peer_id_map := dm_retain (\<lambda>_ v. dm_contains nhm (piv_peer_id v)) (rt_cidr_peer_id_map rt)\<rparr>)"

section \<open>Next hops\<close>

definition node_weight :: "PeerGraph \<Rightarrow> nat \<Rightarrow> PeerId option" where
  "node_weight g i = (if i < length (pg_nodes g) then Some (pg_nodes g ! i) else None)"

fun insert_next_hops ::
  "PeerGraph \<Rightarrow> (nat, nat) dmap \<Rightarrow> Version \<Rightarrow> (nat, nat \<times> nat) dmap \<Rightarrow> (PeerId, NextHopInfo) dmap
    \<Rightarrow> (PeerId, NextHopInfo) dmap rust" where
  "insert_next_hops g costs version [] m = Inr m"
| "insert_next_hops g costs version ((dst, next_hop, path_len) # items) m =
     rbind (unwrap (node_weight g next_hop)) (\<lambda>hop_id.
     rbind (unwrap (dm_get costs dst)) (\<lambda>cost.
     rbind (unwrap (node_weight g dst)) (\<lambda>dst_id.
       let info = \<lparr>nh_next_hop_peer_id = hop_id, nh_path_latency = of_nat (cost mod AVOID_RELAY_COST),
                   nh_path_len = path_len, nh_version = version\<rparr>
       in insert_next_hops g costs version items
            (dm_upsert dst_id (\<lambda>x. if nh_version x < version then info else x) info m))))"

definition gen_next_hop_map_with_least_cost ::
  "PeerGraph \<Rightarrow> nat \<Rightarrow> Version \<Rightarrow> 'cidr RouteTable \<Rightarrow> 'cidr RouteTable rust" where
  "gen_next_hop_map_with_least_cost g start version rt =
     rbind (dijkstra_with_first_hop (pg_edges g) start) (\<lambda>(costs, next_hops).
       rmap (\<lambda>m. rt\<lparr>rt_next_hop_map := m,
                     rt_next_hop_map_version := fst (set_if_larger (rt_next_hop_map_version rt) version)\<rparr>)
         (insert_next_hops g costs version next_hops (rt_next_hop_map rt)))"

definition normalize_edge_cost :: "nat \<Rightarrow> nat" where
  "normalize_edge_cost w = (if w \<ge> AVOID_RELAY_COST then AVOID_RELAY_COST + 1 else 1)"

definition normalized :: "'n wgraph \<Rightarrow> 'n wgraph" where
  "normalized g = map (\<lambda>(u, v, w). (u, v, normalize_edge_cost w)) g"

fun least_hop_edges :: "('n, nat) dmap \<Rightarrow> 'n wgraph \<Rightarrow> 'n wgraph rust" where
  "least_hop_edges path_len_map [] = Inr []"
| "least_hop_edges path_len_map ((src, tgt, w) # es) =
     (case dm_get path_len_map src of
        None \<Rightarrow> least_hop_edges path_len_map es
      | Some src_path_len \<Rightarrow>
          (case dm_get path_len_map tgt of
             None \<Rightarrow> least_hop_edges path_len_map es
           | Some tgt_path_len \<Rightarrow>
               rbind (checked_add_usize src_path_len (normalize_edge_cost w)) (\<lambda>path_len.
                 rmap (\<lambda>kept. if path_len = tgt_path_len then (src, tgt, w) # kept else kept)
                   (least_hop_edges path_len_map es))))"

definition gen_next_hop_map_with_least_hop ::
  "(nat wgraph \<Rightarrow> nat \<Rightarrow> (nat, nat) dmap) \<Rightarrow> PeerGraph \<Rightarrow> nat \<Rightarrow> Version \<Rightarrow> 'cidr RouteTable
    \<Rightarrow> 'cidr RouteTable rust" where
  "gen_next_hop_map_with_least_hop pg_dijkstra g start version rt =
     (let path_len_map = pg_dijkstra (normalized (pg_edges g)) start
      in rbind (least_hop_edges path_len_map (pg_edges g)) (\<lambda>es.
         rbind (unwrap (if start < length (pg_nodes g) then Some start else None)) (\<lambda>s.
           gen_next_hop_map_with_least_cost \<lparr>pg_nodes = pg_nodes g, pg_edges = es\<rparr> s version rt)))"

section \<open>Address maps\<close>

definition is_new_peer_better ::
  "'cidr RouteTable \<Rightarrow> PeerIdAndVersion \<Rightarrow> NextHopInfo \<Rightarrow> PeerIdAndVersion \<Rightarrow> bool" where
  "is_new_peer_better rt piv new_next_hop old_peer =
     (if piv_version piv > piv_version old_peer then True
      else if piv_peer_id piv = piv_peer_id old_peer then False
      else (case rt_get_next_hop rt (piv_peer_id old_peer) of
              None \<Rightarrow> True
            | Some old_next_hop \<Rightarrow> nh_path_len new_next_hop < nh_path_len old_next_hop))"

definition claim ::
  "'cidr RouteTable \<Rightarrow> PeerIdAndVersion \<Rightarrow> NextHopInfo \<Rightarrow> 'k \<Rightarrow> ('k, PeerIdAndVersion) dmap
    \<Rightarrow> ('k, PeerIdAndVersion) dmap" where
  "claim rt piv nh key m = dm_upsert key (\<lambda>v. if is_new_peer_better rt piv nh v then piv else v) piv m"

fun claim_cidrs ::
  "(string \<Rightarrow> 'cidr option) \<Rightarrow> 'cidr RouteTable \<Rightarrow> PeerIdAndVersion \<Rightarrow> NextHopInfo \<Rightarrow> string list
    \<Rightarrow> ('cidr, PeerIdAndVersion) dmap \<Rightarrow> ('cidr, PeerIdAndVersion) dmap rust" where
  "claim_cidrs parse_cidr rt piv nh [] m = Inr m"
| "claim_cidrs parse_cidr rt piv nh (c # cs) m =
     rbind (unwrap (parse_cidr c)) (\<lambda>cidr. claim_cidrs parse_cidr rt piv nh cs (claim rt piv nh cidr m))"

definition index_peer ::
  "(string \<Rightarrow> 'cidr option) \<Rightarrow> 'raw SyncedRouteInfo \<Rightarrow> Version \<Rightarrow> PeerId \<times> NextHopInfo
    \<Rightarrow> 'cidr RouteTable \<Rightarrow> 'cidr RouteTable rust" where
  "index_peer parse_cidr st version item rt =
     (let (peer_id, nh) = item
      in if nh_version nh < version then Inr rt
         else (case dm_get (sri_peer_infos st) peer_id of
             None \<Rightarrow> Inr rt
           | Some info \<Rightarrow>
               (let piv = \<lparr>piv_peer_id = peer_id, piv_version = version\<rparr>;
                    m4 = (case rpi_ipv4_addr info of None \<Rightarrow> rt_ipv4_peer_id_map rt
                          | Some a \<Rightarrow> claim rt piv nh a (rt_ipv4_peer_id_map rt));
                    m6 = (case Option.bind (rpi_ipv6_addr info) fst of None \<Rightarrow> rt_ipv6_peer_id_map rt
                          | Some a \<Rightarrow> claim rt piv nh a (rt_ipv6_peer_id_map rt))
                in rmap (\<lambda>mc. rt\<lparr>rt_peer_infos := dm_insert peer_id info (rt_peer_infos rt),
                                 rt_ipv4_peer_id_map := m4, rt_ipv6_peer_id_map := m6,
                                 rt_cidr_peer_id_map := mc\<rparr>)
                     (claim_cidrs parse_cidr rt piv nh (rpi_proxy_cidrs info) (rt_cidr_peer_id_map rt)))))"

fun index_peers ::
  "(string \<Rightarrow> 'cidr option) \<Rightarrow> 'raw SyncedRouteInfo \<Rightarrow> Version \<Rightarrow> (PeerId, NextHopInfo) dmap
    \<Rightarrow> 'cidr RouteTable \<Rightarrow> 'cidr RouteTable rust" where
  "index_peers parse_cidr st version [] rt = Inr rt"
| "index_peers parse_cidr st version (item # items) rt =
     rbind (index_peer parse_cidr st version item rt) (index_peers parse_cidr st version items)"

definition build_from_synced_info ::
  "(nat wgraph \<Rightarrow> nat \<Rightarrow> (nat, nat) dmap) \<Rightarrow> (string \<Rightarrow> 'cidr option) \<Rightarrow> (PeerId \<Rightarrow> PeerId \<Rightarrow> 32 word)
    \<Rightarrow> PeerId \<Rightarrow> 'raw SyncedRouteInfo \<Rightarrow> NextHopPolicy \<Rightarrow> 'cidr RouteTable \<Rightarrow> 'cidr RouteTable rust" where
  "build_from_synced_info pg_dijkstra parse_cidr calc my_id st policy rt =
     (let version = sri_version st
      in rbind (build_peer_graph_from_synced_info calc my_id st) (\<lambda>(graph, start_node).
           if pg_nodes graph = [] then Inr rt
           else rbind (case policy of
                  LeastHop \<Rightarrow> gen_next_hop_map_with_least_hop pg_dijkstra graph start_node version rt
                | LeastCost \<Rightarrow> gen_next_hop_map_with_least_cost graph start_node version rt)
                (\<lambda>rt'. index_peers parse_cidr st version (rt_next_hop_map rt') rt')))"

definition get_peer_id_for_proxy ::
  "('cidr \<Rightarrow> u32 \<Rightarrow> bool) \<Rightarrow> 'cidr RouteTable \<Rightarrow> u32 \<Rightarrow> PeerId option" where
  "get_peer_id_for_proxy cidr_contains rt ipv4 =
     map_option (\<lambda>(k, v). piv_peer_id v) (find (\<lambda>(k, v). cidr_contains k ipv4) (rt_cidr_peer_id_map rt))"

end
