(* ===== verification/OspfAddresses.thy ===== *)
theory OspfAddresses
  imports OspfTable
begin

text \<open>
  The address maps of the route table (\<open>src/app/src/peers/peer_ospf_route.rs\<close>): which peer an
  address leads to after \<open>build_from_synced_info\<close>, and what \<open>clean_expired_route_info\<close> keeps.
\<close>

section \<open>Nearest claimant\<close>

definition claims4 :: "'raw SyncedRouteInfo \<Rightarrow> Version \<Rightarrow> u32 \<Rightarrow> PeerId \<times> NextHopInfo \<Rightarrow> bool" where
  "claims4 st version a item \<longleftrightarrow> nh_version (snd item) \<ge> version \<and>
     (\<exists>info. dm_get (sri_peer_infos st) (fst item) = Some info \<and> rpi_ipv4_addr info = Some a)"

definition nearest4 ::
  "'raw SyncedRouteInfo \<Rightarrow> Version \<Rightarrow> u32 \<Rightarrow> (PeerId, NextHopInfo) dmap \<Rightarrow> PeerIdAndVersion option
    \<Rightarrow> PeerIdAndVersion option \<Rightarrow> bool" where
  "nearest4 st version a items old new \<longleftrightarrow>
     (if \<exists>item \<in> set items. claims4 st version a item
      then \<exists>item \<in> set items. claims4 st version a item \<and>
             new = Some \<lparr>piv_peer_id = fst item, piv_version = version\<rparr> \<and>
             (\<forall>other \<in> set items. claims4 st version a other \<longrightarrow> nh_path_len (snd item) \<le> nh_path_len (snd other))
      else new = old)"

lemma index_peer_hops:
  "index_peer parse_cidr st version item rt = Inr rt' \<Longrightarrow> rt_get_next_hop rt' p = rt_get_next_hop rt p"
  by (auto simp: index_peer_def split_beta Let_def rust_Inr rt_get_next_hop_def split: if_splits option.splits)

lemma index_peer_ipv4:
  assumes "index_peer parse_cidr st version item rt = Inr rt'"
  shows "dm_get (rt_ipv4_peer_id_map rt') a =
    (if claims4 st version a item
     then dm_get (claim rt \<lparr>piv_peer_id = fst item, piv_version = version\<rparr> (snd item) a (rt_ipv4_peer_id_map rt)) a
     else dm_get (rt_ipv4_peer_id_map rt) a)"
  using assms
  by (cases item)
    (auto simp: index_peer_def Let_def rust_Inr claims4_def claim_def dm_get_upsert
      split: if_splits option.splits)

lemma nearest4_step:
  assumes near: "nearest4 st version a seen old cur"
    and old: "\<forall>v. old = Some v \<longrightarrow> piv_version v < version"
    and hops: "\<forall>(p, nh) \<in> set seen. nh_version nh \<ge> version \<longrightarrow> rt_get_next_hop rt p = Some nh"
    and new: "fst item \<notin> fst ` set seen"
  shows "nearest4 st version a (seen @ [item]) old
    (if claims4 st version a item
     then Some (case cur of
        None \<Rightarrow> \<lparr>piv_peer_id = fst item, piv_version = version\<rparr>
      | Some v \<Rightarrow> if is_new_peer_better rt \<lparr>piv_peer_id = fst item, piv_version = version\<rparr> (snd item) v
                  then \<lparr>piv_peer_id = fst item, piv_version = version\<rparr> else v)
     else cur)"
proof (cases "claims4 st version a item")
  case False
  then show ?thesis using near by (auto simp: nearest4_def)
next
  case True
  show ?thesis
  proof (cases "\<exists>i \<in> set seen. claims4 st version a i")
    case False
    then have "cur = old" using near by (simp add: nearest4_def)
    then have "(case cur of
        None \<Rightarrow> \<lparr>piv_peer_id = fst item, piv_version = version\<rparr>
      | Some v \<Rightarrow> if is_new_peer_better rt \<lparr>piv_peer_id = fst item, piv_version = version\<rparr> (snd item) v
                  then \<lparr>piv_peer_id = fst item, piv_version = version\<rparr> else v) =
        \<lparr>piv_peer_id = fst item, piv_version = version\<rparr>"
      using old by (auto simp: is_new_peer_better_def split: option.split)
    with True False show ?thesis by (auto simp: nearest4_def)
  next
    case ex: True
    then obtain best where best: "best \<in> set seen" "claims4 st version a best"
      "cur = Some \<lparr>piv_peer_id = fst best, piv_version = version\<rparr>"
      "\<forall>other \<in> set seen. claims4 st version a other \<longrightarrow> nh_path_len (snd best) \<le> nh_path_len (snd other)"
      using near unfolding nearest4_def by auto
    have "rt_get_next_hop rt (fst best) = Some (snd best)"
      using hops best(1,2) by (cases best) (auto simp: claims4_def)
    moreover have "fst item \<noteq> fst best" using new best(1) by blast
    ultimately have better: "is_new_peer_better rt \<lparr>piv_peer_id = fst item, piv_version = version\<rparr> (snd item)
        \<lparr>piv_peer_id = fst best, piv_version = version\<rparr> \<longleftrightarrow> nh_path_len (snd item) < nh_path_len (snd best)"
      by (simp add: is_new_peer_better_def)
    show ?thesis
    proof (cases "nh_path_len (snd item) < nh_path_len (snd best)")
      case lt: True
      with True best(4) show ?thesis
        by (auto simp: nearest4_def best(3) better intro!: bexI [of _ item] intro: order_trans less_imp_le)
    next
      case False
      with True best show ?thesis
        by (auto simp: nearest4_def better intro!: bexI [of _ best])
    qed
  qed
qed

lemma index_peers_nearest4:
  assumes "index_peers parse_cidr st version items rt = Inr rt'"
    and "nearest4 st version a seen old (dm_get (rt_ipv4_peer_id_map rt) a)"
    and "\<forall>v. old = Some v \<longrightarrow> piv_version v < version"
    and "\<forall>(p, nh) \<in> set (seen @ items). nh_version nh \<ge> version \<longrightarrow> rt_get_next_hop rt p = Some nh"
    and "distinct (map fst (seen @ items))"
  shows "nearest4 st version a (seen @ items) old (dm_get (rt_ipv4_peer_id_map rt') a)"
  using assms
proof (induction items arbitrary: rt seen)
  case Nil
  then show ?case by simp
next
  case (Cons item items)
  obtain rt1 where rt1: "index_peer parse_cidr st version item rt = Inr rt1"
    and rest: "index_peers parse_cidr st version items rt1 = Inr rt'"
    using Cons.prems(1) by (auto simp: rust_Inr)
  have "nearest4 st version a (seen @ [item]) old (dm_get (rt_ipv4_peer_id_map rt1) a)"
  proof -
    have near: "nearest4 st version a (seen @ [item]) old
      (if claims4 st version a item
       then Some (case dm_get (rt_ipv4_peer_id_map rt) a of
          None \<Rightarrow> \<lparr>piv_peer_id = fst item, piv_version = version\<rparr>
        | Some v \<Rightarrow> if is_new_peer_better rt \<lparr>piv_peer_id = fst item, piv_version = version\<rparr> (snd item) v
                    then \<lparr>piv_peer_id = fst item, piv_version = version\<rparr> else v)
       else dm_get (rt_ipv4_peer_id_map rt) a)"
      by (rule nearest4_step [OF Cons.prems(2,3)]) (use Cons.prems(4,5) in auto)
    then show ?thesis unfolding index_peer_ipv4 [OF rt1] claim_def dm_get_upsert if_P [OF refl] .
  qed
  moreover have "\<forall>(p, nh) \<in> set ((seen @ [item]) @ items). nh_version nh \<ge> version \<longrightarrow> rt_get_next_hop rt1 p = Some nh"
    using Cons.prems(4) index_peer_hops [OF rt1] by auto
  ultimately show ?case
    using Cons.IH [OF rest, of "seen @ [item]"] Cons.prems(3,5) by simp
qed

text \<open>
  C16. After indexing, an IPv4 address claimed by reachable peers leads to a claimant with the fewest
  hops, and an address nobody reachable claims keeps the entry it had.
\<close>

theorem ipv4_leads_to_nearest_claimant:
  assumes "index_peers parse_cidr st version (rt_next_hop_map rt) rt = Inr rt'"
    and "dm_inv (rt_next_hop_map rt)" and "rt_next_hop_map_version rt = version"
    and "\<forall>v. dm_get (rt_ipv4_peer_id_map rt) a = Some v \<longrightarrow> piv_version v < version"
  shows "nearest4 st version a (rt_next_hop_map rt) (dm_get (rt_ipv4_peer_id_map rt) a)
           (dm_get (rt_ipv4_peer_id_map rt') a)"
proof -
  have "nearest4 st version a ([] @ rt_next_hop_map rt) (dm_get (rt_ipv4_peer_id_map rt) a)
           (dm_get (rt_ipv4_peer_id_map rt') a)"
  proof (rule index_peers_nearest4 [OF assms(1) _ assms(4)])
    show "nearest4 st version a [] (dm_get (rt_ipv4_peer_id_map rt) a) (dm_get (rt_ipv4_peer_id_map rt) a)"
      by (simp add: nearest4_def)
    show "\<forall>(p, nh) \<in> set ([] @ rt_next_hop_map rt). nh_version nh \<ge> version \<longrightarrow> rt_get_next_hop rt p = Some nh"
      using assms(2,3) by (auto simp: rt_get_next_hop_def dm_get_in_set [symmetric])
    show "distinct (map fst ([] @ rt_next_hop_map rt))" using assms(2) by (simp add: dm_inv_def)
  qed
  then show ?thesis by simp
qed

definition example_claim_store :: "PeerId SyncedRouteInfo" where
  "example_claim_store = synced_route_info_new\<lparr>sri_peer_infos :=
     [(2, (example_info 2 1)\<lparr>rpi_ipv4_addr := Some 10\<rparr>), (3, (example_info 3 1)\<lparr>rpi_ipv4_addr := Some 10\<rparr>)]\<rparr>"

definition example_claim_table :: "string RouteTable" where
  "example_claim_table = route_table_new\<lparr>rt_next_hop_map :=
     [(2, \<lparr>nh_next_hop_peer_id = 3, nh_path_latency = 2, nh_path_len = 2, nh_version = 5\<rparr>),
      (3, \<lparr>nh_next_hop_peer_id = 3, nh_path_latency = 1, nh_path_len = 1, nh_version = 5\<rparr>)],
     rt_next_hop_map_version := 5\<rparr>"

theorem ipv4_leads_to_nearest_claimant_witness:
  "\<exists>rt'. index_peers Some example_claim_store 5 (rt_next_hop_map example_claim_table) example_claim_table = Inr rt' \<and>
     nearest4 example_claim_store 5 10 (rt_next_hop_map example_claim_table)
       (dm_get (rt_ipv4_peer_id_map example_claim_table) 10) (dm_get (rt_ipv4_peer_id_map rt') 10)"
proof -
  have "case index_peers Some example_claim_store 5 (rt_next_hop_map example_claim_table) example_claim_table of
      Inl _ \<Rightarrow> False | Inr _ \<Rightarrow> True" by code_simp
  then obtain rt' where run:
    "index_peers Some example_claim_store 5 (rt_next_hop_map example_claim_table) example_claim_table = Inr rt'"
    by (auto split: sum.splits)
  have "nearest4 example_claim_store 5 10 (rt_next_hop_map example_claim_table)
       (dm_get (rt_ipv4_peer_id_map example_claim_table) 10) (dm_get (rt_ipv4_peer_id_map rt') 10)"
    by (rule ipv4_leads_to_nearest_claimant [OF run])
      (simp_all add: example_claim_table_def route_table_new_def dm_inv_def)
  with run show ?thesis by blast
qed

section \<open>Cleaning\<close>

text \<open>
  Cleaning does not change any next hop, and afterwards every peer info and every address entry
  belongs to a reachable peer; nothing that belongs to a reachable peer is dropped.
\<close>

theorem clean_expired_keeps_reachable:
  assumes "dm_inv (rt_next_hop_map rt)" "dm_inv (rt_peer_infos rt)" "dm_inv (rt_ipv4_peer_id_map rt)"
    "dm_inv (rt_ipv6_peer_id_map rt)" "dm_inv (rt_cidr_peer_id_map rt)"
  shows "rt_get_next_hop (clean_expired_route_info rt) p = rt_get_next_hop rt p \<and>
    dm_get (rt_peer_infos (clean_expired_route_info rt)) p =
      (if peer_reachable rt p then dm_get (rt_peer_infos rt) p else None) \<and>
    dm_get (rt_ipv4_peer_id_map (clean_expired_route_info rt)) a =
      Option.bind (dm_get (rt_ipv4_peer_id_map rt) a)
        (\<lambda>v. if peer_reachable rt (piv_peer_id v) then Some v else None) \<and>
    dm_get (rt_ipv6_peer_id_map (clean_expired_route_info rt)) b =
      Option.bind (dm_get (rt_ipv6_peer_id_map rt) b)
        (\<lambda>v. if peer_reachable rt (piv_peer_id v) then Some v else None) \<and>
    dm_get (rt_cidr_peer_id_map (clean_expired_route_info rt)) c =
      Option.bind (dm_get (rt_cidr_peer_id_map rt) c)
        (\<lambda>v. if peer_reachable rt (piv_peer_id v) then Some v else None)"
proof -
  let ?nhm = "dm_retain (\<lambda>_ v. nh_version v \<ge> rt_next_hop_map_version rt) (rt_next_hop_map rt)"
  have hop: "dm_get ?nhm q = rt_get_next_hop rt q" for q
    using assms(1) by (simp add: dm_get_retain rt_get_next_hop_def split: option.split)
  have reach: "dm_contains ?nhm q \<longleftrightarrow> peer_reachable rt q" for q
    by (simp add: dm_contains_def hop peer_reachable_def)
  have "rt_get_next_hop (clean_expired_route_info rt) p = rt_get_next_hop rt p"
    by (auto simp: rt_get_next_hop_def [of "clean_expired_route_info rt"] clean_expired_route_info_def Let_def
        hop rt_get_next_hop_def split: bind_splits)
  then show ?thesis
    using assms(2-5)
    by (simp add: clean_expired_route_info_def Let_def reach dm_get_retain split: option.split)
qed

theorem clean_expired_keeps_reachable_witness:
  "dm_get (rt_peer_infos (clean_expired_route_info example_claim_table)) 2 =
     (if peer_reachable example_claim_table 2 then dm_get (rt_peer_infos example_claim_table) 2 else None)"
proof -
  have "dm_inv (rt_next_hop_map example_claim_table)" "dm_inv (rt_peer_infos example_claim_table)"
    "dm_inv (rt_ipv4_peer_id_map example_claim_table)" "dm_inv (rt_ipv6_peer_id_map example_claim_table)"
    "dm_inv (rt_cidr_peer_id_map example_claim_table)"
    by (simp_all add: example_claim_table_def route_table_new_def dm_inv_def)
  from clean_expired_keeps_reachable [OF this] show ?thesis by blast
qed

end
