(* ===== verification/OspfSession.thy ===== *)
theory OspfSession
  imports OspfTable OspfBitmap
begin

text \<open>
  Sync sessions and the route service of one node: \<open>SyncRouteSession\<close>, \<open>PeerRouteServiceImpl\<close>,
  \<open>RouteSessionManager\<close> and \<open>PeerRoute\<close> of \<open>src/app/src/peers/peer_ospf_route.rs\<close>.

  The code outside the repository is collected in the record \<open>RouteEnv\<close>. The clock
  is the argument \<open>now\<close>, a random session id the argument \<open>rnd\<close>, and what the peer manager reports through
  \<open>RouteInterface\<close> the arguments \<open>peers\<close> and \<open>fns\<close>. Handlers are atomic between two \<open>await\<close> points;
  \<open>sync_route_with_peer\<close> is the pair \<open>sync_route_request\<close> and \<open>sync_route_response\<close> around its remote call. A session object
  is identified by its own random session id, so that a response cannot reach
  a session created later for the same peer.
\<close>

section \<open>Sessions\<close>

record SyncRouteSession =
  ss_my_peer_id :: PeerId
  ss_dst_peer_id :: PeerId
  ss_dst_saved_peer_info_versions :: "(PeerId, Version) dmap"
  ss_dst_saved_conn_bitmap_version :: "(PeerId, Version) dmap"
  ss_dst_saved_foreign_network_versions :: "(ForeignNetworkRouteInfoKey, Version) dmap"
  ss_my_session_id :: u64
  ss_dst_session_id :: u64
  ss_we_are_initiator :: bool
  ss_dst_is_initiator :: bool
  ss_need_sync_initiator_info :: bool
  ss_rpc_tx_count :: u32
  ss_rpc_rx_count :: u32
  ss_task_running :: bool

definition sync_route_session_new :: "u64 \<Rightarrow> PeerId \<Rightarrow> PeerId \<Rightarrow> SyncRouteSession" where
  "sync_route_session_new rnd my_id dst =
     \<lparr>ss_my_peer_id = my_id, ss_dst_peer_id = dst, ss_dst_saved_peer_info_versions = [],
      ss_dst_saved_conn_bitmap_version = [], ss_dst_saved_foreign_network_versions = [],
      ss_my_session_id = rnd, ss_dst_session_id = 0, ss_we_are_initiator = False,
      ss_dst_is_initiator = False, ss_need_sync_initiator_info = False, ss_rpc_tx_count = 0,
      ss_rpc_rx_count = 0, ss_task_running = False\<rparr>"

definition check_saved_peer_info_update_to_date :: "SyncRouteSession \<Rightarrow> PeerId \<Rightarrow> Version \<Rightarrow> bool" where
  "check_saved_peer_info_update_to_date s peer_id version =
     (if version = 0 \<or> peer_id = ss_dst_peer_id s then True
      else (case dm_get (ss_dst_saved_peer_info_versions s) peer_id of Some v \<Rightarrow> v \<ge> version | None \<Rightarrow> False))"

text \<open>\<open>entry(k).or_insert_with(AtomicVersion::new).set_if_larger(v)\<close>\<close>

definition raise_version :: "'k \<Rightarrow> Version \<Rightarrow> ('k, Version) dmap \<Rightarrow> ('k, Version) dmap" where
  "raise_version k v m = dm_upsert k (\<lambda>old. fst (set_if_larger old v)) (fst (set_if_larger 0 v)) m"

definition update_dst_saved_peer_info_version :: "RoutePeerInfo list \<Rightarrow> SyncRouteSession \<Rightarrow> SyncRouteSession" where
  "update_dst_saved_peer_info_version infos s =
     s\<lparr>ss_dst_saved_peer_info_versions :=
        fold (\<lambda>i. raise_version (rpi_peer_id i) (rpi_version i)) infos (ss_dst_saved_peer_info_versions s)\<rparr>"

definition update_dst_saved_conn_bitmap_version :: "RouteConnBitmap \<Rightarrow> SyncRouteSession \<Rightarrow> SyncRouteSession" where
  "update_dst_saved_conn_bitmap_version bm s =
     s\<lparr>ss_dst_saved_conn_bitmap_version :=
        fold (\<lambda>(p, v). raise_version p v) (rcb_peer_ids bm) (ss_dst_saved_conn_bitmap_version s)\<rparr>"

fun save_foreign_versions ::
  "RouteForeignNetworkInfos \<Rightarrow> (ForeignNetworkRouteInfoKey, Version) dmap
    \<Rightarrow> (ForeignNetworkRouteInfoKey, Version) dmap rust" where
  "save_foreign_versions [] m = Inr m"
| "save_foreign_versions ((key, value) # infos) m =
     rbind (unwrap key) (\<lambda>k. rbind (unwrap value) (\<lambda>e.
       save_foreign_versions infos (raise_version k (fne_version e) m)))"

definition update_dst_saved_foreign_network_version ::
  "RouteForeignNetworkInfos \<Rightarrow> SyncRouteSession \<Rightarrow> SyncRouteSession rust" where
  "update_dst_saved_foreign_network_version infos s =
     rmap (\<lambda>m. s\<lparr>ss_dst_saved_foreign_network_versions := m\<rparr>)
       (save_foreign_versions infos (ss_dst_saved_foreign_network_versions s))"

definition update_initiator_flag :: "bool \<Rightarrow> SyncRouteSession \<Rightarrow> SyncRouteSession" where
  "update_initiator_flag is_initiator s =
     s\<lparr>ss_we_are_initiator := is_initiator, ss_need_sync_initiator_info := True\<rparr>"

definition update_dst_session_id :: "u64 \<Rightarrow> SyncRouteSession \<Rightarrow> SyncRouteSession" where
  "update_dst_session_id session_id s =
     (if session_id \<noteq> ss_dst_session_id s
      then s\<lparr>ss_dst_session_id := session_id, ss_dst_saved_conn_bitmap_version := [],
             ss_dst_saved_peer_info_versions := []\<rparr>
      else s)"

section \<open>The service\<close>

text \<open>\<open>NetworkIdentity\<close> is compared and hashed by its name and secret digest only.\<close>

record NetworkIdentity =
  nid_network_name :: string
  nid_network_secret_digest :: "byte list option"

definition network_identity_key ::
  "(string \<Rightarrow> string \<Rightarrow> byte list) \<Rightarrow> string \<Rightarrow> string option \<Rightarrow> byte list option \<Rightarrow> NetworkIdentity" where
  "network_identity_key digest name secret secret_digest =
     (case secret_digest of
        Some d \<Rightarrow> \<lparr>nid_network_name = name, nid_network_secret_digest = Some d\<rparr>
      | None \<Rightarrow>
          (case secret of
             Some s \<Rightarrow> \<lparr>nid_network_name = name, nid_network_secret_digest = Some (digest name s)\<rparr>
           | None \<Rightarrow> \<lparr>nid_network_name = name, nid_network_secret_digest = None\<rparr>))"

record ('raw, 'cidr) RouteEnv =
  env_raw_pid :: "'raw \<Rightarrow> PeerId"
  env_transcode :: "RoutePeerInfo \<Rightarrow> 'raw"
  env_decode :: "'raw \<Rightarrow> RoutePeerInfo"
  env_verify :: "PeerGroupInfo \<Rightarrow> string \<Rightarrow> PeerId \<Rightarrow> bool"
  env_pg_dijkstra :: "nat wgraph \<Rightarrow> nat \<Rightarrow> (nat, nat) dmap"
  env_parse_cidr :: "string \<Rightarrow> 'cidr option"
  env_cidr_contains :: "'cidr \<Rightarrow> u32 \<Rightarrow> bool"
  env_calc :: "PeerId \<Rightarrow> PeerId \<Rightarrow> 32 word"
  env_peerlink_version :: string

record ('raw, 'cidr) PeerRouteServiceImpl =
  srv_my_peer_id :: PeerId
  srv_my_peer_route_id :: u64
  srv_global_ctx :: GlobalCtx
  srv_acl_group_declarations :: "(string \<times> string) list"
  srv_sessions :: "(PeerId, SyncRouteSession) dmap"
  srv_route_table :: "'cidr RouteTable"
  srv_route_table_with_cost :: "'cidr RouteTable"
  srv_foreign_network_owner_map :: "(NetworkIdentity, PeerId list) dmap"
  srv_foreign_network_my_peer_id_map :: "(string \<times> PeerId, PeerId) dmap"
  srv_synced_route_info :: "'raw SyncedRouteInfo"
  srv_cached_local_conn_map :: RouteConnBitmap
  srv_cached_local_conn_map_version :: Version
  srv_last_update_my_foreign_network :: "time option"
  srv_peer_info_last_update :: time

definition peer_route_service_new ::
  "u64 \<Rightarrow> time \<Rightarrow> PeerId \<Rightarrow> GlobalCtx \<Rightarrow> (string \<times> string) list \<Rightarrow> ('raw, 'cidr) PeerRouteServiceImpl" where
  "peer_route_service_new rnd now my_id ctx decls =
     \<lparr>srv_my_peer_id = my_id, srv_my_peer_route_id = rnd, srv_global_ctx = ctx,
      srv_acl_group_declarations = decls, srv_sessions = [], srv_route_table = route_table_new,
      srv_route_table_with_cost = route_table_new, srv_foreign_network_owner_map = [],
      srv_foreign_network_my_peer_id_map = [], srv_synced_route_info = synced_route_info_new,
      srv_cached_local_conn_map = route_conn_bitmap_new, srv_cached_local_conn_map_version = 0,
      srv_last_update_my_foreign_network = None, srv_peer_info_last_update = now\<rparr>"

definition get_or_create_session ::
  "u64 \<Rightarrow> PeerId \<Rightarrow> ('raw, 'cidr) PeerRouteServiceImpl \<Rightarrow> ('raw, 'cidr) PeerRouteServiceImpl" where
  "get_or_create_session rnd dst srv =
     srv\<lparr>srv_sessions := dm_or_insert dst (sync_route_session_new rnd (srv_my_peer_id srv) dst) (srv_sessions srv)\<rparr>"

definition get_session :: "('raw, 'cidr) PeerRouteServiceImpl \<Rightarrow> PeerId \<Rightarrow> SyncRouteSession option" where
  "get_session srv dst = dm_get (srv_sessions srv) dst"

definition remove_session :: "PeerId \<Rightarrow> ('raw, 'cidr) PeerRouteServiceImpl \<Rightarrow> ('raw, 'cidr) PeerRouteServiceImpl" where
  "remove_session dst srv = srv\<lparr>srv_sessions := dm_remove dst (srv_sessions srv)\<rparr>"

definition list_session_peers :: "('raw, 'cidr) PeerRouteServiceImpl \<Rightarrow> PeerId list" where
  "list_session_peers srv = map fst (srv_sessions srv)"

text \<open>Changing the session object a map entry points to.\<close>

definition modify_session ::
  "PeerId \<Rightarrow> (SyncRouteSession \<Rightarrow> SyncRouteSession) \<Rightarrow> ('raw, 'cidr) PeerRouteServiceImpl
    \<Rightarrow> ('raw, 'cidr) PeerRouteServiceImpl" where
  "modify_session dst f srv =
     (case dm_get (srv_sessions srv) dst of
        None \<Rightarrow> srv | Some s \<Rightarrow> srv\<lparr>srv_sessions := dm_insert dst (f s) (srv_sessions srv)\<rparr>)"

definition update_peer_info_last_update ::
  "time \<Rightarrow> ('raw, 'cidr) PeerRouteServiceImpl \<Rightarrow> ('raw, 'cidr) PeerRouteServiceImpl" where
  "update_peer_info_last_update now srv = srv\<lparr>srv_peer_info_last_update := now\<rparr>"

definition update_route_table ::
  "('raw, 'cidr) RouteEnv \<Rightarrow> ('raw, 'cidr) PeerRouteServiceImpl \<Rightarrow> ('raw, 'cidr) PeerRouteServiceImpl rust" where
  "update_route_table env srv =
     (let build = build_from_synced_info (env_pg_dijkstra env) (env_parse_cidr env) (env_calc env)
                    (srv_my_peer_id srv) (srv_synced_route_info srv)
      in rbind (build LeastHop (srv_route_table srv)) (\<lambda>t.
         rmap (\<lambda>tc. srv\<lparr>srv_route_table := t, srv_route_table_with_cost := tc\<rparr>)
           (build LeastCost (srv_route_table_with_cost srv))))"

definition digest_or_default :: "byte list \<Rightarrow> byte list" where
  "digest_or_default d = (if length d = 32 then d else replicate 32 0)"

definition own_foreign_network ::
  "('raw, 'cidr) PeerRouteServiceImpl \<Rightarrow> ForeignNetworkRouteInfoKey \<times> ForeignNetworkRouteInfoEntry
    \<Rightarrow> (NetworkIdentity, PeerId list) dmap \<times> (string \<times> PeerId, PeerId) dmap
    \<Rightarrow> (NetworkIdentity, PeerId list) dmap \<times> (string \<times> PeerId, PeerId) dmap" where
  "own_foreign_network srv item maps =
     (let (key, entry) = item; (owners, ids) = maps
      in if fnk_peer_id key = srv_my_peer_id srv \<or> \<not> peer_reachable (srv_route_table srv) (fnk_peer_id key)
            \<or> fne_foreign_peer_ids entry = []
         then maps
         else (dm_upsert \<lparr>nid_network_name = fnk_network_name key,
                          nid_network_secret_digest = Some (digest_or_default (fne_network_secret_digest entry))\<rparr>
                 (\<lambda>l. l @ [fne_my_peer_id_for_this_network entry]) [fne_my_peer_id_for_this_network entry] owners,
               dm_insert (fnk_network_name key, fne_my_peer_id_for_this_network entry) (fnk_peer_id key) ids))"

definition update_foreign_network_owner_map ::
  "('raw, 'cidr) PeerRouteServiceImpl \<Rightarrow> ('raw, 'cidr) PeerRouteServiceImpl" where
  "update_foreign_network_owner_map srv =
     (let (owners, ids) = fold (own_foreign_network srv) (sri_foreign_network (srv_synced_route_info srv)) ([], [])
      in srv\<lparr>srv_foreign_network_owner_map := owners, srv_foreign_network_my_peer_id_map := ids\<rparr>)"

definition synced_peer_ids ::
  "('raw, 'cidr) PeerRouteServiceImpl \<Rightarrow> (PeerId \<times> Version) list" where
  "synced_peer_ids srv =
     (let conn_map = sri_conn_map (srv_synced_route_info srv);
          all_dst_peer_ids = btree_set (concat (map (\<lambda>(_, peers, _). peers) conn_map))
      in filter (\<lambda>p. fst p \<in> set all_dst_peer_ids \<or> peer_reachable (srv_route_table srv) (fst p))
           (map (\<lambda>(p, _, v). (p, v)) conn_map))"

definition update_route_table_and_cached_local_conn_bitmap ::
  "('raw, 'cidr) RouteEnv \<Rightarrow> time \<Rightarrow> ('raw, 'cidr) PeerRouteServiceImpl \<Rightarrow> ('raw, 'cidr) PeerRouteServiceImpl rust" where
  "update_route_table_and_cached_local_conn_bitmap env now srv =
     rbind (update_route_table env (update_peer_info_last_update now srv)) (\<lambda>srv1.
       let synced_version = sri_version (srv_synced_route_info srv1)
       in rmap (\<lambda>bm.
            let (v, larger) = set_if_larger (srv_cached_local_conn_map_version srv1) synced_version
            in srv1\<lparr>srv_cached_local_conn_map_version := v,
                    srv_cached_local_conn_map := (if larger then bm else srv_cached_local_conn_map srv1)\<rparr>)
          (encode_conn_bitmap (sri_conn_map (srv_synced_route_info srv1)) (synced_peer_ids srv1)))"

definition build_route_info ::
  "('raw, 'cidr) PeerRouteServiceImpl \<Rightarrow> SyncRouteSession \<Rightarrow> RoutePeerInfo list option" where
  "build_route_info srv session =
     (let route_infos = map snd (filter (\<lambda>(k, i).
            \<not> check_saved_peer_info_update_to_date session (rpi_peer_id i) (rpi_version i) \<and>
            peer_reachable (srv_route_table srv) k) (sri_peer_infos (srv_synced_route_info srv)))
      in if route_infos = [] then None else Some route_infos)"

definition build_conn_bitmap ::
  "('raw, 'cidr) PeerRouteServiceImpl \<Rightarrow> SyncRouteSession \<Rightarrow> RouteConnBitmap option" where
  "build_conn_bitmap srv session =
     (if list_ex (\<lambda>(p, local_version).
           case dm_get (ss_dst_saved_conn_bitmap_version session) p of
             None \<Rightarrow> True | Some v \<Rightarrow> v < local_version) (rcb_peer_ids (srv_cached_local_conn_map srv))
      then Some (srv_cached_local_conn_map srv) else None)"

definition build_foreign_network_info ::
  "('raw, 'cidr) PeerRouteServiceImpl \<Rightarrow> SyncRouteSession \<Rightarrow> RouteForeignNetworkInfos option" where
  "build_foreign_network_info srv session =
     (let infos = map (\<lambda>(k, e). (Some k, Some e)) (filter (\<lambda>(k, e).
            fnk_peer_id k \<noteq> ss_dst_peer_id session \<and>
            \<not> (case dm_get (ss_dst_saved_foreign_network_versions session) k of
                 Some v \<Rightarrow> v \<ge> fne_version e | None \<Rightarrow> False))
            (sri_foreign_network (srv_synced_route_info srv)))
      in if infos = [] then None else Some infos)"

definition build_sync_request ::
  "('raw, 'cidr) PeerRouteServiceImpl \<Rightarrow> SyncRouteSession
    \<Rightarrow> RoutePeerInfo list option \<times> RouteConnBitmap option \<times> RouteForeignNetworkInfos option" where
  "build_sync_request srv session =
     (build_route_info srv session, build_conn_bitmap srv session, build_foreign_network_info srv session)"

section \<open>Keeping the node's own information up to date\<close>

definition update_my_peer_info ::
  "('raw, 'cidr) RouteEnv \<Rightarrow> time \<Rightarrow> ('raw, 'cidr) PeerRouteServiceImpl
    \<Rightarrow> (('raw, 'cidr) PeerRouteServiceImpl \<times> bool) rust" where
  "update_my_peer_info env now srv =
     rbind (sri_update_my_peer_info now (srv_my_peer_id srv) (srv_my_peer_route_id srv) (srv_global_ctx srv)
              (srv_synced_route_info srv)) (\<lambda>(st, updated).
       let srv1 = srv\<lparr>srv_synced_route_info := st\<rparr>
       in if updated
          then rmap (\<lambda>srv2. (srv2, True)) (update_route_table_and_cached_local_conn_bitmap env now srv1)
          else Inr (srv1, False))"

definition update_my_conn_info ::
  "('raw, 'cidr) RouteEnv \<Rightarrow> time \<Rightarrow> PeerId list \<Rightarrow> ('raw, 'cidr) PeerRouteServiceImpl
    \<Rightarrow> (('raw, 'cidr) PeerRouteServiceImpl \<times> bool) rust" where
  "update_my_conn_info env now peers srv =
     rbind (sri_update_my_conn_info (env_peerlink_version env) now (srv_my_peer_id srv)
              (btree_set peers) (srv_synced_route_info srv)) (\<lambda>(st, updated).
       let srv1 = srv\<lparr>srv_synced_route_info := st\<rparr>
       in if updated
          then rmap (\<lambda>srv2. (srv2, True)) (update_route_table_and_cached_local_conn_bitmap env now srv1)
          else Inr (srv1, False))"

definition OSPF_UPDATE_MY_GLOBAL_FOREIGN_NETWORK_INTERVAL_SEC :: nat where
  "OSPF_UPDATE_MY_GLOBAL_FOREIGN_NETWORK_INTERVAL_SEC = 10"

definition update_my_foreign_network ::
  "time \<Rightarrow> (ForeignNetworkRouteInfoKey, ForeignNetworkRouteInfoEntry) dmap
    \<Rightarrow> ('raw, 'cidr) PeerRouteServiceImpl \<Rightarrow> (('raw, 'cidr) PeerRouteServiceImpl \<times> bool) rust" where
  "update_my_foreign_network now fns srv =
     (if (case srv_last_update_my_foreign_network srv of
            Some t \<Rightarrow> (now - t) div secs 1 < OSPF_UPDATE_MY_GLOBAL_FOREIGN_NETWORK_INTERVAL_SEC | None \<Rightarrow> False)
      then Inr (srv, False)
      else rmap (\<lambda>(st, updated). (srv\<lparr>srv_last_update_my_foreign_network := Some now,
                                       srv_synced_route_info := st\<rparr>, updated))
             (sri_update_my_foreign_network now (srv_my_peer_id srv) fns (srv_synced_route_info srv)))"

definition update_my_infos ::
  "('raw, 'cidr) RouteEnv \<Rightarrow> time \<Rightarrow> PeerId list \<Rightarrow> (ForeignNetworkRouteInfoKey, ForeignNetworkRouteInfoEntry) dmap
    \<Rightarrow> ('raw, 'cidr) PeerRouteServiceImpl \<Rightarrow> (('raw, 'cidr) PeerRouteServiceImpl \<times> bool) rust" where
  "update_my_infos env now peers fns srv =
     rbind (update_my_peer_info env now srv) (\<lambda>(srv1, info_updated).
     rbind (update_my_conn_info env now peers srv1) (\<lambda>(srv2, conn_updated).
     rbind (update_my_foreign_network now fns srv2) (\<lambda>(srv3, foreign_updated).
       let srv4 = (if conn_updated \<or> info_updated then update_foreign_network_owner_map srv3 else srv3);
           srv5 = (if info_updated then update_peer_info_last_update now srv4 else srv4)
       in Inr (srv5, info_updated \<or> conn_updated \<or> foreign_updated))))"

text \<open>One round of \<open>update_my_peer_info_routine\<close>; \<open>need\<close> is what the cost calculator answers.\<close>

definition update_my_peer_info_round ::
  "('raw, 'cidr) RouteEnv \<Rightarrow> time \<Rightarrow> PeerId list \<Rightarrow> (ForeignNetworkRouteInfoKey, ForeignNetworkRouteInfoEntry) dmap
    \<Rightarrow> bool \<Rightarrow> ('raw, 'cidr) PeerRouteServiceImpl \<Rightarrow> (('raw, 'cidr) PeerRouteServiceImpl \<times> bool) rust" where
  "update_my_peer_info_round env now peers fns need srv =
     rbind (update_my_infos env now peers fns srv) (\<lambda>(srv1, sync_now).
       if need
       then rbind (sri_inc_version (srv_synced_route_info srv1)) (\<lambda>st.
              rmap (\<lambda>srv2. (srv2, sync_now)) (update_route_table env (srv1\<lparr>srv_synced_route_info := st\<rparr>)))
       else Inr (srv1, sync_now))"

definition set_route_cost_fn ::
  "('raw, 'cidr) RouteEnv \<Rightarrow> (PeerId \<Rightarrow> PeerId \<Rightarrow> 32 word) \<Rightarrow> ('raw, 'cidr) PeerRouteServiceImpl
    \<Rightarrow> ('raw, 'cidr) PeerRouteServiceImpl rust" where
  "set_route_cost_fn env cost_fn srv =
     rbind (sri_inc_version (srv_synced_route_info srv)) (\<lambda>st.
       update_route_table (env\<lparr>env_calc := cost_fn\<rparr>) (srv\<lparr>srv_synced_route_info := st\<rparr>))"

fun expired_peers :: "time \<Rightarrow> (PeerId, RoutePeerInfo) dmap \<Rightarrow> PeerId list rust" where
  "expired_peers now [] = Inr []"
| "expired_peers now ((p, i) # infos) =
     rbind (unwrap (rpi_last_update i)) (\<lambda>t.
       rmap (\<lambda>ps. if t \<le> now \<and> now - t > REMOVE_DEAD_PEER_INFO_AFTER then p # ps else ps)
         (expired_peers now infos))"

definition foreign_network_expired :: "time \<Rightarrow> ForeignNetworkRouteInfoEntry \<Rightarrow> bool" where
  "foreign_network_expired now e =
     (case fne_last_update e of
        None \<Rightarrow> True
      | Some t \<Rightarrow> if t \<le> now then now - t > REMOVE_DEAD_PEER_INFO_AFTER else True)"

fun remove_peers :: "PeerId list \<Rightarrow> 'raw SyncedRouteInfo \<Rightarrow> 'raw SyncedRouteInfo rust" where
  "remove_peers [] st = Inr st"
| "remove_peers (p # ps) st = rbind (remove_peer p st) (remove_peers ps)"

definition clear_expired_peer ::
  "time \<Rightarrow> ('raw, 'cidr) PeerRouteServiceImpl \<Rightarrow> ('raw, 'cidr) PeerRouteServiceImpl rust" where
  "clear_expired_peer now srv =
     rbind (expired_peers now (sri_peer_infos (srv_synced_route_info srv))) (\<lambda>dead.
     rmap (\<lambda>st.
       let dead_networks = map fst (filter (\<lambda>(k, e). foreign_network_expired now e) (sri_foreign_network st))
       in srv\<lparr>srv_synced_route_info :=
                st\<lparr>sri_foreign_network := fold dm_remove dead_networks (sri_foreign_network st)\<rparr>,
              srv_route_table := clean_expired_route_info (srv_route_table srv),
              srv_route_table_with_cost := clean_expired_route_info (srv_route_table_with_cost srv)\<rparr>)
     (remove_peers dead (srv_synced_route_info srv)))"

end
