(* ===== verification/OspfService.thy ===== *)
theory OspfService
  imports OspfSession
begin

text \<open>
  The sync protocol between two route services (\<open>sync_route_with_peer\<close> on one side, \<open>sync_route_info\<close>
  on the other), the session manager and the queries of the \<open>Route\<close> trait, all of
  \<open>src/app/src/peers/peer_ospf_route.rs\<close>.

  A request travels as the raw protobuf message \<open>build_sync_route_raw_req\<close> makes; the receiver decodes both its typed view and
  its list of raw peer infos from these bytes, so \<open>SyncRouteInfoRequest\<close> holds the raw peer infos and
  \<open>env_decode\<close> gives the typed ones.
\<close>

section \<open>Messages\<close>

record 'raw SyncRouteInfoRequest =
  rq_my_peer_id :: PeerId
  rq_my_session_id :: u64
  rq_is_initiator :: bool
  rq_peer_infos :: "'raw list option"
  rq_conn_bitmap :: "RouteConnBitmap option"
  rq_foreign_network_infos :: "RouteForeignNetworkInfos option"

record SyncRouteInfoResponse =
  rs_is_initiator :: bool
  rs_session_id :: u64
  rs_error :: "(32 word) option"

definition error_code :: "SyncRouteInfoError \<Rightarrow> 32 word" where
  "error_code e = (case e of DuplicatePeerId \<Rightarrow> 0 | Stopped \<Rightarrow> 1)"

definition build_sync_route_raw_req ::
  "('raw, 'cidr) RouteEnv \<Rightarrow> (PeerId, 'raw) dmap \<Rightarrow> RoutePeerInfo list \<Rightarrow> 'raw list" where
  "build_sync_route_raw_req env raw_peer_infos infos =
     map (\<lambda>i. case dm_get raw_peer_infos (rpi_peer_id i) of Some r \<Rightarrow> r | None \<Rightarrow> env_transcode env i) infos"

section \<open>The sending side\<close>

text \<open>What \<open>sync_route_with_peer\<close> holds across its remote call.\<close>

record PendingSync =
  pd_dst_peer_id :: PeerId
  pd_my_session_id :: u64
  pd_peer_infos :: "RoutePeerInfo list option"
  pd_conn_bitmap :: "RouteConnBitmap option"
  pd_foreign_network :: "RouteForeignNetworkInfos option"

definition sync_route_request ::
  "('raw, 'cidr) RouteEnv \<Rightarrow> PeerId \<Rightarrow> bool \<Rightarrow> ('raw, 'cidr) PeerRouteServiceImpl
    \<Rightarrow> (('raw, 'cidr) PeerRouteServiceImpl \<times> PendingSync \<times> 'raw SyncRouteInfoRequest) option" where
  "sync_route_request env dst sync_as_initiator srv =
     (case get_session srv dst of
        None \<Rightarrow> None
      | Some session \<Rightarrow>
          (let (peer_infos, conn_bitmap, foreign_network) = build_sync_request srv session
           in if peer_infos = None \<and> conn_bitmap = None \<and> foreign_network = None \<and>
                 \<not> ss_need_sync_initiator_info session \<and>
                 \<not> (sync_as_initiator \<and> ss_we_are_initiator session)
              then None
              else Some
                (modify_session dst (\<lambda>s. s\<lparr>ss_need_sync_initiator_info := False\<rparr>) srv,
                 \<lparr>pd_dst_peer_id = dst, pd_my_session_id = ss_my_session_id session, pd_peer_infos = peer_infos,
                  pd_conn_bitmap = conn_bitmap, pd_foreign_network = foreign_network\<rparr>,
                 \<lparr>rq_my_peer_id = srv_my_peer_id srv, rq_my_session_id = ss_my_session_id session,
                  rq_is_initiator = ss_we_are_initiator session,
                  rq_peer_infos = map_option
                    (build_sync_route_raw_req env (sri_raw_peer_infos (srv_synced_route_info srv))) peer_infos,
                  rq_conn_bitmap = conn_bitmap, rq_foreign_network_infos = foreign_network\<rparr>)))"

definition sync_succeeded :: "PendingSync \<Rightarrow> SyncRouteInfoResponse \<Rightarrow> SyncRouteSession \<Rightarrow> SyncRouteSession rust" where
  "sync_succeeded pd resp s =
     (let s1 = update_dst_session_id (rs_session_id resp)
                 (s\<lparr>ss_rpc_tx_count := ss_rpc_tx_count s + 1, ss_dst_is_initiator := rs_is_initiator resp\<rparr>);
          s2 = (case pd_peer_infos pd of Some i \<Rightarrow> update_dst_saved_peer_info_version i s1 | None \<Rightarrow> s1);
          s3 = (case pd_conn_bitmap pd of Some b \<Rightarrow> update_dst_saved_conn_bitmap_version b s2 | None \<Rightarrow> s2)
      in case pd_foreign_network pd of
           Some f \<Rightarrow> update_dst_saved_foreign_network_version f s3 | None \<Rightarrow> Inr s3)"

text \<open>
  The part after the remote call; \<open>ret\<close> is None when the call failed. A session that
  was removed meanwhile is only referenced by the task that is waiting, so nothing of it is left to update.
\<close>

definition sync_route_response ::
  "PendingSync \<Rightarrow> SyncRouteInfoResponse option \<Rightarrow> ('raw, 'cidr) PeerRouteServiceImpl
    \<Rightarrow> ('raw, 'cidr) PeerRouteServiceImpl rust" where
  "sync_route_response pd ret srv =
     (case get_session srv (pd_dst_peer_id pd) of
        None \<Rightarrow> Inr srv
      | Some s \<Rightarrow>
          if ss_my_session_id s \<noteq> pd_my_session_id pd then Inr srv
          else
            (let failed = Inr (s\<lparr>ss_need_sync_initiator_info := True\<rparr>);
                 result = (case ret of
                     None \<Rightarrow> failed
                   | Some resp \<Rightarrow>
                       (case rs_error resp of
                          Some err \<Rightarrow>
                            if err = error_code DuplicatePeerId
                            then if is_public_server (ctx_feature_flags (srv_global_ctx srv)) then Inr s
                                 else Inl ExplicitPanic
                            else failed
                        | None \<Rightarrow> sync_succeeded pd resp s))
             in rmap (\<lambda>s'. modify_session (pd_dst_peer_id pd) (\<lambda>_. s') srv) result))"

text \<open>One inner round of \<open>session_task\<close>: an initiator repeats an empty request when ten seconds have passed.\<close>

definition session_task_round ::
  "('raw, 'cidr) RouteEnv \<Rightarrow> time \<Rightarrow> PeerId \<Rightarrow> time \<Rightarrow> ('raw, 'cidr) PeerRouteServiceImpl
    \<Rightarrow> time \<times> (('raw, 'cidr) PeerRouteServiceImpl \<times> PendingSync \<times> 'raw SyncRouteInfoRequest) option" where
  "session_task_round env now dst last_sync srv =
     (let sync_as_initiator = ((now - last_sync) div secs 1 > 10)
      in (if sync_as_initiator then now else last_sync, sync_route_request env dst sync_as_initiator srv))"

section \<open>The session manager\<close>

text \<open>\<open>service_impl\<close> is what upgrading the manager's weak reference gives.\<close>

definition stop_session ::
  "PeerId \<Rightarrow> ('raw, 'cidr) PeerRouteServiceImpl option
    \<Rightarrow> SyncRouteInfoError + ('raw, 'cidr) PeerRouteServiceImpl" where
  "stop_session peer_id service_impl =
     (case service_impl of None \<Rightarrow> Inl Stopped | Some srv \<Rightarrow> Inr (remove_session peer_id srv))"

definition start_session_task :: "SyncRouteSession \<Rightarrow> SyncRouteSession" where
  "start_session_task s = (if \<not> ss_task_running s then s\<lparr>ss_task_running := True\<rparr> else s)"

definition get_or_start_session ::
  "u64 \<Rightarrow> PeerId \<Rightarrow> ('raw, 'cidr) PeerRouteServiceImpl option
    \<Rightarrow> SyncRouteInfoError + ('raw, 'cidr) PeerRouteServiceImpl" where
  "get_or_start_session rnd peer_id service_impl =
     (case service_impl of
        None \<Rightarrow> Inl Stopped
      | Some srv \<Rightarrow> Inr (modify_session peer_id start_session_task (get_or_create_session rnd peer_id srv)))"

definition stop_unless ::
  "(SyncRouteSession \<Rightarrow> bool) \<Rightarrow> PeerId \<Rightarrow> ('raw, 'cidr) PeerRouteServiceImpl
    \<Rightarrow> ('raw, 'cidr) PeerRouteServiceImpl" where
  "stop_unless keep peer_id srv =
     (case get_session srv peer_id of
        None \<Rightarrow> srv | Some s \<Rightarrow> if keep s then srv else remove_session peer_id srv)"

definition session_needed :: "SyncRouteSession \<Rightarrow> bool" where
  "session_needed s \<longleftrightarrow>
     (ss_dst_is_initiator s \<or> ss_we_are_initiator s \<or> ss_need_sync_initiator_info s) \<and> ss_task_running s"

definition choose_initiator_dst :: "'cidr RouteTable \<Rightarrow> PeerId list \<Rightarrow> PeerId option" where
  "choose_initiator_dst rt candidates =
     (case find (\<lambda>p. get_nat_type rt p \<in> {Some NoPat, Some OpenInternet}) candidates of
        Some p \<Rightarrow> Some p
      | None \<Rightarrow> (case candidates of [] \<Rightarrow> None | p # _ \<Rightarrow> Some p))"

definition switch_initiator ::
  "u64 \<Rightarrow> PeerId \<Rightarrow> PeerId option \<Rightarrow> ('raw, 'cidr) PeerRouteServiceImpl \<Rightarrow> ('raw, 'cidr) PeerRouteServiceImpl" where
  "switch_initiator rnd new cur srv =
     (let srv1 = (case cur of Some p \<Rightarrow> modify_session p (update_initiator_flag False) srv | None \<Rightarrow> srv)
      in case get_or_start_session rnd new (Some srv1) of
           Inl _ \<Rightarrow> srv1 | Inr srv2 \<Rightarrow> modify_session new (update_initiator_flag True) srv2)"

text \<open>One round of \<open>maintain_sessions\<close>; \<open>cur\<close> is its local \<open>cur_dst_peer_id_to_initiate\<close>.\<close>

definition maintain_sessions_round ::
  "u64 \<Rightarrow> PeerId list \<Rightarrow> PeerId option \<times> ('raw, 'cidr) PeerRouteServiceImpl
    \<Rightarrow> PeerId option \<times> ('raw, 'cidr) PeerRouteServiceImpl" where
  "maintain_sessions_round rnd listed st =
     (let (cur, srv) = st; peers = sort listed; session_peers = list_session_peers srv;
          gone = filter (\<lambda>p. p \<notin> set peers) session_peers;
          cur1 = (if cur \<in> Some ` set gone then None else cur);
          srv1 = fold remove_session gone srv;
          candidates = filter (\<lambda>p. case get_session srv1 p of
              None \<Rightarrow> True | Some s \<Rightarrow> \<not> ss_dst_is_initiator s) peers
      in case choose_initiator_dst (srv_route_table srv1) candidates of
           None \<Rightarrow> (cur1, srv1)
         | Some new \<Rightarrow>
             (let srv2 = (if Some new \<noteq> cur1 then switch_initiator rnd new cur1 srv1 else srv1)
              in (Some new, fold (stop_unless session_needed) session_peers srv2)))"

section \<open>The receiving side\<close>

definition receive_peer_infos ::
  "('raw, 'cidr) RouteEnv \<Rightarrow> time \<Rightarrow> PeerId \<Rightarrow> RoutePeerInfo list \<Rightarrow> 'raw list
    \<Rightarrow> ('raw, 'cidr) PeerRouteServiceImpl
    \<Rightarrow> (('raw, 'cidr) PeerRouteServiceImpl \<times> SyncRouteInfoError option) rust" where
  "receive_peer_infos env now from_peer infos raws srv =
     rmap (\<lambda>(st, err).
       case err of
         Some e \<Rightarrow> (srv\<lparr>srv_synced_route_info := st\<rparr>, Some e)
       | None \<Rightarrow>
           (modify_session from_peer (update_dst_saved_peer_info_version infos)
              (srv\<lparr>srv_synced_route_info :=
                 verify_and_update_group_trusts (env_verify env) infos (srv_acl_group_declarations srv) st\<rparr>),
            None))
     (update_peer_infos (env_raw_pid env) now (srv_my_peer_id srv) (srv_my_peer_route_id srv) from_peer
        infos raws (srv_synced_route_info srv))"

definition receive_conn_bitmap ::
  "('raw, 'cidr) RouteEnv \<Rightarrow> time \<Rightarrow> PeerId \<Rightarrow> RouteConnBitmap \<Rightarrow> ('raw, 'cidr) PeerRouteServiceImpl
    \<Rightarrow> ('raw, 'cidr) PeerRouteServiceImpl rust" where
  "receive_conn_bitmap env now from_peer bm srv =
     rmap (\<lambda>st. modify_session from_peer (update_dst_saved_conn_bitmap_version bm)
                  (srv\<lparr>srv_synced_route_info := st\<rparr>))
       (update_conn_map (env_peerlink_version env) now bm (srv_synced_route_info srv))"

definition receive_foreign_network ::
  "time \<Rightarrow> PeerId \<Rightarrow> RouteForeignNetworkInfos \<Rightarrow> ('raw, 'cidr) PeerRouteServiceImpl
    \<Rightarrow> ('raw, 'cidr) PeerRouteServiceImpl rust" where
  "receive_foreign_network now from_peer infos srv =
     (let srv1 = srv\<lparr>srv_synced_route_info := update_foreign_network now infos (srv_synced_route_info srv)\<rparr>
      in case get_session srv1 from_peer of
           None \<Rightarrow> Inr srv1
         | Some s \<Rightarrow> rmap (\<lambda>s'. modify_session from_peer (\<lambda>_. s') srv1)
                       (update_dst_saved_foreign_network_version infos s))"

definition finish_sync_route_info ::
  "('raw, 'cidr) RouteEnv \<Rightarrow> time \<Rightarrow> PeerId \<Rightarrow> bool \<Rightarrow> bool \<Rightarrow> RouteConnBitmap option
    \<Rightarrow> RouteForeignNetworkInfos option \<Rightarrow> ('raw, 'cidr) PeerRouteServiceImpl
    \<Rightarrow> ('raw, 'cidr) PeerRouteServiceImpl rust" where
  "finish_sync_route_info env now from_peer is_initiator infos_received bitmap foreign srv =
     rbind (case bitmap of Some bm \<Rightarrow> receive_conn_bitmap env now from_peer bm srv | None \<Rightarrow> Inr srv) (\<lambda>srv1.
       let need = (infos_received \<or> bitmap \<noteq> None)
       in rbind (if need then update_route_table_and_cached_local_conn_bitmap env now srv1 else Inr srv1) (\<lambda>srv2.
          rbind (case foreign of Some f \<Rightarrow> receive_foreign_network now from_peer f srv2 | None \<Rightarrow> Inr srv2) (\<lambda>srv3.
            let srv4 = (if need \<or> foreign \<noteq> None then update_foreign_network_owner_map srv3 else srv3)
            in Inr (modify_session from_peer (\<lambda>s. s\<lparr>ss_dst_is_initiator := is_initiator\<rparr>) srv4))))"

definition session_response ::
  "PeerId \<Rightarrow> ('raw, 'cidr) PeerRouteServiceImpl \<Rightarrow> SyncRouteInfoResponse rust" where
  "session_response from_peer srv =
     rmap (\<lambda>s. \<lparr>rs_is_initiator = ss_we_are_initiator s, rs_session_id = ss_my_session_id s, rs_error = None\<rparr>)
       (unwrap (get_session srv from_peer))"

definition do_sync_route_info ::
  "('raw, 'cidr) RouteEnv \<Rightarrow> time \<Rightarrow> u64 \<Rightarrow> PeerId \<Rightarrow> u64 \<Rightarrow> bool \<Rightarrow> (RoutePeerInfo list \<times> 'raw list) option
    \<Rightarrow> RouteConnBitmap option \<Rightarrow> RouteForeignNetworkInfos option \<Rightarrow> ('raw, 'cidr) PeerRouteServiceImpl
    \<Rightarrow> (('raw, 'cidr) PeerRouteServiceImpl \<times> (SyncRouteInfoError + SyncRouteInfoResponse)) rust" where
  "do_sync_route_info env now rnd from_peer from_session is_initiator peer_infos bitmap foreign srv =
     (case get_or_start_session rnd from_peer (Some srv) of
        Inl e \<Rightarrow> Inr (srv, Inl e)
      | Inr srv1 \<Rightarrow>
          (let srv2 = modify_session from_peer (\<lambda>s. update_dst_session_id from_session
                        (s\<lparr>ss_rpc_rx_count := ss_rpc_rx_count s + 1\<rparr>)) srv1
           in rbind (case peer_infos of
                       Some (infos, raws) \<Rightarrow> receive_peer_infos env now from_peer infos raws srv2
                     | None \<Rightarrow> Inr (srv2, None)) (\<lambda>(srv3, err).
                case err of
                  Some e \<Rightarrow> Inr (srv3, Inl e)
                | None \<Rightarrow>
                    rbind (finish_sync_route_info env now from_peer is_initiator (peer_infos \<noteq> None) bitmap foreign srv3)
                      (\<lambda>srv4. rmap (\<lambda>resp. (srv4, Inr resp)) (session_response from_peer srv4)))))"

definition sync_route_info ::
  "('raw, 'cidr) RouteEnv \<Rightarrow> time \<Rightarrow> u64 \<Rightarrow> 'raw SyncRouteInfoRequest \<Rightarrow> ('raw, 'cidr) PeerRouteServiceImpl
    \<Rightarrow> (('raw, 'cidr) PeerRouteServiceImpl \<times> SyncRouteInfoResponse) rust" where
  "sync_route_info env now rnd req srv =
     rmap (\<lambda>(srv', ret). (srv', case ret of
             Inr resp \<Rightarrow> resp
           | Inl e \<Rightarrow> \<lparr>rs_is_initiator = False, rs_session_id = 0, rs_error = Some (error_code e)\<rparr>))
     (do_sync_route_info env now rnd (rq_my_peer_id req) (rq_my_session_id req) (rq_is_initiator req)
        (map_option (\<lambda>raws. (map (env_decode env) raws, raws)) (rq_peer_infos req))
        (rq_conn_bitmap req) (rq_foreign_network_infos req) srv)"

section \<open>Queries of the \<open>Route\<close> trait\<close>

definition get_next_hop :: "('raw, 'cidr) PeerRouteServiceImpl \<Rightarrow> PeerId \<Rightarrow> PeerId option" where
  "get_next_hop srv dst = map_option nh_next_hop_peer_id (rt_get_next_hop (srv_route_table srv) dst)"

definition get_next_hop_with_policy ::
  "('raw, 'cidr) PeerRouteServiceImpl \<Rightarrow> PeerId \<Rightarrow> NextHopPolicy \<Rightarrow> PeerId option" where
  "get_next_hop_with_policy srv dst policy =
     map_option nh_next_hop_peer_id (rt_get_next_hop
       (case policy of LeastCost \<Rightarrow> srv_route_table_with_cost srv | LeastHop \<Rightarrow> srv_route_table srv) dst)"

definition get_peer_id_by_ipv4 ::
  "('raw, 'cidr) RouteEnv \<Rightarrow> ('raw, 'cidr) PeerRouteServiceImpl \<Rightarrow> u32 \<Rightarrow> PeerId option" where
  "get_peer_id_by_ipv4 env srv a =
     (case dm_get (rt_ipv4_peer_id_map (srv_route_table srv)) a of
        Some p \<Rightarrow> Some (piv_peer_id p)
      | None \<Rightarrow> get_peer_id_for_proxy (env_cidr_contains env) (srv_route_table srv) a)"

definition get_peer_id_by_ipv6 :: "('raw, 'cidr) PeerRouteServiceImpl \<Rightarrow> 128 word \<Rightarrow> PeerId option" where
  "get_peer_id_by_ipv6 srv a = map_option piv_peer_id (dm_get (rt_ipv6_peer_id_map (srv_route_table srv)) a)"

definition list_foreign_network_info :: "('raw, 'cidr) PeerRouteServiceImpl \<Rightarrow> RouteForeignNetworkInfos" where
  "list_foreign_network_info srv =
     map (\<lambda>(k, e). (Some k, Some e)) (filter (\<lambda>(k, e).
        fne_foreign_peer_ids e \<noteq> [] \<and> peer_reachable (srv_route_table srv) (fnk_peer_id k))
        (sri_foreign_network (srv_synced_route_info srv)))"

definition list_peers_own_foreign_network ::
  "('raw, 'cidr) PeerRouteServiceImpl \<Rightarrow> NetworkIdentity \<Rightarrow> PeerId list" where
  "list_peers_own_foreign_network srv nid =
     (case dm_get (srv_foreign_network_owner_map srv) nid of Some ps \<Rightarrow> ps | None \<Rightarrow> [])"

definition get_origin_my_peer_id ::
  "('raw, 'cidr) PeerRouteServiceImpl \<Rightarrow> string \<Rightarrow> PeerId \<Rightarrow> PeerId option" where
  "get_origin_my_peer_id srv name foreign_my_peer_id =
     dm_get (srv_foreign_network_my_peer_id_map srv) (name, foreign_my_peer_id)"

definition get_peer_info :: "('raw, 'cidr) PeerRouteServiceImpl \<Rightarrow> PeerId \<Rightarrow> RoutePeerInfo option" where
  "get_peer_info srv p = dm_get (rt_peer_infos (srv_route_table srv)) p"

definition get_peer_groups :: "('raw, 'cidr) PeerRouteServiceImpl \<Rightarrow> PeerId \<Rightarrow> string list" where
  "get_peer_groups srv p =
     (case dm_get (sri_group_trust_map_cache (srv_synced_route_info srv)) p of Some g \<Rightarrow> g | None \<Rightarrow> [])"

record Route =
  route_peer_id :: PeerId
  route_ipv4_addr :: "(u32 \<times> u32) option"
  route_next_hop_peer_id :: PeerId
  route_cost :: "32 word"
  route_path_latency :: "32 word"
  route_proxy_cidrs :: "string list"
  route_hostname :: string
  route_udp_nat_type :: NatType
  route_inst_id :: "(128 word) option"
  route_version :: string
  route_feature_flag :: "PeerFeatureFlag option"
  route_next_hop_peer_id_latency_first :: "PeerId option"
  route_cost_latency_first :: "(32 word) option"
  route_path_latency_latency_first :: "(32 word) option"
  route_ipv6_addr :: "((128 word) option \<times> u32) option"

definition route_of_peer_info :: "RoutePeerInfo \<Rightarrow> Route" where
  "route_of_peer_info val =
     \<lparr>route_peer_id = rpi_peer_id val,
      route_ipv4_addr = map_option (\<lambda>a. (a, if rpi_network_length val = 0 then 24 else rpi_network_length val))
                          (rpi_ipv4_addr val),
      route_next_hop_peer_id = 0, route_cost = 0, route_path_latency = 0,
      route_proxy_cidrs = rpi_proxy_cidrs val,
      route_hostname = (case rpi_hostname val of Some h \<Rightarrow> h | None \<Rightarrow> []),
      route_udp_nat_type = (case nat_type_try_from (rpi_udp_stun_info val) of Some t \<Rightarrow> t | None \<Rightarrow> Unknown),
      route_inst_id = rpi_inst_id val, route_version = rpi_peerlink_version val,
      route_feature_flag = rpi_feature_flag val, route_next_hop_peer_id_latency_first = None,
      route_cost_latency_first = None, route_path_latency_latency_first = None,
      route_ipv6_addr = rpi_ipv6_addr val\<rparr>"

definition list_routes :: "('raw, 'cidr) PeerRouteServiceImpl \<Rightarrow> Route list" where
  "list_routes srv =
     concat (map (\<lambda>(p, info).
       if p = srv_my_peer_id srv then []
       else case rt_get_next_hop (srv_route_table srv) p of
         None \<Rightarrow> []
       | Some nh \<Rightarrow>
           (let lf = rt_get_next_hop (srv_route_table_with_cost srv) p
            in [(route_of_peer_info info)\<lparr>route_next_hop_peer_id := nh_next_hop_peer_id nh,
                   route_cost := of_nat (nh_path_len nh), route_path_latency := nh_path_latency nh,
                   route_next_hop_peer_id_latency_first := map_option nh_next_hop_peer_id lf,
                   route_cost_latency_first := map_option (\<lambda>x. of_nat (nh_path_len x)) lf,
                   route_path_latency_latency_first := map_option nh_path_latency lf\<rparr>]))
       (rt_peer_infos (srv_route_table srv)))"

record ForeignNetworkSummary =
  fns_peer_id :: PeerId
  fns_network_count :: u32
  fns_peer_count :: u32

fun foreign_network_summary ::
  "(ForeignNetworkRouteInfoKey, ForeignNetworkRouteInfoEntry) dmap \<Rightarrow> (PeerId, ForeignNetworkSummary) dmap
    \<Rightarrow> (PeerId, ForeignNetworkSummary) dmap rust" where
  "foreign_network_summary [] info_map = Inr info_map"
| "foreign_network_summary ((key, value) # items) info_map =
     (let old = (case dm_get info_map (fnk_peer_id key) of
                   Some i \<Rightarrow> i | None \<Rightarrow> \<lparr>fns_peer_id = 0, fns_network_count = 0, fns_peer_count = 0\<rparr>)
      in rbind (checked_add (fns_network_count old) 1) (\<lambda>networks.
         rbind (checked_add (fns_peer_count old) (of_nat (length (fne_foreign_peer_ids value)))) (\<lambda>peers.
           foreign_network_summary items (dm_insert (fnk_peer_id key)
             (old\<lparr>fns_network_count := networks, fns_peer_count := peers\<rparr>) info_map))))"

definition get_foreign_network_summary ::
  "('raw, 'cidr) PeerRouteServiceImpl \<Rightarrow> (PeerId, ForeignNetworkSummary) dmap rust" where
  "get_foreign_network_summary srv = foreign_network_summary (sri_foreign_network (srv_synced_route_info srv)) []"

end
