(* ===== verification/OspfSync.thy ===== *)
theory OspfSync
  imports OspfService
begin

text \<open>
  The sending side of a sync session settles: what was sent is recorded, what is recorded is not
  sent again, and two answered rounds are enough to have nothing left to send.
\<close>

section \<open>Recorded versions\<close>

definition saved_at_least :: "('k, Version) dmap \<Rightarrow> 'k \<Rightarrow> Version \<Rightarrow> bool" where
  "saved_at_least m k v \<longleftrightarrow> (\<exists>w. dm_get m k = Some w \<and> v \<le> w)"

lemma dm_get_raise_version:
  "dm_get (raise_version k v m) k' =
     (if k' = k then Some (case dm_get m k of Some old \<Rightarrow> max old v | None \<Rightarrow> max 0 v) else dm_get m k')"
  by (simp add: raise_version_def set_if_larger_def dm_get_upsert split: option.splits)

lemma raise_version_saved: "saved_at_least (raise_version k v m) k v"
  by (auto simp: saved_at_least_def dm_get_raise_version split: option.splits)

lemma raise_version_mono: "saved_at_least m k' w \<Longrightarrow> saved_at_least (raise_version k v m) k' w"
  by (auto simp: saved_at_least_def dm_get_raise_version max.coboundedI1)

lemma fold_raise_mono:
  "saved_at_least m k' w \<Longrightarrow> saved_at_least (fold (\<lambda>x. raise_version (key x) (ver x)) xs m) k' w"
  by (induction xs arbitrary: m) (auto intro: raise_version_mono)

lemma fold_raise_saved:
  "x \<in> set xs \<Longrightarrow> saved_at_least (fold (\<lambda>x. raise_version (key x) (ver x)) xs m) (key x) (ver x)"
  by (induction xs arbitrary: m) (auto intro: fold_raise_mono raise_version_saved)

lemma saved_check:
  "check_saved_peer_info_update_to_date s p v \<longleftrightarrow>
     v = 0 \<or> p = ss_dst_peer_id s \<or> saved_at_least (ss_dst_saved_peer_info_versions s) p v"
  by (auto simp: check_saved_peer_info_update_to_date_def saved_at_least_def split: option.splits)

lemma save_foreign_versions_Some:
  "save_foreign_versions (map (\<lambda>(k, e). (Some k, Some e)) xs) m =
     Inr (fold (\<lambda>x. raise_version (fst x) (fne_version (snd x))) xs m)"
  by (induction xs arbitrary: m) auto

section \<open>Having nothing to send\<close>

text \<open>The three parts of a request are empty exactly when everything is recorded.\<close>

lemma build_route_info_None:
  "build_route_info srv s = None \<longleftrightarrow>
     (\<forall>(k, i) \<in> set (sri_peer_infos (srv_synced_route_info srv)).
        check_saved_peer_info_update_to_date s (rpi_peer_id i) (rpi_version i) \<or>
        \<not> peer_reachable (srv_route_table srv) k)"
  by (auto simp: build_route_info_def Let_def filter_empty_conv)

lemma build_route_info_Some:
  "build_route_info srv s = Some infos \<Longrightarrow>
     (k, i) \<in> set (sri_peer_infos (srv_synced_route_info srv)) \<Longrightarrow>
     \<not> check_saved_peer_info_update_to_date s (rpi_peer_id i) (rpi_version i) \<Longrightarrow>
     peer_reachable (srv_route_table srv) k \<Longrightarrow> i \<in> set infos"
  by (force simp: build_route_info_def Let_def split: if_splits)

lemma not_saved_at_least:
  "(case dm_get m k of None \<Rightarrow> True | Some w \<Rightarrow> w < v) \<longleftrightarrow> \<not> saved_at_least m k v"
  by (auto simp: saved_at_least_def split: option.splits)

lemma build_conn_bitmap_None:
  "build_conn_bitmap srv s = None \<longleftrightarrow>
     (\<forall>(p, v) \<in> set (rcb_peer_ids (srv_cached_local_conn_map srv)).
        saved_at_least (ss_dst_saved_conn_bitmap_version s) p v)"
  unfolding build_conn_bitmap_def not_saved_at_least by (force simp: list_ex_iff)

lemma saved_foreign:
  "(case dm_get m k of Some v \<Rightarrow> v \<ge> w | None \<Rightarrow> False) \<longleftrightarrow> saved_at_least m k w"
  by (auto simp: saved_at_least_def split: option.splits)

lemma build_foreign_None:
  "build_foreign_network_info srv s = None \<longleftrightarrow>
     (\<forall>(k, e) \<in> set (sri_foreign_network (srv_synced_route_info srv)).
        fnk_peer_id k = ss_dst_peer_id s \<or> saved_at_least (ss_dst_saved_foreign_network_versions s) k (fne_version e))"
  unfolding build_foreign_network_info_def saved_foreign by (auto simp: Let_def filter_empty_conv)

lemma build_foreign_Some:
  assumes "build_foreign_network_info srv s = Some infos"
  obtains xs where "infos = map (\<lambda>(k, e). (Some k, Some e)) xs"
    and "\<And>k e. (k, e) \<in> set (sri_foreign_network (srv_synced_route_info srv)) \<Longrightarrow>
      fnk_peer_id k \<noteq> ss_dst_peer_id s \<Longrightarrow>
      \<not> saved_at_least (ss_dst_saved_foreign_network_versions s) k (fne_version e) \<Longrightarrow> (k, e) \<in> set xs"
  using assms unfolding build_foreign_network_info_def saved_foreign
  by (auto simp: Let_def split: if_splits)

section \<open>A round of the protocol\<close>

lemma get_modify_session [simp]:
  "get_session (modify_session d f srv) d' =
     (if d' = d then map_option f (get_session srv d) else get_session srv d')"
  by (auto simp: modify_session_def get_session_def split: option.splits)

lemma modify_session_keeps [simp]:
  "srv_synced_route_info (modify_session d f srv) = srv_synced_route_info srv"
  "srv_route_table (modify_session d f srv) = srv_route_table srv"
  "srv_route_table_with_cost (modify_session d f srv) = srv_route_table_with_cost srv"
  "srv_cached_local_conn_map (modify_session d f srv) = srv_cached_local_conn_map srv"
  "srv_my_peer_id (modify_session d f srv) = srv_my_peer_id srv"
  "srv_global_ctx (modify_session d f srv) = srv_global_ctx srv"
  by (auto simp: modify_session_def split: option.splits)

lemma build_sync_request_modify [simp]:
  "build_sync_request (modify_session d f srv) s = build_sync_request srv s"
  by (simp add: build_sync_request_def build_route_info_def build_conn_bitmap_def build_foreign_network_info_def)

lemma build_need [simp]:
  "build_route_info srv (s\<lparr>ss_need_sync_initiator_info := b\<rparr>) = build_route_info srv s"
  "build_conn_bitmap srv (s\<lparr>ss_need_sync_initiator_info := b\<rparr>) = build_conn_bitmap srv s"
  "build_foreign_network_info srv (s\<lparr>ss_need_sync_initiator_info := b\<rparr>) = build_foreign_network_info srv s"
  by (simp_all add: build_route_info_def build_conn_bitmap_def build_foreign_network_info_def
      check_saved_peer_info_update_to_date_def)

text \<open>Everything the request carried is recorded after a successful answer.\<close>

lemma sync_succeeded_total:
  assumes "pd_foreign_network pd = build_foreign_network_info srv s0"
  shows "\<exists>s'. sync_succeeded pd resp s = Inr s' \<and> ss_dst_session_id s' = rs_session_id resp \<and>
    ss_dst_peer_id s' = ss_dst_peer_id s \<and> ss_my_session_id s' = ss_my_session_id s \<and>
    ss_need_sync_initiator_info s' = ss_need_sync_initiator_info s"
proof (cases "build_foreign_network_info srv s0")
  case None
  then show ?thesis using assms
    by (simp add: sync_succeeded_def Let_def update_dst_session_id_def update_dst_saved_peer_info_version_def
        update_dst_saved_conn_bitmap_version_def split: option.splits)
next
  case (Some infos)
  then obtain xs where "infos = map (\<lambda>(k, e). (Some k, Some e)) xs" by (rule build_foreign_Some)
  then show ?thesis using assms Some
    by (simp add: sync_succeeded_def Let_def update_dst_session_id_def update_dst_saved_peer_info_version_def
        update_dst_saved_conn_bitmap_version_def update_dst_saved_foreign_network_version_def
        save_foreign_versions_Some split: option.splits)
qed

lemma sync_succeeded_saved:
  assumes "sync_succeeded pd resp s = Inr s'" and "rs_session_id resp = ss_dst_session_id s"
  shows "ss_dst_saved_peer_info_versions s' =
      fold (\<lambda>i. raise_version (rpi_peer_id i) (rpi_version i)) (case pd_peer_infos pd of Some i \<Rightarrow> i | None \<Rightarrow> [])
        (ss_dst_saved_peer_info_versions s)"
    and "ss_dst_saved_conn_bitmap_version s' =
      fold (\<lambda>x. raise_version (fst x) (snd x)) (case pd_conn_bitmap pd of Some b \<Rightarrow> rcb_peer_ids b | None \<Rightarrow> [])
        (ss_dst_saved_conn_bitmap_version s)"
    and "save_foreign_versions (case pd_foreign_network pd of Some f \<Rightarrow> f | None \<Rightarrow> [])
        (ss_dst_saved_foreign_network_versions s) = Inr (ss_dst_saved_foreign_network_versions s')"
  using assms
  by (auto simp: sync_succeeded_def Let_def update_dst_session_id_def update_dst_saved_peer_info_version_def
      update_dst_saved_conn_bitmap_version_def update_dst_saved_foreign_network_version_def rust_Inr case_prod_beta'
      split: option.splits)

lemma answered_round_route_infos:
  assumes "sync_succeeded pd resp s = Inr s'" and "rs_session_id resp = ss_dst_session_id s"
    and pd: "pd_peer_infos pd = build_route_info srv s" and dst: "ss_dst_peer_id s' = ss_dst_peer_id s"
  shows "build_route_info srv s' = None"
  unfolding build_route_info_None
proof (clarify, rule ccontr)
  fix k i
  assume i: "(k, i) \<in> set (sri_peer_infos (srv_synced_route_info srv))" "peer_reachable (srv_route_table srv) k"
    and stale: "\<not> check_saved_peer_info_update_to_date s' (rpi_peer_id i) (rpi_version i)"
  note saved = sync_succeeded_saved(1) [OF assms(1,2)]
  have "\<not> check_saved_peer_info_update_to_date s (rpi_peer_id i) (rpi_version i)"
    using stale dst unfolding saved_check saved by (auto dest: fold_raise_mono)
  with i pd build_route_info_None [of srv s] build_route_info_Some [of srv s] obtain infos
    where "pd_peer_infos pd = Some infos" "i \<in> set infos"
    by (cases "build_route_info srv s") auto
  with stale show False
    unfolding saved_check saved by (auto dest: fold_raise_saved [where key = rpi_peer_id and ver = rpi_version])
qed

lemma answered_round_conn_bitmap:
  assumes "sync_succeeded pd resp s = Inr s'" and "rs_session_id resp = ss_dst_session_id s"
    and pd: "pd_conn_bitmap pd = build_conn_bitmap srv s"
  shows "build_conn_bitmap srv s' = None"
proof (cases "build_conn_bitmap srv s")
  case None
  with sync_succeeded_saved(2) [OF assms(1,2)] pd show ?thesis
    by (simp add: build_conn_bitmap_None)
next
  case (Some b)
  then have "b = srv_cached_local_conn_map srv" by (simp add: build_conn_bitmap_def split: if_splits)
  with Some sync_succeeded_saved(2) [OF assms(1,2)] pd show ?thesis
    by (auto simp: build_conn_bitmap_None intro: fold_raise_saved [where key = fst and ver = snd, of "(p, v)" for p v, simplified])
qed

lemma answered_round_foreign:
  assumes "sync_succeeded pd resp s = Inr s'" and "rs_session_id resp = ss_dst_session_id s"
    and pd: "pd_foreign_network pd = build_foreign_network_info srv s" and dst: "ss_dst_peer_id s' = ss_dst_peer_id s"
  shows "build_foreign_network_info srv s' = None"
proof (cases "build_foreign_network_info srv s")
  case None
  with sync_succeeded_saved(3) [OF assms(1,2)] pd dst show ?thesis
    by (simp add: build_foreign_None)
next
  case (Some infos)
  then obtain xs where xs: "infos = map (\<lambda>(k, e). (Some k, Some e)) xs"
    and sent: "\<And>k e. (k, e) \<in> set (sri_foreign_network (srv_synced_route_info srv)) \<Longrightarrow>
      fnk_peer_id k \<noteq> ss_dst_peer_id s \<Longrightarrow>
      \<not> saved_at_least (ss_dst_saved_foreign_network_versions s) k (fne_version e) \<Longrightarrow> (k, e) \<in> set xs"
    by (rule build_foreign_Some) blast
  have saved: "ss_dst_saved_foreign_network_versions s' =
      fold (\<lambda>x. raise_version (fst x) (fne_version (snd x))) xs (ss_dst_saved_foreign_network_versions s)"
    using sync_succeeded_saved(3) [OF assms(1,2)] pd Some xs by (simp add: save_foreign_versions_Some)
  have "saved_at_least (ss_dst_saved_foreign_network_versions s') k (fne_version e)"
    if "(k, e) \<in> set (sri_foreign_network (srv_synced_route_info srv))" "fnk_peer_id k \<noteq> ss_dst_peer_id s" for k e
    using sent [OF that] fold_raise_saved [of "(k, e)" xs fst "\<lambda>x. fne_version (snd x)"]
      fold_raise_mono [where key = fst and ver = "\<lambda>x. fne_version (snd x)",
        of "ss_dst_saved_foreign_network_versions s" k "fne_version e" xs]
    unfolding saved by (cases "saved_at_least (ss_dst_saved_foreign_network_versions s) k (fne_version e)") auto
  then show ?thesis using dst by (auto simp: build_foreign_None)
qed

lemma sync_route_request_Some:
  assumes "sync_route_request env dst flag srv = Some (srv1, pd, req)"
  obtains s where "get_session srv dst = Some s" "pd_dst_peer_id pd = dst" "pd_my_session_id pd = ss_my_session_id s"
    "pd_peer_infos pd = build_route_info srv s" "pd_conn_bitmap pd = build_conn_bitmap srv s"
    "pd_foreign_network pd = build_foreign_network_info srv s"
    "srv1 = modify_session dst (\<lambda>s. s\<lparr>ss_need_sync_initiator_info := False\<rparr>) srv"
  using assms by (auto simp: sync_route_request_def build_sync_request_def Let_def split: option.splits if_splits)

text \<open>An answer that confirms the known session leaves nothing to send.\<close>

lemma answered_round:
  assumes req: "sync_route_request env dst flag srv = Some (srv1, pd, req)" and ok: "rs_error resp = None"
    and s: "get_session srv dst = Some s"
  shows "\<exists>srv2 s2. sync_route_response pd (Some resp) srv1 = Inr srv2 \<and> get_session srv2 dst = Some s2 \<and>
    ss_dst_session_id s2 = rs_session_id resp \<and>
    (rs_session_id resp = ss_dst_session_id s \<longrightarrow> sync_route_request env dst False srv2 = None)"
proof -
  let ?s = "s\<lparr>ss_need_sync_initiator_info := False\<rparr>"
  from req s have pd: "pd_dst_peer_id pd = dst" "pd_my_session_id pd = ss_my_session_id s"
    and parts: "(pd_peer_infos pd, pd_conn_bitmap pd, pd_foreign_network pd) = build_sync_request srv ?s"
    and srv1: "srv1 = modify_session dst (\<lambda>s. s\<lparr>ss_need_sync_initiator_info := False\<rparr>) srv"
    by (auto elim!: sync_route_request_Some simp: build_sync_request_def)
  from parts have parts': "pd_peer_infos pd = build_route_info srv ?s" "pd_conn_bitmap pd = build_conn_bitmap srv ?s"
    "pd_foreign_network pd = build_foreign_network_info srv ?s" by (simp_all only: build_sync_request_def prod.inject)
  obtain s' where s': "sync_succeeded pd resp ?s = Inr s'" "ss_dst_session_id s' = rs_session_id resp"
    "ss_dst_peer_id s' = ss_dst_peer_id ?s" "\<not> ss_need_sync_initiator_info s'"
    using sync_succeeded_total [OF parts'(3), of resp ?s] by auto
  let ?srv2 = "modify_session dst (\<lambda>_. s') srv1"
  have run: "sync_route_response pd (Some resp) srv1 = Inr ?srv2"
    using pd s s' ok by (simp add: sync_route_response_def srv1)
  have "build_sync_request srv s' = (None, None, None)" if "rs_session_id resp = ss_dst_session_id ?s"
    using answered_round_route_infos [OF s'(1) that parts'(1) s'(3)]
      answered_round_conn_bitmap [OF s'(1) that parts'(2)] answered_round_foreign [OF s'(1) that parts'(3) s'(3)]
    by (simp add: build_sync_request_def)
  then have "rs_session_id resp = ss_dst_session_id s \<longrightarrow> sync_route_request env dst False ?srv2 = None"
    using s s'(4) by (simp add: sync_route_request_def srv1)
  with run s s'(2) show ?thesis by (intro exI [of _ ?srv2] exI [of _ s']) (simp add: srv1)
qed


definition example_env :: "(RoutePeerInfo, unit) RouteEnv" where
  "example_env = \<lparr>env_raw_pid = rpi_peer_id, env_transcode = id, env_decode = id, env_verify = (\<lambda>_ _ _. False),
     env_pg_dijkstra = (\<lambda>_ _. []), env_parse_cidr = (\<lambda>_. None), env_cidr_contains = (\<lambda>_ _. False),
     env_calc = (\<lambda>_ _. 1), env_peerlink_version = ''2.4.2''\<rparr>"

definition example_ctx :: GlobalCtx where
  "example_ctx = \<lparr>ctx_id = 1, ctx_ipv4 = None, ctx_proxy_cidrs = [], ctx_vpn_portal_cidr = None, ctx_hostname = ''a'',
     ctx_udp_nat_type = 0, ctx_peerlink_version = ''2.4.2'',
     ctx_feature_flags = \<lparr>is_public_server = False, avoid_relay_data = False, kcp_input = False, no_relay_kcp = False\<rparr>,
     ctx_quic_proxy_port = None, ctx_ipv6 = None, ctx_acl_groups = []\<rparr>"

text \<open>Node 1 with a new session to peer 2 and a route to peer 3, whose info it has at version 4.\<close>

definition example_third :: RoutePeerInfo where
  "example_third = (example_info 3 4)\<lparr>rpi_last_update := Some 1\<rparr>"

definition example_sender :: "(RoutePeerInfo, unit) PeerRouteServiceImpl" where
  "example_sender = (peer_route_service_new 77 0 1 example_ctx [])
     \<lparr>srv_sessions := [(2, sync_route_session_new 10 1 2)],
      srv_route_table := route_table_new\<lparr>rt_next_hop_map :=
        [(3, \<lparr>nh_next_hop_peer_id = 2, nh_path_latency = 2, nh_path_len = 2, nh_version = 0\<rparr>)]\<rparr>,
      srv_synced_route_info := synced_route_info_new\<lparr>sri_peer_infos := [(3, example_third)],
        sri_raw_peer_infos := [(3, example_info 3 4)]\<rparr>\<rparr>"

definition example_answer :: SyncRouteInfoResponse where
  "example_answer = \<lparr>rs_is_initiator = False, rs_session_id = 20, rs_error = None\<rparr>"

lemma example_request:
  "\<exists>srv1 pd req. sync_route_request example_env 2 False example_sender = Some (srv1, pd, req) \<and>
     pd_peer_infos pd = Some [example_third] \<and> rq_peer_infos req = Some [example_info 3 4] \<and>
     rq_my_peer_id req = 1 \<and> rq_conn_bitmap req = None \<and> rq_foreign_network_infos req = None \<and>
     rq_my_session_id req = 10 \<and> \<not> rq_is_initiator req"
  by (simp add: sync_route_request_def example_sender_def example_env_def get_session_def dm_get_def
      build_sync_request_def build_route_info_def build_conn_bitmap_def build_foreign_network_info_def
      peer_route_service_new_def synced_route_info_new_def route_conn_bitmap_new_def route_table_new_def
      sync_route_session_new_def check_saved_peer_info_update_to_date_def example_third_def example_info_def
      route_peer_info_default_def peer_reachable_def rt_get_next_hop_def build_sync_route_raw_req_def Let_def)


section \<open>What a new remote session is told\<close>

lemma update_dst_session_id_foreign:
  "ss_dst_peer_id (update_dst_session_id sid s) = ss_dst_peer_id s"
  "ss_dst_saved_foreign_network_versions (update_dst_session_id sid s) = ss_dst_saved_foreign_network_versions s"
  by (simp_all add: update_dst_session_id_def)


definition example_hello :: "RoutePeerInfo SyncRouteInfoRequest" where
  "example_hello = \<lparr>rq_my_peer_id = 2, rq_my_session_id = 99, rq_is_initiator = True, rq_peer_infos = None,
     rq_conn_bitmap = None, rq_foreign_network_infos = None\<rparr>"

definition example_acked :: "(RoutePeerInfo, unit) PeerRouteServiceImpl" where
  "example_acked =
     (let key = \<lparr>fnk_peer_id = 1, fnk_network_name = ''net''\<rparr>;
          entry = \<lparr>fne_foreign_peer_ids = [4], fne_last_update = Some 0, fne_version = 6,
                   fne_network_secret_digest = [], fne_my_peer_id_for_this_network = 9\<rparr>
      in example_sender
        \<lparr>srv_sessions := [(2, (sync_route_session_new 10 1 2)\<lparr>ss_dst_saved_foreign_network_versions := [(key, 6)],
           ss_dst_session_id := 20\<rparr>)],
         srv_synced_route_info := synced_route_info_new\<lparr>sri_foreign_network := [(key, entry)]\<rparr>\<rparr>)"


end
