(* ===== verification/Paths.thy ===== *)
theory Paths
  imports GraphAlgo
begin

text \<open>
  Paths as lists of edges, for statements that compare two costs of one path: the weight
  of the links and the normalised cost that counts hops (\<open>normalize_edge_cost\<close> in
  \<open>src/app/src/peers/peer_ospf_route.rs\<close>). A general fact on tight edges: under any second cost
  the paths built from tight edges are exactly the paths that are optimal for it.
\<close>

section \<open>Paths\<close>

fun is_path :: "'n wgraph \<Rightarrow> 'n \<Rightarrow> 'n wgraph \<Rightarrow> 'n \<Rightarrow> bool" where
  "is_path g s [] v \<longleftrightarrow> s = v"
| "is_path g s (e # es) v \<longleftrightarrow> e \<in> set g \<and> fst e = s \<and> is_path g (fst (snd e)) es v"

definition cost_by :: "(nat \<Rightarrow> nat) \<Rightarrow> 'n wgraph \<Rightarrow> nat" where
  "cost_by f es = sum_list (map (\<lambda>(u, v, w). f w) es)"

abbreviation path_cost :: "'n wgraph \<Rightarrow> nat" where
  "path_cost \<equiv> cost_by (\<lambda>w. w)"

lemma cost_by_simps [simp]:
  "cost_by f [] = 0" "cost_by f ((u, v, w) # es) = f w + cost_by f es"
  "cost_by f (es @ fs) = cost_by f es + cost_by f fs"
  by (simp_all add: cost_by_def)

lemma is_path_append: "is_path g s (es @ fs) v \<longleftrightarrow> (\<exists>u. is_path g s es u \<and> is_path g u fs v)"
  by (induction es arbitrary: s) auto

lemma is_path_snoc: "is_path g s (es @ [(u, v, w)]) t \<longleftrightarrow> is_path g s es u \<and> (u, v, w) \<in> set g \<and> t = v"
  by (auto simp: is_path_append)

lemma is_path_mono: "is_path g s es v \<Longrightarrow> set g \<subseteq> set g' \<Longrightarrow> is_path g' s es v"
  by (induction es arbitrary: s) auto

lemma is_path_edges: "is_path g s es v \<Longrightarrow> set es \<subseteq> set g"
  by (induction es arbitrary: s) auto

lemma walk_path: "walk g s c n v \<longleftrightarrow> (\<exists>es. is_path g s es v \<and> path_cost es = c \<and> length es = n)"
proof
  assume "walk g s c n v"
  then show "\<exists>es. is_path g s es v \<and> path_cost es = c \<and> length es = n"
  proof (induction rule: walk.induct)
    case walk_nil
    then show ?case by (intro exI [of _ "[]"]) simp
  next
    case (walk_snoc c n u v w)
    then obtain es where "is_path g s es u \<and> path_cost es = c \<and> length es = n" by blast
    with walk_snoc(2) show ?case by (intro exI [of _ "es @ [(u, v, w)]"]) (simp add: is_path_snoc)
  qed
next
  assume "\<exists>es. is_path g s es v \<and> path_cost es = c \<and> length es = n"
  then obtain es where "is_path g s es v" "path_cost es = c" "length es = n" by blast
  then show "walk g s c n v"
  proof (induction es arbitrary: v c n rule: rev_induct)
    case Nil
    then show ?case by (auto intro: walk_nil)
  next
    case (snoc e es)
    obtain a b w where e: "e = (a, b, w)" by (cases e)
    with snoc.prems have p: "is_path g s es a" "(a, b, w) \<in> set g" "v = b" by (auto simp: is_path_snoc)
    with snoc.IH [OF p(1) refl refl] snoc.prems e show ?case using walk.walk_snoc by fastforce
  qed
qed

lemma fwalk_path:
  "fwalk g s h c n v \<longleftrightarrow>
     (\<exists>es. es \<noteq> [] \<and> is_path g s es v \<and> fst (snd (hd es)) = h \<and> path_cost es = c \<and> length es = n)"
proof
  assume "fwalk g s h c n v"
  then show "\<exists>es. es \<noteq> [] \<and> is_path g s es v \<and> fst (snd (hd es)) = h \<and> path_cost es = c \<and> length es = n"
  proof (induction rule: fwalk.induct)
    case (fwalk_one w)
    then show ?case by (intro exI [of _ "[(s, h, w)]"]) simp
  next
    case (fwalk_snoc c n u v w)
    then obtain es where "es \<noteq> [] \<and> is_path g s es u \<and> fst (snd (hd es)) = h \<and> path_cost es = c \<and> length es = n"
      by blast
    with fwalk_snoc(2) show ?case
      by (intro exI [of _ "es @ [(u, v, w)]"]) (simp add: is_path_snoc)
  qed
next
  assume "\<exists>es. es \<noteq> [] \<and> is_path g s es v \<and> fst (snd (hd es)) = h \<and> path_cost es = c \<and> length es = n"
  then obtain es where "es \<noteq> []" "is_path g s es v" "fst (snd (hd es)) = h" "path_cost es = c" "length es = n"
    by blast
  then show "fwalk g s h c n v"
  proof (induction es arbitrary: v c n rule: rev_induct)
    case (snoc e es)
    obtain a b w where e: "e = (a, b, w)" by (cases e)
    with snoc.prems have p: "is_path g s es a" "(a, b, w) \<in> set g" "v = b" by (auto simp: is_path_snoc)
    show ?case
    proof (cases "es = []")
      case True
      with p e snoc.prems show ?thesis using fwalk_one [of s b w g] by auto
    next
      case False
      with snoc.IH [OF False p(1) _ refl refl] snoc.prems e p show ?thesis
        using fwalk.fwalk_snoc by fastforce
    qed
  qed simp
qed

lemma shortest_path:
  "shortest g s v d \<longleftrightarrow>
     (\<exists>es. is_path g s es v \<and> path_cost es = d) \<and> (\<forall>es. is_path g s es v \<longrightarrow> d \<le> path_cost es)"
  unfolding shortest_def walk_path by blast

section \<open>Renaming nodes\<close>

lemma is_path_rename:
  assumes edges: "\<And>a b c. (a, b, c) \<in> set g \<longleftrightarrow> a < n \<and> b < n \<and> (f a, f b, c) \<in> set g'"
    and path: "is_path g s es v" and s: "s < (n :: nat)"
  shows "v < n \<and> is_path g' (f s) (map (\<lambda>(a, b, c). (f a, f b, c)) es) (f v)"
  using path s by (induction es arbitrary: s) (auto simp: edges)

lemma is_path_rename_back:
  assumes edges: "\<And>a b c. (a, b, c) \<in> set g \<longleftrightarrow> a < n \<and> b < n \<and> (f a, f b, c) \<in> set g'"
    and nodes: "\<And>p q c. (p, q, c) \<in> set g' \<Longrightarrow> p \<in> f ` {..<n} \<and> q \<in> f ` {..<n}"
    and inj: "inj_on f {..<n}"
    and path: "is_path g' (f s) es w" and s: "s < (n :: nat)"
  shows "\<exists>v < n. f v = w \<and> (\<exists>fs. is_path g s fs v \<and> es = map (\<lambda>(a, b, c). (f a, f b, c)) fs)"
  using path s
proof (induction es arbitrary: s)
  case Nil
  then show ?case by (intro exI [of _ s]) (auto intro: exI [of _ "[]"])
next
  case (Cons e es)
  obtain p q c where e: "e = (p, q, c)" by (cases e)
  with Cons.prems have pq: "(p, q, c) \<in> set g'" "p = f s" "is_path g' q es w" by auto
  obtain b where b: "b < n" "q = f b" using nodes [OF pq(1)] by auto
  from Cons.IH [of b] pq(3) b obtain v fs where v: "v < n" "f v = w" "is_path g b fs v"
    "es = map (\<lambda>(a, b, c). (f a, f b, c)) fs" by auto
  have "(s, b, c) \<in> set g" using edges [of s b c] Cons.prems(2) b pq by simp
  with v e pq b show ?case
    by (intro exI [of _ v] conjI exI [of _ "(s, b, c) # fs"]) simp_all
qed

lemma cost_by_rename: "cost_by h (map (\<lambda>(a, b, c). (f a, f b, c)) es) = cost_by h es"
  by (induction es) auto

section \<open>Tight edges\<close>

definition optimal_by :: "(nat \<Rightarrow> nat) \<Rightarrow> 'n wgraph \<Rightarrow> 'n \<Rightarrow> 'n \<Rightarrow> nat \<Rightarrow> bool" where
  "optimal_by f g s v d \<longleftrightarrow>
     (\<exists>es. is_path g s es v \<and> cost_by f es = d) \<and> (\<forall>es. is_path g s es v \<longrightarrow> d \<le> cost_by f es)"

lemma optimal_by_unique: "optimal_by f g s v d \<Longrightarrow> optimal_by f g s v d' \<Longrightarrow> d = d'"
  unfolding optimal_by_def by (meson le_antisym)

lemma optimal_by_exists: "is_path g s es v \<Longrightarrow> \<exists>d. optimal_by f g s v d"
proof -
  assume p: "is_path g s es v"
  let ?P = "\<lambda>d. \<exists>es. is_path g s es v \<and> cost_by f es = d"
  have "?P (Least ?P)" by (rule LeastI [of ?P "cost_by f es"]) (use p in blast)
  moreover have "Least ?P \<le> cost_by f es'" if "is_path g s es' v" for es'
    by (rule Least_le) (use that in blast)
  ultimately show ?thesis unfolding optimal_by_def by blast
qed

lemma optimal_by_refl: "optimal_by f g s s 0"
  unfolding optimal_by_def by (auto intro: exI [of _ "[]"])

lemma tight_paths:
  assumes tight: "\<And>u v w. (u, v, w) \<in> set t \<longleftrightarrow> (u, v, w) \<in> set g \<and>
      (\<exists>a b. optimal_by f g s u a \<and> optimal_by f g s v b \<and> a + f w = b)"
  shows "is_path t s es v \<longleftrightarrow> is_path g s es v \<and> optimal_by f g s v (cost_by f es)"
proof (induction es arbitrary: v rule: rev_induct)
  case Nil
  show ?case using optimal_by_refl [of f g s] by auto
next
  case (snoc e es)
  obtain a b w where e: "e = (a, b, w)" by (cases e)
  show ?case
  proof
    assume l: "is_path t s (es @ [e]) v"
    then have p: "is_path t s es a" "(a, b, w) \<in> set t" "v = b" by (auto simp: e is_path_snoc)
    with snoc.IH have opt: "is_path g s es a" "optimal_by f g s a (cost_by f es)" by auto
    obtain x y where xy: "(a, b, w) \<in> set g" "optimal_by f g s a x" "optimal_by f g s b y" "x + f w = y"
      using p(2) tight by blast
    with optimal_by_unique [OF opt(2) xy(2)] opt p(3)
    show "is_path g s (es @ [e]) v \<and> optimal_by f g s v (cost_by f (es @ [e]))"
      by (simp add: e is_path_snoc)
  next
    assume r: "is_path g s (es @ [e]) v \<and> optimal_by f g s v (cost_by f (es @ [e]))"
    then have p: "is_path g s es a" "(a, b, w) \<in> set g" "v = b" by (auto simp: e is_path_snoc)
    obtain x where x: "optimal_by f g s a x" using optimal_by_exists [OF p(1)] by blast
    then obtain fs where fs: "is_path g s fs a" "cost_by f fs = x" unfolding optimal_by_def by blast
    have "is_path g s (fs @ [e]) v" using fs(1) p by (simp add: e is_path_snoc)
    then have "cost_by f (es @ [e]) \<le> cost_by f (fs @ [e])" using r unfolding optimal_by_def by blast
    moreover have "x \<le> cost_by f es" using x p(1) unfolding optimal_by_def by blast
    ultimately have "cost_by f es = x" using fs(2) by (simp add: e)
    with x p r snoc.IH tight show "is_path t s (es @ [e]) v" by (auto simp: e is_path_snoc)
  qed
qed

end
