(* ===== verification/OspfRouting.thy ===== *)
theory OspfRouting
  imports OspfTable Paths
begin

text \<open>
  What the route table of \<open>src/app/src/peers/peer_ospf_route.rs\<close> promises: the peer graph is
  exactly the known links, next hops lie on optimal paths of it for both policies,
  forwarding along least-hop next hops reaches its destination, and address maps name
  the nearest claimant.
\<close>

section \<open>The links of the network\<close>

definition known_peers :: "'raw SyncedRouteInfo \<Rightarrow> PeerId list" where
  "known_peers st = map fst (filter (\<lambda>(p, i). rpi_version i \<noteq> 0) (sri_peer_infos st))"

definition neighbours :: "'raw SyncedRouteInfo \<Rightarrow> PeerId \<Rightarrow> PeerId list" where
  "neighbours st p = (case get_connected_peers st p of Some ps \<Rightarrow> ps | None \<Rightarrow> [])"

definition link_weight :: "(PeerId \<Rightarrow> PeerId \<Rightarrow> 32 word) \<Rightarrow> 'raw SyncedRouteInfo \<Rightarrow> PeerId \<Rightarrow> PeerId \<Rightarrow> nat" where
  "link_weight calc st p q =
     i32_as_usize (calc p q) + (if get_avoid_relay_data st p then AVOID_RELAY_COST else 0)"

definition links :: "(PeerId \<Rightarrow> PeerId \<Rightarrow> 32 word) \<Rightarrow> 'raw SyncedRouteInfo \<Rightarrow> PeerId wgraph" where
  "links calc st = concat (map (\<lambda>p. map (\<lambda>q. (p, q, link_weight calc st p q))
     (filter (\<lambda>q. q \<in> set (known_peers st)) (neighbours st p))) (known_peers st))"

lemma links_iff:
  "(p, q, w) \<in> set (links calc st) \<longleftrightarrow>
     p \<in> set (known_peers st) \<and> q \<in> set (known_peers st) \<and> q \<in> set (neighbours st p) \<and>
     w = link_weight calc st p q"
  by (auto simp: links_def)

lemma known_peers_iff:
  "dm_inv (sri_peer_infos st) \<Longrightarrow>
     p \<in> set (known_peers st) \<longleftrightarrow> (\<exists>i. dm_get (sri_peer_infos st) p = Some i \<and> rpi_version i \<noteq> 0)"
  by (force simp: known_peers_def dm_get_in_set)

lemma distinct_known_peers: "dm_inv (sri_peer_infos st) \<Longrightarrow> distinct (known_peers st)"
  by (simp add: known_peers_def dm_inv_def distinct_map_filter)

section \<open>The graph\<close>

lemma dm_insert_new: "k \<notin> fst ` set m \<Longrightarrow> dm_insert k v m = m @ [(k, v)]"
  by (induction m) (auto simp: dm_insert_def)

lemma zip_snoc_upt: "zip (xs @ [x]) [0..<length (xs @ [x])] = zip xs [0..<length xs] @ [(x, length xs)]"
  by simp

lemma add_graph_nodes_ok:
  assumes "distinct (nodes @ map fst items)" "idx = zip nodes [0..<length nodes]"
    and "case start of None \<Rightarrow> my_id \<notin> set nodes | Some s \<Rightarrow> s < length nodes \<and> nodes ! s = my_id"
  shows "\<exists>start'. add_graph_nodes my_id items (nodes, start, idx) =
      (let ns = nodes @ map fst (filter (\<lambda>(p, i). rpi_version i \<noteq> 0) items)
       in (ns, start', zip ns [0..<length ns])) \<and>
    (let ns = nodes @ map fst (filter (\<lambda>(p, i). rpi_version i \<noteq> 0) items)
     in case start' of None \<Rightarrow> my_id \<notin> set ns | Some s \<Rightarrow> s < length ns \<and> ns ! s = my_id)"
  using assms
proof (induction my_id items "(nodes, start, idx)" arbitrary: nodes start idx rule: add_graph_nodes.induct)
  case (1 my_id)
  then show ?case by simp
next
  case (2 my_id p info items nodes start idx)
  show ?case
  proof (cases "rpi_version info = 0")
    case True
    with "2.hyps"(1) "2.prems" show ?thesis by simp
  next
    case False
    have "p \<notin> fst ` set idx" using "2.prems"(1,2) by (auto simp: in_set_zip)
    then have idx: "dm_insert p (length nodes) idx = zip (nodes @ [p]) [0..<length (nodes @ [p])]"
      using "2.prems"(2) by (simp add: dm_insert_new del: upt_Suc add: upt_Suc_append)
    have start: "case (if p = my_id then Some (length nodes) else start) of None \<Rightarrow> my_id \<notin> set (nodes @ [p])
        | Some s \<Rightarrow> s < length (nodes @ [p]) \<and> (nodes @ [p]) ! s = my_id"
      using "2.prems"(3) by (auto simp: nth_append split: option.splits)
    have dist: "distinct ((nodes @ [p]) @ map fst items)" using "2.prems"(1) by auto
    from "2.hyps"(2) [OF False refl dist idx start] False show ?thesis by (simp add: Let_def)
  qed
qed

lemma dm_get_zip_upt:
  assumes "distinct ns"
  shows "dm_get (zip ns [0..<length ns]) p = Some i \<longleftrightarrow> i < length ns \<and> ns ! i = p"
proof -
  have "dm_inv (zip ns [0..<length ns])" using assms by (simp add: dm_inv_def)
  then show ?thesis by (auto simp: dm_get_in_set in_set_zip)
qed

lemma i32_as_usize_bound:
  assumes "0 \<le> sint c"
  shows "i32_as_usize c < 2147483648"
proof -
  have lt: "sint c < 2147483648" using sint_lt [of c] by simp
  then have "sint c mod 2 ^ 64 = sint c" using assms by (intro mod_pos_pos_trivial) simp_all
  with lt show ?thesis by (simp add: i32_as_usize_def)
qed

lemma link_weight_bound: "0 \<le> sint (calc p q) \<Longrightarrow> link_weight calc st p q < 2 ^ 32"
  using i32_as_usize_bound [of "calc p q"] by (simp add: link_weight_def AVOID_RELAY_COST_def)

lemma link_cost_ok: "0 \<le> sint (calc p q) \<Longrightarrow> link_cost calc st p q = Inr (link_weight calc st p q)"
  using i32_as_usize_bound [of "calc p q"]
  by (simp add: link_cost_def link_weight_def checked_add_usize_def AVOID_RELAY_COST_def)

definition edges_from ::
  "(PeerId \<Rightarrow> PeerId \<Rightarrow> 32 word) \<Rightarrow> 'raw SyncedRouteInfo \<Rightarrow> (PeerId, nat) dmap \<Rightarrow> PeerId \<Rightarrow> nat \<Rightarrow> PeerId list \<Rightarrow> nat wgraph" where
  "edges_from calc st idx src i dsts =
     map (\<lambda>q. (i, the (dm_get idx q), link_weight calc st src q)) (filter (\<lambda>q. dm_get idx q \<noteq> None) dsts)"

lemma graph_edges_of_ok:
  assumes "\<And>q. 0 \<le> sint (calc src q)"
  shows "graph_edges_of calc st idx src i dsts = Inr (edges_from calc st idx src i dsts)"
proof (induction dsts)
  case (Cons d dsts)
  have "link_cost calc st src d = Inr (link_weight calc st src d)"
    by (rule link_cost_ok) (rule assms)
  with Cons show ?case by (simp add: edges_from_def split: option.split)
qed (simp add: edges_from_def)

lemma graph_edges_ok:
  assumes "\<And>p q. 0 \<le> sint (calc p q)"
  shows "graph_edges calc st idx items =
    Inr (concat (map (\<lambda>(p, i). edges_from calc st idx p i (neighbours st p)) items))"
proof (induction items)
  case (Cons item items)
  obtain p i where item: "item = (p, i)" by force
  have "graph_edges_of calc st idx p i (neighbours st p) = Inr (edges_from calc st idx p i (neighbours st p))"
    by (rule graph_edges_of_ok) (rule assms)
  with Cons show ?case by (simp add: item neighbours_def [symmetric])
qed simp

lemma edges_from_iff:
  "(a, b, c) \<in> set (edges_from calc st idx p i qs) \<longleftrightarrow>
     a = i \<and> (\<exists>q \<in> set qs. dm_get idx q = Some b \<and> c = link_weight calc st p q)"
  by (force simp: edges_from_def)

text \<open>
  The graph built for a known node has the known peers as nodes, and its edges are the
  links between them.
\<close>

lemma build_peer_graph_ok:
  assumes inv: "dm_inv (sri_peer_infos st)" and nonneg: "\<And>p q. 0 \<le> sint (calc p q)"
    and my: "my_id \<in> set (known_peers st)"
  shows "\<exists>es s. build_peer_graph_from_synced_info calc my_id st =
      Inr (\<lparr>pg_nodes = known_peers st, pg_edges = es\<rparr>, s) \<and>
    s < length (known_peers st) \<and> known_peers st ! s = my_id \<and>
    (\<forall>a b c. (a, b, c) \<in> set es \<longleftrightarrow> a < length (known_peers st) \<and> b < length (known_peers st) \<and>
       (known_peers st ! a, known_peers st ! b, c) \<in> set (links calc st))"
proof -
  let ?ns = "known_peers st"
  obtain start where add: "add_graph_nodes my_id (sri_peer_infos st) ([], None, []) =
      (?ns, start, zip ?ns [0..<length ?ns])"
    and start: "case start of None \<Rightarrow> my_id \<notin> set ?ns | Some s \<Rightarrow> s < length ?ns \<and> ?ns ! s = my_id"
    using add_graph_nodes_ok [where nodes = "[]" and items = "sri_peer_infos st" and idx = "[]"
        and start = None and my_id = my_id] inv
    unfolding known_peers_def [symmetric] Let_def append_Nil by (auto simp: dm_inv_def)
  from start my obtain s where s: "start = Some s" "s < length ?ns" "?ns ! s = my_id"
    by (cases start) auto
  let ?idx = "zip ?ns [0..<length ?ns]"
  let ?es = "concat (map (\<lambda>(p, i). edges_from calc st ?idx p i (neighbours st p)) ?idx)"
  have es: "graph_edges calc st ?idx ?idx = Inr ?es"
    by (rule graph_edges_ok) (rule nonneg)
  have edges: "(a, b, c) \<in> set ?es \<longleftrightarrow>
       (\<exists>p q. (p, a) \<in> set ?idx \<and> q \<in> set (neighbours st p) \<and>
          dm_get ?idx q = Some b \<and> c = link_weight calc st p q)" for a b c
    by (auto simp: edges_from_iff)
  have node: "(p, a) \<in> set (zip ?ns [0..<length ?ns]) \<longleftrightarrow> a < length ?ns \<and> p = ?ns ! a" for p a
    by (auto simp: in_set_zip)
  have "(a, b, c) \<in> set ?es \<longleftrightarrow> a < length ?ns \<and> b < length ?ns \<and>
      (?ns ! a, ?ns ! b, c) \<in> set (links calc st)" for a b c
    unfolding edges node links_iff dm_get_zip_upt [OF distinct_known_peers [OF inv]] by auto
  with add s es show ?thesis by (simp add: build_peer_graph_from_synced_info_def)
qed

section \<open>Next hops of one graph\<close>

definition maps_ok :: "'n dij \<Rightarrow> bool" where
  "maps_ok st \<longleftrightarrow> dm_inv (scores st) \<and> dm_inv (first_hop st)"

lemma maps_ok_relax_edge: "relax_edge s u d e st = Inr st' \<Longrightarrow> maps_ok st \<Longrightarrow> maps_ok st'"
  by (auto simp: relax_edge_def improve_def Let_def rust_Inr maps_ok_def split: if_splits option.splits)

lemma maps_ok_relax_edges: "relax_edges s u d es st = Inr st' \<Longrightarrow> maps_ok st \<Longrightarrow> maps_ok st'"
  by (induction es arbitrary: st) (auto simp: rbind_Inr_iff dest: maps_ok_relax_edge)

lemma maps_ok_loop: "dijkstra_loop g s st = Inr st' \<Longrightarrow> maps_ok st \<Longrightarrow> maps_ok st'"
proof (induction g s st rule: dijkstra_loop.induct)
  case (1 g s st)
  show ?case
  proof (cases "heap_pop (visit_next st)")
    case None
    then have "st' = st" using "1.prems"(1) by (subst (asm) dijkstra_loop.simps) simp
    with "1.prems"(2) show ?thesis by simp
  next
    case (Some p)
    obtain d u rest where p: "p = ((d, u), rest)" by (cases p) auto
    note pop = Some [unfolded p]
    have ok: "maps_ok (st\<lparr>visit_next := rest\<rparr>)" using "1.prems"(2) by (simp add: maps_ok_def)
    show ?thesis
    proof (cases "u \<in> set (visited st)")
      case True
      then have "dijkstra_loop g s (st\<lparr>visit_next := rest\<rparr>) = Inr st'"
        using "1.prems"(1) pop by (subst (asm) dijkstra_loop.simps) simp
      from "1.IH"(1) [OF pop refl refl True this ok] show ?thesis .
    next
      case False
      then obtain st1 where st1: "relax_edges s u d (out_edges g u) (st\<lparr>visit_next := rest\<rparr>) = Inr st1"
        and run: "dijkstra_loop g s (st1\<lparr>visited := u # visited st1\<rparr>) = Inr st'"
        using "1.prems"(1) pop by (subst (asm) dijkstra_loop.simps) (auto split: sum.splits)
      have "maps_ok (st1\<lparr>visited := u # visited st1\<rparr>)"
        using maps_ok_relax_edges [OF st1 ok] by (simp add: maps_ok_def)
      from "1.IH"(2) [OF pop refl refl False st1 run this] show ?thesis .
    qed
  qed
qed

lemma dijkstra_maps_inv:
  assumes "dijkstra_with_first_hop g s = Inr (sc, fh)"
  shows "dm_inv sc" "dm_inv fh"
proof -
  let ?init = "\<lparr>visited = [], scores = dm_insert s 0 [], first_hop = dm_insert s (s, 0) [],
       visit_next = heap_push (0, s) []\<rparr>"
  obtain st where "dijkstra_loop g s ?init = Inr st" "sc = scores st" "fh = first_hop st"
    using assms by (auto simp: dijkstra_with_first_hop_def rmap_Inr_iff)
  with maps_ok_loop [of g s ?init st] show "dm_inv sc" "dm_inv fh" by (auto simp: maps_ok_def)
qed

definition hop_info :: "PeerGraph \<Rightarrow> (nat, nat) dmap \<Rightarrow> Version \<Rightarrow> nat \<Rightarrow> nat \<Rightarrow> nat \<Rightarrow> NextHopInfo" where
  "hop_info g costs version i h l =
     \<lparr>nh_next_hop_peer_id = pg_nodes g ! h, nh_path_latency = of_nat (the (dm_get costs i) mod AVOID_RELAY_COST),
      nh_path_len = l, nh_version = version\<rparr>"

definition hop_entry :: "PeerGraph \<Rightarrow> (nat, nat) dmap \<Rightarrow> Version \<Rightarrow> (nat, nat \<times> nat) dmap
    \<Rightarrow> (PeerId, NextHopInfo) dmap \<Rightarrow> nat \<Rightarrow> NextHopInfo option" where
  "hop_entry g costs version items m i =
     (case dm_get items i of
        None \<Rightarrow> dm_get m (pg_nodes g ! i)
      | Some (h, l) \<Rightarrow>
          (case dm_get m (pg_nodes g ! i) of
             None \<Rightarrow> Some (hop_info g costs version i h l)
           | Some x \<Rightarrow> if nh_version x < version then Some (hop_info g costs version i h l) else Some x))"

lemma insert_next_hops_ok:
  assumes dist: "distinct (pg_nodes g)"
    and "\<forall>(i, h, l) \<in> set items. i < length (pg_nodes g) \<and> h < length (pg_nodes g) \<and> dm_get costs i \<noteq> None"
  shows "\<exists>m'. insert_next_hops g costs version items m = Inr m' \<and>
    (\<forall>i < length (pg_nodes g). dm_get m' (pg_nodes g ! i) = hop_entry g costs version items m i) \<and>
    (\<forall>p. p \<notin> set (pg_nodes g) \<longrightarrow> dm_get m' p = dm_get m p)"
  using assms(2)
proof (induction items arbitrary: m)
  case Nil
  then show ?case by (simp add: hop_entry_def)
next
  case (Cons item items)
  obtain d h l where item: "item = (d, h, l)" by (cases item) auto
  with Cons.prems have d: "d < length (pg_nodes g)" "h < length (pg_nodes g)" "dm_get costs d \<noteq> None" by auto
  let ?info = "hop_info g costs version d h l"
  let ?m = "dm_upsert (pg_nodes g ! d) (\<lambda>x. if nh_version x < version then ?info else x) ?info m"
  have step: "insert_next_hops g costs version (item # items) m = insert_next_hops g costs version items ?m"
  proof -
    obtain y where y: "dm_get costs d = Some y" using d(3) by blast
    show ?thesis
      using d(1,2) y by (simp add: item node_weight_def hop_info_def Let_def cong: if_cong)
  qed
  from Cons.IH [of ?m] Cons.prems obtain m' where
    m': "insert_next_hops g costs version items ?m = Inr m'"
    and nodes: "\<forall>i < length (pg_nodes g). dm_get m' (pg_nodes g ! i) = hop_entry g costs version items ?m i"
    and others: "\<forall>p. p \<notin> set (pg_nodes g) \<longrightarrow> dm_get m' p = dm_get ?m p" by auto
  have "hop_entry g costs version items ?m i = hop_entry g costs version (item # items) m i"
    if i: "i < length (pg_nodes g)" for i
  proof (cases "i = d")
    case True
    then show ?thesis
      by (auto simp: hop_entry_def item dm_get_upsert hop_info_def dm_get_def [of "(d, h, l) # items"]
          split: option.split)
  next
    case False
    then have "pg_nodes g ! i \<noteq> pg_nodes g ! d" using dist i d(1) by (simp add: nth_eq_iff_index_eq)
    then have m: "dm_get ?m (pg_nodes g ! i) = dm_get m (pg_nodes g ! i)" by (simp add: dm_get_upsert)
    have items: "dm_get ((d, h, l) # items) i = dm_get items i" using False by (simp add: dm_get_def)
    show ?thesis unfolding hop_entry_def item m items ..
  qed
  moreover have "dm_get ?m p = dm_get m p" if "p \<notin> set (pg_nodes g)" for p
    using that d(1) by (auto simp: dm_get_upsert)
  ultimately show ?case using step m' nodes others by auto
qed

text \<open>
  A table is older than a version if none of its entries has that version yet.
\<close>

definition older :: "Version \<Rightarrow> 'cidr RouteTable \<Rightarrow> bool" where
  "older version rt \<longleftrightarrow> rt_next_hop_map_version rt \<le> version \<and>
     (\<forall>p x. dm_get (rt_next_hop_map rt) p = Some x \<longrightarrow> nh_version x < version)"

lemma is_path_in_range:
  "is_path es s ps v \<Longrightarrow> s < n \<Longrightarrow> (\<forall>(a, b, c) \<in> set es. a < n \<and> b < n) \<Longrightarrow> v < (n :: nat)"
  by (induction ps arbitrary: s) auto

lemma fwalk_hop_in_range:
  "fwalk es s h c k v \<Longrightarrow> (\<forall>(a, b, c) \<in> set es. a < n \<and> b < n) \<Longrightarrow> h < (n :: nat) \<and> v < n"
  by (induction rule: fwalk.induct) auto

text \<open>
  The nodes are distinct 32 bit peer ids, so that no sum of costs overflows when the weights are below
  \<open>2 ^ 32\<close>: link costs are \<open>i32\<close>, at most doubled by the relay penalty.
\<close>

definition indexed_edges :: "PeerId list \<Rightarrow> nat wgraph \<Rightarrow> bool" where
  "indexed_edges ns es \<longleftrightarrow> (\<forall>(a, b, c) \<in> set es. a < length ns \<and> b < length ns \<and> c < 2 ^ 32)"

lemma indexed_costs_fit:
  assumes "distinct ns" "s < length ns" "indexed_edges ns es"
  shows "costs_fit es s"
proof (rule bounded_costs_fit)
  show "\<forall>(u, v, w) \<in> set es. v \<in> {..<length ns} \<and> w \<le> 2 ^ 32 - 1"
    using assms(3) by (force simp: indexed_edges_def)
  have "length ns \<le> CARD(32 word)"
    using distinct_card [OF assms(1)] card_mono [OF finite, of "set ns" UNIV] by simp
  then have "(2 ^ 32 - 1) * length ns \<le> (2 ^ 32 - 1) * 2 ^ 32" by (intro mult_le_mono2) (simp add: card_word)
  then show "(2 ^ 32 - 1) * card {..<length ns} < 2 ^ 64" by simp
qed (use assms(2) in simp_all)

lemma least_cost_graph:
  fixes rt :: "'cidr RouteTable"
  assumes dist: "distinct (pg_nodes g)" and s: "s < length (pg_nodes g)"
    and edges: "indexed_edges (pg_nodes g) (pg_edges g)"
    and fresh: "older version rt"
  shows "\<exists>m. gen_next_hop_map_with_least_cost g s version rt =
      Inr (rt\<lparr>rt_next_hop_map := m, rt_next_hop_map_version := version\<rparr>) \<and>
    (\<forall>p. p \<notin> set (pg_nodes g) \<longrightarrow> dm_get m p = dm_get (rt_next_hop_map rt) p) \<and>
    (\<forall>i < length (pg_nodes g).
       (\<forall>c k. \<not> walk (pg_edges g) s c k i) \<and> dm_get m (pg_nodes g ! i) = dm_get (rt_next_hop_map rt) (pg_nodes g ! i) \<or>
       (\<exists>d h k. shortest (pg_edges g) s i d \<and> h < length (pg_nodes g) \<and>
          (if i = s then h = s \<and> k = 0 else fwalk (pg_edges g) s h d k i) \<and>
          dm_get m (pg_nodes g ! i) = Some \<lparr>nh_next_hop_peer_id = pg_nodes g ! h,
             nh_path_latency = of_nat (d mod AVOID_RELAY_COST), nh_path_len = k, nh_version = version\<rparr>))"
proof -
  let ?n = "length (pg_nodes g)"
  have range: "\<forall>(a, b, c) \<in> set (pg_edges g). a < ?n \<and> b < ?n"
    using edges by (force simp: indexed_edges_def)
  obtain sc fh where run: "dijkstra_with_first_hop (pg_edges g) s = Inr (sc, fh)"
    and sc: "\<forall>v d. dm_get sc v = Some d \<longleftrightarrow> shortest (pg_edges g) s v d"
    and fh_s: "dm_get fh s = Some (s, 0)"
    and dom: "\<forall>v. dm_get fh v = None \<longleftrightarrow> dm_get sc v = None"
    and hop: "\<forall>v h n. v \<noteq> s \<longrightarrow> dm_get fh v = Some (h, n) \<longrightarrow>
        (\<exists>d. shortest (pg_edges g) s v d \<and> fwalk (pg_edges g) s h d n v)"
    using dijkstra_correct [OF indexed_costs_fit [OF dist s edges]] by (elim exE conjE)
  have entry: "i < ?n \<and> h < ?n \<and> dm_get sc i \<noteq> None" if fh: "dm_get fh i = Some (h, l)" for i h l
  proof (cases "i = s")
    case True
    then show ?thesis using fh fh_s s dom by force
  next
    case False
    then obtain d where "fwalk (pg_edges g) s h d l i" using hop fh by blast
    then show ?thesis using fwalk_hop_in_range [OF _ range] dom fh by force
  qed
  have items: "\<forall>(i, h, l) \<in> set fh. i < ?n \<and> h < ?n \<and> dm_get sc i \<noteq> None"
    using entry dm_get_in_set [OF dijkstra_maps_inv(2) [OF run]] by fastforce
  obtain m where m: "insert_next_hops g sc version fh (rt_next_hop_map rt) = Inr m"
    and nodes: "\<forall>i < ?n. dm_get m (pg_nodes g ! i) = hop_entry g sc version fh (rt_next_hop_map rt) i"
    and others: "\<forall>p. p \<notin> set (pg_nodes g) \<longrightarrow> dm_get m p = dm_get (rt_next_hop_map rt) p"
    using insert_next_hops_ok [OF dist items] by blast
  have ver: "fst (set_if_larger (rt_next_hop_map_version rt) version) = version"
    using fresh by (simp add: older_def set_if_larger_def max_def)
  have gen: "gen_next_hop_map_with_least_cost g s version rt =
      Inr (rt\<lparr>rt_next_hop_map := m, rt_next_hop_map_version := version\<rparr>)"
    by (simp add: gen_next_hop_map_with_least_cost_def run m ver)
  have node: "(\<forall>c k. \<not> walk (pg_edges g) s c k i) \<and> dm_get m (pg_nodes g ! i) = dm_get (rt_next_hop_map rt) (pg_nodes g ! i) \<or>
       (\<exists>d h k. shortest (pg_edges g) s i d \<and> h < ?n \<and>
          (if i = s then h = s \<and> k = 0 else fwalk (pg_edges g) s h d k i) \<and>
          dm_get m (pg_nodes g ! i) = Some \<lparr>nh_next_hop_peer_id = pg_nodes g ! h,
             nh_path_latency = of_nat (d mod AVOID_RELAY_COST), nh_path_len = k, nh_version = version\<rparr>)"
    if i: "i < ?n" for i
  proof (cases "dm_get fh i")
    case None
    then have "\<nexists>d. shortest (pg_edges g) s i d" using dom sc by (metis option.distinct(1))
    then have "\<forall>c k. \<not> walk (pg_edges g) s c k i" using shortest_exists [of "pg_edges g" s _ _ i] by blast
    then show ?thesis using nodes i None by (simp add: hop_entry_def)
  next
    case (Some hl)
    obtain h l where hl: "hl = (h, l)" by force
    then obtain d where d: "dm_get sc i = Some d" using entry [of i h l] Some by blast
    have "dm_get m (pg_nodes g ! i) = Some (hop_info g sc version i h l)"
      using nodes i Some hl fresh by (auto simp: hop_entry_def older_def split: option.split)
    moreover have "if i = s then h = s \<and> l = 0 else fwalk (pg_edges g) s h d l i"
    proof (cases "i = s")
      case True
      then show ?thesis using fh_s Some hl by simp
    next
      case False
      then obtain d' where "shortest (pg_edges g) s i d'" "fwalk (pg_edges g) s h d' l i"
        using hop Some hl by blast
      then show ?thesis using False d sc shortest_unique by metis
    qed
    ultimately show ?thesis
      using d sc entry [of i h l] Some hl
      by (intro disjI2 exI [of _ d] exI [of _ h] exI [of _ l]) (auto simp: hop_info_def)
  qed
  show ?thesis
    by (rule exI [of _ m]) (use gen others node in blast)
qed

section \<open>From node indices to peers\<close>

text \<open>A graph over indices represents a graph over peers.\<close>

definition represents :: "PeerId list \<Rightarrow> nat wgraph \<Rightarrow> PeerId wgraph \<Rightarrow> bool" where
  "represents ns g E \<longleftrightarrow>
     (\<forall>a b c. (a, b, c) \<in> set g \<longleftrightarrow> a < length ns \<and> b < length ns \<and> (ns ! a, ns ! b, c) \<in> set E) \<and>
     (\<forall>p q c. (p, q, c) \<in> set E \<longrightarrow> p \<in> set ns \<and> q \<in> set ns)"

definition rename :: "PeerId list \<Rightarrow> nat wgraph \<Rightarrow> PeerId wgraph" where
  "rename ns es = map (\<lambda>(a, b, c). (ns ! a, ns ! b, c)) es"

lemma length_rename [simp]: "length (rename ns es) = length es"
  by (simp add: rename_def)

lemma cost_by_rename' [simp]: "cost_by f (rename ns es) = cost_by f es"
  unfolding rename_def by (rule cost_by_rename)

lemma path_to_peers:
  assumes "represents ns g E" "is_path g s es v" "s < length ns"
  shows "v < length ns \<and> is_path E (ns ! s) (rename ns es) (ns ! v)"
proof -
  have edges: "(a, b, c) \<in> set g \<longleftrightarrow> a < length ns \<and> b < length ns \<and> (ns ! a, ns ! b, c) \<in> set E" for a b c
    using assms(1) unfolding represents_def by blast
  show ?thesis
    unfolding rename_def by (rule is_path_rename [OF edges assms(2,3)])
qed

lemma path_from_peers:
  assumes "represents ns g E" "distinct ns" "is_path E (ns ! s) es p" "s < length ns"
  shows "\<exists>v fs. v < length ns \<and> ns ! v = p \<and> is_path g s fs v \<and> es = rename ns fs"
proof -
  have edges: "(a, b, c) \<in> set g \<longleftrightarrow> a < length ns \<and> b < length ns \<and> (ns ! a, ns ! b, c) \<in> set E" for a b c
    using assms(1) unfolding represents_def by blast
  have nodes: "p \<in> (!) ns ` {..<length ns} \<and> q \<in> (!) ns ` {..<length ns}" if "(p, q, c) \<in> set E" for p q c
  proof -
    have "p \<in> set ns" "q \<in> set ns" using assms(1) that unfolding represents_def by blast+
    then show ?thesis by (auto simp: in_set_conv_nth)
  qed
  have inj: "inj_on ((!) ns) {..<length ns}"
    using assms(2) by (auto simp: inj_on_def nth_eq_iff_index_eq)
  have "\<exists>v < length ns. ns ! v = p \<and> (\<exists>fs. is_path g s fs v \<and> es = rename ns fs)"
    unfolding rename_def by (rule is_path_rename_back [OF edges _ inj assms(3,4)]) (use nodes in blast)+
  then show ?thesis by blast
qed

lemma path_iff_peers:
  assumes "represents ns g E" "distinct ns" "s < length ns" "v < length ns"
  shows "is_path E (ns ! s) es (ns ! v) \<longleftrightarrow> (\<exists>fs. is_path g s fs v \<and> es = rename ns fs)"
proof
  assume "is_path E (ns ! s) es (ns ! v)"
  from path_from_peers [OF assms(1,2) this assms(3)] obtain v' fs where
    "v' < length ns" "ns ! v' = ns ! v" "is_path g s fs v'" "es = rename ns fs" by blast
  moreover have "v' = v" using calculation(1,2) assms(2,4) by (simp add: nth_eq_iff_index_eq)
  ultimately show "\<exists>fs. is_path g s fs v \<and> es = rename ns fs" by blast
qed (use path_to_peers [OF assms(1) _ assms(3)] in blast)

lemma optimal_by_peers:
  assumes "represents ns g E" "distinct ns" "s < length ns" "v < length ns"
  shows "optimal_by f E (ns ! s) (ns ! v) d \<longleftrightarrow> optimal_by f g s v d"
  unfolding optimal_by_def path_iff_peers [OF assms] by auto

text \<open>A next hop entry that describes a path of least cost.\<close>

definition entry_of :: "PeerId \<Rightarrow> Version \<Rightarrow> PeerId wgraph \<Rightarrow> NextHopInfo" where
  "entry_of my_id version es =
     \<lparr>nh_next_hop_peer_id = (if es = [] then my_id else fst (snd (hd es))),
      nh_path_latency = of_nat (path_cost es mod AVOID_RELAY_COST), nh_path_len = length es,
      nh_version = version\<rparr>"

definition least_cost_path :: "PeerId wgraph \<Rightarrow> PeerId \<Rightarrow> PeerId wgraph \<Rightarrow> PeerId \<Rightarrow> bool" where
  "least_cost_path E my_id es p \<longleftrightarrow>
     is_path E my_id es p \<and> (\<forall>fs. is_path E my_id fs p \<longrightarrow> path_cost es \<le> path_cost fs)"

lemma hd_rename: "fs \<noteq> [] \<Longrightarrow> fst (snd (hd (rename ns fs))) = ns ! fst (snd (hd fs))"
  by (cases fs) (auto simp: rename_def)

lemma index_route_to_peers:
  assumes rep: "represents ns g E" and dist: "distinct ns" and s: "s < length ns" and i: "i < length ns"
    and sh: "shortest g s i d"
    and hop: "if i = s then h = s \<and> k = 0 else fwalk g s h d k i"
  shows "\<exists>es. least_cost_path E (ns ! s) es (ns ! i) \<and>
    \<lparr>nh_next_hop_peer_id = ns ! h, nh_path_latency = of_nat (d mod AVOID_RELAY_COST), nh_path_len = k,
     nh_version = version\<rparr> = entry_of (ns ! s) version es"
proof -
  have least: "d \<le> path_cost fs" if "is_path E (ns ! s) fs (ns ! i)" for fs
    using that sh unfolding path_iff_peers [OF rep dist s i] shortest_path by auto
  obtain fs where fs: "is_path g s fs i" "path_cost fs = d" "length fs = k"
    "ns ! h = (if fs = [] then ns ! s else ns ! fst (snd (hd fs)))"
  proof (cases "i = s")
    case True
    have "is_path g s [] i" using True by simp
    then have "d = 0" using sh unfolding shortest_path by fastforce
    with True hop that [of "[]"] show ?thesis by simp
  next
    case False
    then obtain fs where "fs \<noteq> []" "is_path g s fs i" "fst (snd (hd fs)) = h" "path_cost fs = d" "length fs = k"
      using hop unfolding fwalk_path by auto
    then show ?thesis using that [of fs] by simp
  qed
  have "is_path E (ns ! s) (rename ns fs) (ns ! i)"
    using path_to_peers [OF rep fs(1) s] by blast
  moreover have "rename ns fs = [] \<longleftrightarrow> fs = []" by (simp add: rename_def)
  ultimately show ?thesis
    using fs least hd_rename [of fs ns]
    by (intro exI [of _ "rename ns fs"]) (auto simp: least_cost_path_def entry_of_def)
qed

lemma rt_get_next_hop_current:
  assumes "older version rt" "dm_get m p = dm_get (rt_next_hop_map rt) p"
  shows "rt_get_next_hop (rt\<lparr>rt_next_hop_map := m, rt_next_hop_map_version := version\<rparr>) p = None"
  using assms by (cases "dm_get (rt_next_hop_map rt) p") (auto simp: rt_get_next_hop_def older_def not_le)

lemma least_cost_peers:
  fixes rt :: "'cidr RouteTable"
  assumes rep: "represents (pg_nodes g) (pg_edges g) E" and dist: "distinct (pg_nodes g)"
    and s: "s < length (pg_nodes g)" "pg_nodes g ! s = my_id" and fresh: "older version rt"
    and weights: "indexed_edges (pg_nodes g) (pg_edges g)"
  shows "\<exists>m. gen_next_hop_map_with_least_cost g s version rt =
      Inr (rt\<lparr>rt_next_hop_map := m, rt_next_hop_map_version := version\<rparr>) \<and>
    (\<forall>p. case rt_get_next_hop (rt\<lparr>rt_next_hop_map := m, rt_next_hop_map_version := version\<rparr>) p of
           None \<Rightarrow> \<nexists>es. is_path E my_id es p
         | Some x \<Rightarrow> \<exists>es. least_cost_path E my_id es p \<and> x = entry_of my_id version es)"
proof -
  let ?ns = "pg_nodes g"
  obtain m where gen: "gen_next_hop_map_with_least_cost g s version rt =
      Inr (rt\<lparr>rt_next_hop_map := m, rt_next_hop_map_version := version\<rparr>)"
    and others: "\<forall>p. p \<notin> set ?ns \<longrightarrow> dm_get m p = dm_get (rt_next_hop_map rt) p"
    and nodes: "\<forall>i < length ?ns.
       (\<forall>c k. \<not> walk (pg_edges g) s c k i) \<and> dm_get m (?ns ! i) = dm_get (rt_next_hop_map rt) (?ns ! i) \<or>
       (\<exists>d h k. shortest (pg_edges g) s i d \<and> h < length ?ns \<and>
          (if i = s then h = s \<and> k = 0 else fwalk (pg_edges g) s h d k i) \<and>
          dm_get m (?ns ! i) = Some \<lparr>nh_next_hop_peer_id = ?ns ! h,
             nh_path_latency = of_nat (d mod AVOID_RELAY_COST), nh_path_len = k, nh_version = version\<rparr>)"
    using least_cost_graph [OF dist s(1) weights fresh] by blast
  let ?rt = "rt\<lparr>rt_next_hop_map := m, rt_next_hop_map_version := version\<rparr>"
  have "case rt_get_next_hop ?rt p of None \<Rightarrow> \<nexists>es. is_path E my_id es p
      | Some x \<Rightarrow> \<exists>es. least_cost_path E my_id es p \<and> x = entry_of my_id version es" for p
  proof (cases "p \<in> set ?ns")
    case False
    have "\<nexists>es. is_path E my_id es p"
      using path_from_peers [OF rep dist, of s _ p] s False by (metis nth_mem)
    with False others show ?thesis by (simp add: rt_get_next_hop_current [OF fresh])
  next
    case True
    then obtain i where i: "i < length ?ns" "?ns ! i = p" by (auto simp: in_set_conv_nth)
    from nodes i(1) consider
      (unreach) "\<forall>c k. \<not> walk (pg_edges g) s c k i" "dm_get m (?ns ! i) = dm_get (rt_next_hop_map rt) (?ns ! i)"
    | (reach) d h k where "shortest (pg_edges g) s i d" "if i = s then h = s \<and> k = 0 else fwalk (pg_edges g) s h d k i"
        "dm_get m (?ns ! i) = Some \<lparr>nh_next_hop_peer_id = ?ns ! h,
             nh_path_latency = of_nat (d mod AVOID_RELAY_COST), nh_path_len = k, nh_version = version\<rparr>"
      by blast
    then show ?thesis
    proof cases
      case unreach
      then have "\<nexists>es. is_path E my_id es p"
        using path_iff_peers [OF rep dist s(1) i(1)] s(2) i(2) unfolding walk_path by auto
      with unreach(2) i(2) show ?thesis by (simp add: rt_get_next_hop_current [OF fresh])
    next
      case reach
      from index_route_to_peers [OF rep dist s(1) i(1) reach(1,2), of version] obtain es where
        "least_cost_path E my_id es p" "dm_get m p = Some (entry_of my_id version es)"
        using reach(3) s(2) i(2) by auto
      then show ?thesis by (auto simp: rt_get_next_hop_def entry_of_def)
    qed
  qed
  with gen show ?thesis by blast
qed

end
