(* ===== verification/OspfRoutes.thy ===== *)
theory OspfRoutes
  imports OspfRouting
begin

text \<open>
  The two routing policies of \<open>RouteTable::build_from_synced_info\<close>
  (\<open>src/app/src/peers/peer_ospf_route.rs\<close>) and hop-by-hop forwarding along the tables they build.
\<close>

section \<open>Least hop: the subgraph of tight edges\<close>

lemma normalized_iff:
  "(u, v, w') \<in> set (normalized g) \<longleftrightarrow> (\<exists>w. (u, v, w) \<in> set g \<and> w' = normalize_edge_cost w)"
  by (force simp: normalized_def)

lemma is_path_normalized:
  "is_path (normalized g) s es v \<longleftrightarrow> (\<exists>fs. is_path g s fs v \<and> es = normalized fs)"
proof
  assume "is_path (normalized g) s es v"
  then show "\<exists>fs. is_path g s fs v \<and> es = normalized fs"
  proof (induction es arbitrary: s)
    case Nil
    then show ?case by (intro exI [of _ "[]"]) (simp add: normalized_def)
  next
    case (Cons e es)
    obtain a b w' where e: "e = (a, b, w')" by (cases e)
    with Cons.prems obtain w where w: "(a, b, w) \<in> set g" "w' = normalize_edge_cost w" "a = s"
      and rest: "is_path (normalized g) b es v" by (auto simp: normalized_iff)
    from Cons.IH [OF rest] obtain fs where "is_path g b fs v" "es = normalized fs" by blast
    with e w show ?case by (intro exI [of _ "(a, b, w) # fs"]) (simp add: normalized_def)
  qed
next
  assume "\<exists>fs. is_path g s fs v \<and> es = normalized fs"
  then obtain fs where "is_path g s fs v" "es = normalized fs" by blast
  then show "is_path (normalized g) s es v"
  proof (induction fs arbitrary: s es)
    case Nil
    then show ?case by (simp add: normalized_def)
  next
    case (Cons e fs)
    obtain a b w where e: "e = (a, b, w)" by (cases e)
    from Cons.prems e have "(a, b, w) \<in> set g" "a = s" "is_path g b fs v"
      "es = (a, b, normalize_edge_cost w) # normalized fs" by (auto simp: normalized_def)
    with Cons.IH [of b "normalized fs"] show ?case by (auto simp: normalized_iff)
  qed
qed

lemma path_cost_normalized: "path_cost (normalized fs) = cost_by normalize_edge_cost fs"
  by (induction fs) (auto simp: normalized_def)

lemma shortest_normalized: "shortest (normalized g) s v d \<longleftrightarrow> optimal_by normalize_edge_cost g s v d"
  unfolding shortest_path optimal_by_def is_path_normalized
  by (auto simp: path_cost_normalized)

text \<open>
  What is relied on of the \<open>petgraph\<close> routine: exact distances wherever its sums of costs fit \<open>usize\<close>.
\<close>

definition dijkstra_spec :: "(nat wgraph \<Rightarrow> nat \<Rightarrow> (nat, nat) dmap) \<Rightarrow> bool" where
  "dijkstra_spec pg_dijkstra \<longleftrightarrow>
     (\<forall>g s. costs_fit g s \<longrightarrow> (\<forall>v d. dm_get (pg_dijkstra g s) v = Some d \<longleftrightarrow> shortest g s v d))"

lemma least_hop_edges_filter:
  assumes "\<forall>(u, v, w) \<in> set g. \<forall>d. dm_get m u = Some d \<longrightarrow> d + normalize_edge_cost w < 2 ^ 64"
  shows "\<exists>t. least_hop_edges m g = Inr t \<and> (\<forall>u v w. (u, v, w) \<in> set t \<longleftrightarrow>
    (u, v, w) \<in> set g \<and> (\<exists>a b. dm_get m u = Some a \<and> dm_get m v = Some b \<and> a + normalize_edge_cost w = b))"
  using assms
proof (induction g)
  case (Cons e g)
  obtain x y w where e: "e = (x, y, w)" by (cases e)
  obtain t where t: "least_hop_edges m g = Inr t" and mem: "\<forall>u v w. (u, v, w) \<in> set t \<longleftrightarrow>
    (u, v, w) \<in> set g \<and> (\<exists>a b. dm_get m u = Some a \<and> dm_get m v = Some b \<and> a + normalize_edge_cost w = b)"
    using Cons.IH Cons.prems by auto
  let ?keep = "\<exists>a b. dm_get m x = Some a \<and> dm_get m y = Some b \<and> a + normalize_edge_cost w = b"
  have "least_hop_edges m (e # g) = Inr (if ?keep then e # t else t)"
    using Cons.prems t by (auto simp: e checked_add_usize_def split: option.split)
  then show ?case using mem by (auto simp: e)
qed simp

lemma least_hop_edges_tight:
  assumes "dijkstra_spec pg_dijkstra" and fit: "costs_fit (normalized g) s"
  shows "\<exists>t. least_hop_edges (pg_dijkstra (normalized g) s) g = Inr t \<and> (\<forall>u v w. (u, v, w) \<in> set t \<longleftrightarrow>
    (u, v, w) \<in> set g \<and> (\<exists>a b. optimal_by normalize_edge_cost g s u a \<and>
       optimal_by normalize_edge_cost g s v b \<and> a + normalize_edge_cost w = b))"
proof -
  have get: "dm_get (pg_dijkstra (normalized g) s) x = Some d \<longleftrightarrow> optimal_by normalize_edge_cost g s x d" for x d
    using assms by (simp add: dijkstra_spec_def shortest_normalized)
  have "d + normalize_edge_cost w < 2 ^ 64"
    if "(u, v, w) \<in> set g" "dm_get (pg_dijkstra (normalized g) s) u = Some d" for u v w d
    using fit that unfolding get costs_fit_def shortest_normalized normalized_iff by blast
  then show ?thesis
    using least_hop_edges_filter [of g "pg_dijkstra (normalized g) s"] unfolding get by blast
qed

definition least_hop_path :: "PeerId wgraph \<Rightarrow> PeerId \<Rightarrow> PeerId wgraph \<Rightarrow> PeerId \<Rightarrow> bool" where
  "least_hop_path E my_id es p \<longleftrightarrow> is_path E my_id es p \<and>
     (\<forall>fs. is_path E my_id fs p \<longrightarrow>
        cost_by normalize_edge_cost es < cost_by normalize_edge_cost fs \<or>
        cost_by normalize_edge_cost es = cost_by normalize_edge_cost fs \<and> path_cost es \<le> path_cost fs)"

lemma tight_rename:
  assumes rep: "represents ns g E" and dist: "distinct ns" and s: "s < length ns"
    and t: "\<And>u v w. (u, v, w) \<in> set t \<longleftrightarrow> (u, v, w) \<in> set g \<and>
      (\<exists>a b. optimal_by f g s u a \<and> optimal_by f g s v b \<and> a + f w = b)"
  shows "represents ns t (rename ns t)"
    and "(p, q, w) \<in> set (rename ns t) \<longleftrightarrow> (p, q, w) \<in> set E \<and>
      (\<exists>a b. optimal_by f E (ns ! s) p a \<and> optimal_by f E (ns ! s) q b \<and> a + f w = b)"
proof -
  have in_range: "u < length ns \<and> v < length ns \<and> (ns ! u, ns ! v, w) \<in> set E" if "(u, v, w) \<in> set t" for u v w
    using that t rep unfolding represents_def by blast
  have into: "(u, v, w) \<in> set t" if u: "u < length ns" "v < length ns" and r: "(ns ! u, ns ! v, w) \<in> set (rename ns t)" for u v w
  proof -
    obtain a b where ab: "(a, b, w) \<in> set t" "ns ! a = ns ! u" "ns ! b = ns ! v"
      using r by (auto simp: rename_def)
    then have "a = u" "b = v" using in_range [OF ab(1)] u dist by (auto simp: nth_eq_iff_index_eq)
    with ab(1) show ?thesis by simp
  qed
  have forth: "(ns ! u, ns ! v, w) \<in> set (rename ns t)" if "(u, v, w) \<in> set t" for u v w
    using that by (force simp: rename_def)
  have nodes: "p \<in> set ns \<and> q \<in> set ns" if "(p, q, c) \<in> set (rename ns t)" for p q c
    using that in_range by (fastforce simp: rename_def)
  show "represents ns t (rename ns t)"
    unfolding represents_def using in_range into forth nodes by blast
  have opt: "optimal_by f E (ns ! s) (ns ! v) d \<longleftrightarrow> optimal_by f g s v d" if "v < length ns" for v d
    by (rule optimal_by_peers [OF rep dist s that])
  show "(p, q, w) \<in> set (rename ns t) \<longleftrightarrow> (p, q, w) \<in> set E \<and>
      (\<exists>a b. optimal_by f E (ns ! s) p a \<and> optimal_by f E (ns ! s) q b \<and> a + f w = b)"
  proof
    assume "(p, q, w) \<in> set (rename ns t)"
    then obtain u v where "(u, v, w) \<in> set t" "p = ns ! u" "q = ns ! v" by (auto simp: rename_def)
    with in_range t opt show "(p, q, w) \<in> set E \<and>
      (\<exists>a b. optimal_by f E (ns ! s) p a \<and> optimal_by f E (ns ! s) q b \<and> a + f w = b)" by metis
  next
    assume r: "(p, q, w) \<in> set E \<and>
      (\<exists>a b. optimal_by f E (ns ! s) p a \<and> optimal_by f E (ns ! s) q b \<and> a + f w = b)"
    then have "p \<in> set ns" "q \<in> set ns" using rep unfolding represents_def by blast+
    then obtain u v where uv: "u < length ns" "v < length ns" "p = ns ! u" "q = ns ! v"
      by (metis in_set_conv_nth)
    with r rep have "(u, v, w) \<in> set g" unfolding represents_def by blast
    with r uv opt t have "(u, v, w) \<in> set t" by metis
    with forth uv show "(p, q, w) \<in> set (rename ns t)" by blast
  qed
qed

lemma least_hop_tight:
  assumes tight: "\<And>p q w. (p, q, w) \<in> set T \<longleftrightarrow> (p, q, w) \<in> set E \<and>
      (\<exists>a b. optimal_by normalize_edge_cost E my_id p a \<and> optimal_by normalize_edge_cost E my_id q b \<and>
         a + normalize_edge_cost w = b)"
  shows "least_cost_path T my_id es p \<Longrightarrow> least_hop_path E my_id es p"
    and "(\<exists>es. is_path E my_id es p) \<Longrightarrow> \<exists>es. is_path T my_id es p"
proof -
  note paths = tight_paths [of T E normalize_edge_cost my_id, OF tight]
  show "least_hop_path E my_id es p" if l: "least_cost_path T my_id es p"
  proof -
    have es: "is_path E my_id es p" "optimal_by normalize_edge_cost E my_id p (cost_by normalize_edge_cost es)"
      using l paths [of es p] unfolding least_cost_path_def by blast+
    have "cost_by normalize_edge_cost es < cost_by normalize_edge_cost fs \<or>
        cost_by normalize_edge_cost es = cost_by normalize_edge_cost fs \<and> path_cost es \<le> path_cost fs"
      if fs: "is_path E my_id fs p" for fs
    proof (cases "cost_by normalize_edge_cost es = cost_by normalize_edge_cost fs")
      case True
      then have "is_path T my_id fs p" using es(2) fs paths [of fs p] by simp
      with True l show ?thesis unfolding least_cost_path_def by blast
    next
      case False
      then show ?thesis using es(2) fs unfolding optimal_by_def by (metis le_neq_implies_less)
    qed
    with es(1) show ?thesis unfolding least_hop_path_def by blast
  qed
  show "\<exists>es. is_path T my_id es p" if ex: "\<exists>es. is_path E my_id es p"
  proof -
    obtain d where d: "optimal_by normalize_edge_cost E my_id p d"
      using ex optimal_by_exists [of E my_id] by blast
    then obtain es where "is_path E my_id es p" "cost_by normalize_edge_cost es = d"
      unfolding optimal_by_def by blast
    with d paths [of es p] show ?thesis by blast
  qed
qed

section \<open>Building the table\<close>

definition cidrs_parse :: "(string \<Rightarrow> 'cidr option) \<Rightarrow> 'raw SyncedRouteInfo \<Rightarrow> bool" where
  "cidrs_parse parse_cidr st \<longleftrightarrow>
     (\<forall>p i. dm_get (sri_peer_infos st) p = Some i \<longrightarrow> (\<forall>c \<in> set (rpi_proxy_cidrs i). parse_cidr c \<noteq> None))"

lemma claim_cidrs_total:
  "\<forall>c \<in> set cs. parse_cidr c \<noteq> None \<Longrightarrow> \<exists>m'. claim_cidrs parse_cidr rt piv nh cs m = Inr m'"
  by (induction cs arbitrary: m) auto

lemma index_peer_frame:
  "index_peer parse_cidr st version item rt = Inr rt' \<Longrightarrow>
     rt_next_hop_map rt' = rt_next_hop_map rt \<and> rt_next_hop_map_version rt' = rt_next_hop_map_version rt"
  by (auto simp: index_peer_def split_beta Let_def rust_Inr split: if_splits option.splits)

lemma index_peer_total:
  assumes "cidrs_parse parse_cidr st"
  shows "\<exists>rt'. index_peer parse_cidr st version item rt = Inr rt'"
proof (cases "nh_version (snd item) < version \<or> dm_get (sri_peer_infos st) (fst item) = None")
  case True
  then show ?thesis by (auto simp: index_peer_def split_beta Let_def)
next
  case False
  then obtain info where info: "dm_get (sri_peer_infos st) (fst item) = Some info" by blast
  then have "\<forall>c \<in> set (rpi_proxy_cidrs info). parse_cidr c \<noteq> None"
    using assms by (auto simp: cidrs_parse_def)
  then obtain mc where mc: "claim_cidrs parse_cidr rt
      \<lparr>piv_peer_id = fst item, piv_version = version\<rparr> (snd item) (rpi_proxy_cidrs info)
      (rt_cidr_peer_id_map rt) = Inr mc"
    using claim_cidrs_total by blast
  show ?thesis using False info mc by (auto simp: index_peer_def split_beta Let_def)
qed

lemma index_peers_total:
  assumes "cidrs_parse parse_cidr st"
  shows "\<exists>rt'. index_peers parse_cidr st version items rt = Inr rt' \<and>
    rt_next_hop_map rt' = rt_next_hop_map rt \<and> rt_next_hop_map_version rt' = rt_next_hop_map_version rt"
proof (induction items arbitrary: rt)
  case Nil
  then show ?case by simp
next
  case (Cons item items)
  obtain rt1 where rt1: "index_peer parse_cidr st version item rt = Inr rt1"
    using index_peer_total [OF assms] by blast
  with Cons.IH [of rt1] index_peer_frame [OF rt1] show ?case by auto
qed

lemma rt_get_next_hop_cong:
  "rt_next_hop_map rt' = rt_next_hop_map rt \<Longrightarrow> rt_next_hop_map_version rt' = rt_next_hop_map_version rt \<Longrightarrow>
     rt_get_next_hop rt' p = rt_get_next_hop rt p"
  by (simp add: rt_get_next_hop_def)

text \<open>
  What a build relies on: a well-formed store that knows the node itself, link costs that are not
  negative, proxy networks that parse, and a table not yet built for this version.
\<close>

definition buildable ::
  "(string \<Rightarrow> 'cidr option) \<Rightarrow> (PeerId \<Rightarrow> PeerId \<Rightarrow> 32 word) \<Rightarrow> PeerId \<Rightarrow> 'raw SyncedRouteInfo \<Rightarrow> 'cidr RouteTable \<Rightarrow> bool" where
  "buildable parse_cidr calc my_id st rt \<longleftrightarrow>
     dm_inv (sri_peer_infos st) \<and> my_id \<in> set (known_peers st) \<and> (\<forall>p q. 0 \<le> sint (calc p q)) \<and>
     cidrs_parse parse_cidr st \<and> older (sri_version st) rt"

lemma buildable_graph:
  assumes "buildable parse_cidr calc my_id st rt"
  shows "\<exists>g s. build_peer_graph_from_synced_info calc my_id st = Inr (g, s) \<and> pg_nodes g = known_peers st \<and>
    pg_nodes g \<noteq> [] \<and> distinct (pg_nodes g) \<and> s < length (pg_nodes g) \<and> pg_nodes g ! s = my_id \<and>
    represents (pg_nodes g) (pg_edges g) (links calc st) \<and> indexed_edges (pg_nodes g) (pg_edges g)"
proof -
  have inv: "dm_inv (sri_peer_infos st)" and my: "my_id \<in> set (known_peers st)"
    and nonneg: "\<And>p q. 0 \<le> sint (calc p q)"
    using assms by (auto simp: buildable_def)
  obtain es s where g: "build_peer_graph_from_synced_info calc my_id st =
      Inr (\<lparr>pg_nodes = known_peers st, pg_edges = es\<rparr>, s)"
    and s: "s < length (known_peers st)" "known_peers st ! s = my_id"
    and edges: "\<forall>a b c. (a, b, c) \<in> set es \<longleftrightarrow> a < length (known_peers st) \<and> b < length (known_peers st) \<and>
       (known_peers st ! a, known_peers st ! b, c) \<in> set (links calc st)"
    using build_peer_graph_ok [where calc = calc, OF inv nonneg my] by blast
  have "represents (known_peers st) es (links calc st)"
    unfolding represents_def using edges links_iff by blast
  moreover have "indexed_edges (known_peers st) es"
    using edges link_weight_bound [where calc = calc, OF nonneg] by (auto simp: indexed_edges_def links_iff)
  ultimately show ?thesis using g s distinct_known_peers [OF inv] by fastforce
qed

lemma finish_build:
  assumes b: "buildable parse_cidr calc my_id st rt"
    and g: "build_peer_graph_from_synced_info calc my_id st = Inr (g, s)" "pg_nodes g \<noteq> []"
    and gen: "(case policy of
        LeastHop \<Rightarrow> gen_next_hop_map_with_least_hop pg_dijkstra g s (sri_version st) rt
      | LeastCost \<Rightarrow> gen_next_hop_map_with_least_cost g s (sri_version st) rt) = Inr rt1"
  shows "\<exists>rt'. build_from_synced_info pg_dijkstra parse_cidr calc my_id st policy rt = Inr rt' \<and>
    (\<forall>p. rt_get_next_hop rt' p = rt_get_next_hop rt1 p)"
proof -
  obtain rt' where "index_peers parse_cidr st (sri_version st) (rt_next_hop_map rt1) rt1 = Inr rt'"
    "rt_next_hop_map rt' = rt_next_hop_map rt1" "rt_next_hop_map_version rt' = rt_next_hop_map_version rt1"
    using index_peers_total [of parse_cidr st] b unfolding buildable_def by blast
  with g gen rt_get_next_hop_cong [of rt' rt1] show ?thesis
    by (simp add: build_from_synced_info_def Let_def)
qed

lemma least_cost_build:
  assumes b: "buildable parse_cidr calc my_id st rt"
  shows "\<exists>rt'. build_from_synced_info pg_dijkstra parse_cidr calc my_id st LeastCost rt = Inr rt' \<and>
    (\<forall>p. case rt_get_next_hop rt' p of
           None \<Rightarrow> \<nexists>es. is_path (links calc st) my_id es p
         | Some x \<Rightarrow> \<exists>es. least_cost_path (links calc st) my_id es p \<and> x = entry_of my_id (sri_version st) es)"
proof -
  obtain g s where g: "build_peer_graph_from_synced_info calc my_id st = Inr (g, s)" "pg_nodes g \<noteq> []"
    "distinct (pg_nodes g)" "s < length (pg_nodes g)" "pg_nodes g ! s = my_id"
    "represents (pg_nodes g) (pg_edges g) (links calc st)" "indexed_edges (pg_nodes g) (pg_edges g)"
    using buildable_graph [OF b] by blast
  have fresh: "older (sri_version st) rt" using b by (simp add: buildable_def)
  obtain m where gen: "gen_next_hop_map_with_least_cost g s (sri_version st) rt =
      Inr (rt\<lparr>rt_next_hop_map := m, rt_next_hop_map_version := sri_version st\<rparr>)"
    and routes: "\<forall>p. case rt_get_next_hop (rt\<lparr>rt_next_hop_map := m, rt_next_hop_map_version := sri_version st\<rparr>) p of
           None \<Rightarrow> \<nexists>es. is_path (links calc st) my_id es p
         | Some x \<Rightarrow> \<exists>es. least_cost_path (links calc st) my_id es p \<and> x = entry_of my_id (sri_version st) es"
    using least_cost_peers [OF g(6) g(3) g(4,5) fresh g(7)] by blast
  have "(case LeastCost of
        LeastHop \<Rightarrow> gen_next_hop_map_with_least_hop pg_dijkstra g s (sri_version st) rt
      | LeastCost \<Rightarrow> gen_next_hop_map_with_least_cost g s (sri_version st) rt) =
      Inr (rt\<lparr>rt_next_hop_map := m, rt_next_hop_map_version := sri_version st\<rparr>)" using gen by simp
  from finish_build [OF b g(1,2) this] obtain rt' where
    "build_from_synced_info pg_dijkstra parse_cidr calc my_id st LeastCost rt = Inr rt'"
    "\<forall>p. rt_get_next_hop rt' p =
       rt_get_next_hop (rt\<lparr>rt_next_hop_map := m, rt_next_hop_map_version := sri_version st\<rparr>) p" by blast
  with routes show ?thesis by (intro exI [of _ rt'] conjI allI) simp_all
qed

lemma indexed_normalized: "indexed_edges ns g \<Longrightarrow> indexed_edges ns (normalized g)"
  by (force simp: indexed_edges_def normalized_iff normalize_edge_cost_def AVOID_RELAY_COST_def)

lemma least_hop_build:
  assumes b: "buildable parse_cidr calc my_id st rt" and pgd: "dijkstra_spec pg_dijkstra"
  shows "\<exists>rt'. build_from_synced_info pg_dijkstra parse_cidr calc my_id st LeastHop rt = Inr rt' \<and>
    (\<forall>p. case rt_get_next_hop rt' p of
           None \<Rightarrow> \<nexists>es. is_path (links calc st) my_id es p
         | Some x \<Rightarrow> \<exists>es. least_hop_path (links calc st) my_id es p \<and> x = entry_of my_id (sri_version st) es)"
proof -
  let ?E = "links calc st"
  obtain g s where g: "build_peer_graph_from_synced_info calc my_id st = Inr (g, s)" "pg_nodes g \<noteq> []"
    "distinct (pg_nodes g)" "s < length (pg_nodes g)" "pg_nodes g ! s = my_id"
    "represents (pg_nodes g) (pg_edges g) ?E" "indexed_edges (pg_nodes g) (pg_edges g)"
    using buildable_graph [OF b] by blast
  have fresh: "older (sri_version st) rt" using b by (simp add: buildable_def)
  have fit: "costs_fit (normalized (pg_edges g)) s"
    by (rule indexed_costs_fit [OF g(3,4) indexed_normalized [OF g(7)]])
  obtain t where t: "least_hop_edges (pg_dijkstra (normalized (pg_edges g)) s) (pg_edges g) = Inr t"
    and tight: "\<And>u v w. (u, v, w) \<in> set t \<longleftrightarrow> (u, v, w) \<in> set (pg_edges g) \<and>
      (\<exists>a b. optimal_by normalize_edge_cost (pg_edges g) s u a \<and>
         optimal_by normalize_edge_cost (pg_edges g) s v b \<and> a + normalize_edge_cost w = b)"
    using least_hop_edges_tight [OF pgd fit] by blast
  let ?sub = "\<lparr>pg_nodes = pg_nodes g, pg_edges = t\<rparr>"
  let ?T = "rename (pg_nodes g) t"
  have weights: "indexed_edges (pg_nodes ?sub) (pg_edges ?sub)"
    using g(7) tight by (auto simp: indexed_edges_def)
  have rep: "represents (pg_nodes ?sub) (pg_edges ?sub) ?T"
    using tight_rename(1) [OF g(6,3,4) tight] by simp
  have T: "(p, q, w) \<in> set ?T \<longleftrightarrow> (p, q, w) \<in> set ?E \<and>
      (\<exists>a b. optimal_by normalize_edge_cost ?E my_id p a \<and> optimal_by normalize_edge_cost ?E my_id q b \<and>
         a + normalize_edge_cost w = b)" for p q w
    using tight_rename(2) [OF g(6,3,4) tight, of p q w] unfolding g(5) .
  have sub: "distinct (pg_nodes ?sub)" "s < length (pg_nodes ?sub)" "pg_nodes ?sub ! s = my_id"
    using g by simp_all
  let ?rt = "\<lambda>m. rt\<lparr>rt_next_hop_map := m, rt_next_hop_map_version := sri_version st\<rparr>"
  obtain m where gen: "gen_next_hop_map_with_least_cost ?sub s (sri_version st) rt = Inr (?rt m)"
    and routes: "\<forall>p. case rt_get_next_hop (?rt m) p of
           None \<Rightarrow> \<nexists>es. is_path ?T my_id es p
         | Some x \<Rightarrow> \<exists>es. least_cost_path ?T my_id es p \<and> x = entry_of my_id (sri_version st) es"
    using least_cost_peers [OF rep sub fresh weights] by blast
  have "case rt_get_next_hop (?rt m) p of
           None \<Rightarrow> \<nexists>es. is_path ?E my_id es p
         | Some x \<Rightarrow> \<exists>es. least_hop_path ?E my_id es p \<and> x = entry_of my_id (sri_version st) es" for p
    using spec [OF routes, of p] least_hop_tight [OF T] by (auto split: option.splits)
  moreover have "(case LeastHop of
        LeastHop \<Rightarrow> gen_next_hop_map_with_least_hop pg_dijkstra g s (sri_version st) rt
      | LeastCost \<Rightarrow> gen_next_hop_map_with_least_cost g s (sri_version st) rt) = Inr (?rt m)"
    using gen g(4) by (simp add: gen_next_hop_map_with_least_hop_def Let_def t)
  from finish_build [OF b g(1,2) this] obtain rt' where
    "build_from_synced_info pg_dijkstra parse_cidr calc my_id st LeastHop rt = Inr rt'"
    "\<forall>p. rt_get_next_hop rt' p = rt_get_next_hop (?rt m) p" by blast
  ultimately show ?thesis by (intro exI [of _ rt'] conjI allI) simp_all
qed

section \<open>Forwarding\<close>

definition next_hop_towards :: "(PeerId \<Rightarrow> 'cidr RouteTable) \<Rightarrow> PeerId \<Rightarrow> PeerId \<Rightarrow> PeerId" where
  "next_hop_towards tables dst p =
     (case rt_get_next_hop (tables p) dst of Some x \<Rightarrow> nh_next_hop_peer_id x | None \<Rightarrow> p)"

lemma normalize_edge_cost_pos: "0 < normalize_edge_cost w"
  by (simp add: normalize_edge_cost_def)

lemma least_hop_step:
  assumes l: "least_hop_path E p es dst" and ne: "p \<noteq> dst"
  shows "\<exists>h w fs. es = (p, h, w) # fs \<and> (p, h, w) \<in> set E \<and> is_path E h fs dst \<and>
    cost_by normalize_edge_cost fs < cost_by normalize_edge_cost es"
proof -
  have path: "is_path E p es dst" using l by (simp add: least_hop_path_def)
  with ne obtain e fs where es: "es = e # fs" by (cases es) auto
  obtain a h w where e: "e = (a, h, w)" by (cases e)
  from path show ?thesis
    using normalize_edge_cost_pos [of w] by (auto simp: es e)
qed

lemma forwarding_induct:
  assumes tables: "\<And>p. p \<in> set (known_peers st) \<Longrightarrow>
      case rt_get_next_hop (tables p) dst of
        None \<Rightarrow> \<nexists>es. is_path (links calc st) p es dst
      | Some x \<Rightarrow> \<exists>es. least_hop_path (links calc st) p es dst \<and> x = entry_of p (sri_version st) es"
    and p: "p \<in> set (known_peers st)" and path: "is_path (links calc st) p fs dst"
  shows "\<exists>k \<le> cost_by normalize_edge_cost fs. (next_hop_towards tables dst ^^ k) p = dst"
  using p path
proof (induction "cost_by normalize_edge_cost fs" arbitrary: p fs rule: less_induct)
  case less
  show ?case
  proof (cases "p = dst")
    case True
    then show ?thesis by (intro exI [of _ 0]) simp
  next
    case False
    obtain es where es: "least_hop_path (links calc st) p es dst"
      and hop: "rt_get_next_hop (tables p) dst = Some (entry_of p (sri_version st) es)"
      using tables [OF less.prems(1)] less.prems(2) by (cases "rt_get_next_hop (tables p) dst") auto
    obtain h w gs where gs: "es = (p, h, w) # gs" "(p, h, w) \<in> set (links calc st)"
      "is_path (links calc st) h gs dst"
      "cost_by normalize_edge_cost gs < cost_by normalize_edge_cost es"
      using least_hop_step [OF es False] by blast
    have next_hop: "next_hop_towards tables dst p = h"
      using hop gs(1) by (simp add: next_hop_towards_def entry_of_def)
    have le: "cost_by normalize_edge_cost es \<le> cost_by normalize_edge_cost fs"
      using es less.prems(2) unfolding least_hop_path_def by (metis less_imp_le order_refl)
    have known: "h \<in> set (known_peers st)" using gs(2) unfolding links_iff by simp
    obtain k where k: "k \<le> cost_by normalize_edge_cost gs" "(next_hop_towards tables dst ^^ k) h = dst"
      using less.hyps [OF _ known gs(3)] gs(4) le by auto
    have "(next_hop_towards tables dst ^^ Suc k) p = dst"
      using k(2) next_hop by (simp add: funpow_Suc_right del: funpow.simps)
    moreover have "Suc k \<le> cost_by normalize_edge_cost fs" using k(1) gs(4) le by linarith
    ultimately show ?thesis by blast
  qed
qed

section \<open>Properties\<close>

text \<open>
  C15. Least cost. A build for a fresh version returns a table that has a next hop for exactly the
  peers some path of known links leads to; it is the first hop of a path of least total
  cost, stored with that path's length and its latency modulo the relay penalty.
\<close>

theorem least_cost_routes:
  assumes "buildable parse_cidr calc my_id st rt"
  shows "\<exists>rt'. build_from_synced_info pg_dijkstra parse_cidr calc my_id st LeastCost rt = Inr rt' \<and>
    (\<forall>p. case rt_get_next_hop rt' p of
           None \<Rightarrow> \<nexists>es. is_path (links calc st) my_id es p
         | Some x \<Rightarrow> \<exists>es. least_cost_path (links calc st) my_id es p \<and> x = entry_of my_id (sri_version st) es)"
  by (rule least_cost_build [OF assms])

text \<open>
  C1. Least hop. With a correct hop count from \<open>petgraph\<close>, a build for a fresh version returns a table
  that has a next hop for exactly the reachable peers; it is the first hop of a path
  with the fewest penalised and plain hops and, among those, of least cost.
\<close>

theorem least_hop_routes:
  assumes "buildable parse_cidr calc my_id st rt" and "dijkstra_spec pg_dijkstra"
  shows "\<exists>rt'. build_from_synced_info pg_dijkstra parse_cidr calc my_id st LeastHop rt = Inr rt' \<and>
    (\<forall>p. case rt_get_next_hop rt' p of
           None \<Rightarrow> \<nexists>es. is_path (links calc st) my_id es p
         | Some x \<Rightarrow> \<exists>es. least_hop_path (links calc st) my_id es p \<and> x = entry_of my_id (sri_version st) es)"
  by (rule least_hop_build [OF assms])

text \<open>
  C2. Forwarding is free of loops. When every node has built its least-hop table from the same
  synchronised information, passing a packet from next hop to next hop delivers it to
  every destination that is reachable at all, within the hop cost of any path to it.
\<close>

theorem forwarding_reaches_destination:
  assumes "\<forall>p \<in> set (known_peers st). buildable parse_cidr calc p st (rt p)"
    and "dijkstra_spec pg_dijkstra"
    and "\<forall>p \<in> set (known_peers st).
      build_from_synced_info pg_dijkstra parse_cidr calc p st LeastHop (rt p) = Inr (tables p)"
    and "src \<in> set (known_peers st)" and "is_path (links calc st) src es dst"
  shows "\<exists>k \<le> cost_by normalize_edge_cost es. (next_hop_towards tables dst ^^ k) src = dst"
proof (rule forwarding_induct [OF _ assms(4,5)])
  fix p
  assume p: "p \<in> set (known_peers st)"
  obtain rt' where "build_from_synced_info pg_dijkstra parse_cidr calc p st LeastHop (rt p) = Inr rt'"
    and routes: "\<forall>q. case rt_get_next_hop rt' q of
           None \<Rightarrow> \<nexists>es. is_path (links calc st) p es q
         | Some x \<Rightarrow> \<exists>es. least_hop_path (links calc st) p es q \<and> x = entry_of p (sri_version st) es"
    using least_hop_build [OF bspec [OF assms(1) p] assms(2)] by blast
  then have "rt' = tables p" using bspec [OF assms(3) p] by simp
  with routes show "case rt_get_next_hop (tables p) dst of
        None \<Rightarrow> \<nexists>es. is_path (links calc st) p es dst
      | Some x \<Rightarrow> \<exists>es. least_hop_path (links calc st) p es dst \<and> x = entry_of p (sri_version st) es"
    by blast
qed

section \<open>An example network\<close>

definition example_dijkstra :: "nat wgraph \<Rightarrow> nat \<Rightarrow> (nat, nat) dmap" where
  "example_dijkstra g s = (case dijkstra_with_first_hop g s of Inr (sc, _) \<Rightarrow> sc | Inl _ \<Rightarrow> [])"

lemma example_dijkstra_spec: "dijkstra_spec example_dijkstra"
  unfolding dijkstra_spec_def
proof (intro allI impI)
  fix g :: "nat wgraph" and s v d
  assume "costs_fit g s"
  then obtain sc fh where "dijkstra_with_first_hop g s = Inr (sc, fh)"
    "\<forall>v d. dm_get sc v = Some d \<longleftrightarrow> shortest g s v d"
    using dijkstra_correct [of g s] by blast
  then show "dm_get (example_dijkstra g s) v = Some d \<longleftrightarrow> shortest g s v d"
    by (simp add: example_dijkstra_def)
qed

definition example_store :: "PeerId SyncedRouteInfo" where
  "example_store = synced_route_info_new
     \<lparr>sri_peer_infos := [(1, example_info 1 1), (2, example_info 2 1), (3, example_info 3 1)],
      sri_conn_map := [(1, [2], 1), (2, [1, 3], 1), (3, [2], 1)], sri_version := 5\<rparr>"

lemma example_known: "known_peers example_store = [1, 2, 3]"
  by code_simp

lemma example_buildable:
  "p \<in> set (known_peers example_store) \<Longrightarrow> buildable Some (\<lambda>_ _. 1) p example_store route_table_new"
  by (auto simp: buildable_def example_store_def synced_route_info_new_def dm_inv_def cidrs_parse_def
      older_def route_table_new_def)

lemma example_path: "is_path (links (\<lambda>_ _. 1) example_store) 1 [(1, 2, 1), (2, 3, 1)] 3"
  by code_simp

lemma example_reach: "\<exists>es. is_path (links (\<lambda>_ _. 1) example_store) 1 es 3"
  using example_path by (rule exI)

theorem least_cost_routes_witness:
  "\<exists>rt'. build_from_synced_info example_dijkstra Some (\<lambda>_ _. 1) 1 example_store LeastCost route_table_new = Inr rt' \<and>
    rt_get_next_hop rt' 3 \<noteq> None"
proof -
  have "buildable Some (\<lambda>_ _. 1) 1 example_store route_table_new"
    by (rule example_buildable) (simp add: example_known)
  from least_cost_routes [OF this, of example_dijkstra] obtain rt' where
    run: "build_from_synced_info example_dijkstra Some (\<lambda>_ _. 1) 1 example_store LeastCost route_table_new = Inr rt'"
    and "case rt_get_next_hop rt' 3 of None \<Rightarrow> \<nexists>es. is_path (links (\<lambda>_ _. 1) example_store) 1 es 3
         | Some x \<Rightarrow> \<exists>es. least_cost_path (links (\<lambda>_ _. 1) example_store) 1 es 3 \<and>
             x = entry_of 1 (sri_version example_store) es" by blast
  with example_reach have "rt_get_next_hop rt' 3 \<noteq> None" by (auto split: option.splits)
  with run show ?thesis by blast
qed

theorem least_hop_routes_witness:
  "\<exists>rt'. build_from_synced_info example_dijkstra Some (\<lambda>_ _. 1) 1 example_store LeastHop route_table_new = Inr rt' \<and>
    rt_get_next_hop rt' 3 \<noteq> None"
proof -
  have "buildable Some (\<lambda>_ _. 1) 1 example_store route_table_new"
    by (rule example_buildable) (simp add: example_known)
  from least_hop_routes [OF this example_dijkstra_spec] obtain rt' where
    run: "build_from_synced_info example_dijkstra Some (\<lambda>_ _. 1) 1 example_store LeastHop route_table_new = Inr rt'"
    and "case rt_get_next_hop rt' 3 of None \<Rightarrow> \<nexists>es. is_path (links (\<lambda>_ _. 1) example_store) 1 es 3
         | Some x \<Rightarrow> \<exists>es. least_hop_path (links (\<lambda>_ _. 1) example_store) 1 es 3 \<and>
             x = entry_of 1 (sri_version example_store) es" by blast
  with example_reach have "rt_get_next_hop rt' 3 \<noteq> None" by (auto split: option.splits)
  with run show ?thesis by blast
qed

definition example_tables :: "PeerId \<Rightarrow> string RouteTable" where
  "example_tables p =
     (case build_from_synced_info example_dijkstra Some (\<lambda>_ _. 1) p example_store LeastHop route_table_new of
        Inr t \<Rightarrow> t | Inl _ \<Rightarrow> route_table_new)"

theorem forwarding_reaches_destination_witness:
  "\<exists>k \<le> cost_by normalize_edge_cost [(1 :: PeerId, 2 :: PeerId, 1), (2, 3, 1)].
     (next_hop_towards example_tables 3 ^^ k) 1 = 3"
proof (rule forwarding_reaches_destination [OF _ example_dijkstra_spec _ _ example_path, of Some "\<lambda>_. route_table_new"])
  show "\<forall>p \<in> set (known_peers example_store). buildable Some (\<lambda>_ _. 1) p example_store route_table_new"
    using example_buildable by blast
  show "\<forall>p \<in> set (known_peers example_store).
      build_from_synced_info example_dijkstra Some (\<lambda>_ _. 1) p example_store LeastHop route_table_new = Inr (example_tables p)"
  proof
    fix p
    assume "p \<in> set (known_peers example_store)"
    then obtain t where
      "build_from_synced_info example_dijkstra Some (\<lambda>_ _. 1) p example_store LeastHop route_table_new = Inr t"
      using least_hop_build [OF example_buildable example_dijkstra_spec] by blast
    then show "build_from_synced_info example_dijkstra Some (\<lambda>_ _. 1) p example_store LeastHop route_table_new =
        Inr (example_tables p)" by (simp add: example_tables_def)
  qed
  show "1 \<in> set (known_peers example_store)" by (simp add: example_known)
qed

end
