(* ===== verification/OspfDelivery.thy ===== *)
theory OspfDelivery
  imports OspfSync OspfRoutes
begin

text \<open>
  The two ends of a sync session together: a request that one node builds and another handles without
  an error delivers every peer info it carries.
\<close>

section \<open>Infos a store holds\<close>

definition held :: "'raw SyncedRouteInfo \<Rightarrow> RoutePeerInfo \<Rightarrow> bool" where
  "held st i \<longleftrightarrow> (\<exists>j. dm_get (sri_peer_infos st) (rpi_peer_id i) = Some j \<and> rpi_version i \<le> rpi_version j)"

lemma held_cong: "sri_peer_infos st' = sri_peer_infos st \<Longrightarrow> held st' i = held st i"
  by (simp add: held_def)

lemma held_update_peer_infos:
  "update_peer_infos raw_pid now my_id my_route dst infos raws st = Inr (st', None) \<Longrightarrow> i \<in> set infos \<Longrightarrow> held st' i"
  using dm_merge.fold_merge_at_least [where ver = rpi_version, of "rpi_peer_id i" "i\<lparr>rpi_last_update := Some now\<rparr>"
      "map (\<lambda>i. (rpi_peer_id i, i\<lparr>rpi_last_update := Some now\<rparr>)) infos" "sri_peer_infos st"]
  by (auto simp: held_def merge_infos_def dest!: update_peer_infos_ok)

lemma peer_infos_trust [simp]:
  "sri_peer_infos (verify_and_update_group_trusts verify infos decls st) = sri_peer_infos st"
  unfolding verify_and_update_group_trusts_def
  by (induction infos arbitrary: st) (simp_all add: update_group_trust_frame)

lemma peer_infos_foreign [simp]:
  "sri_peer_infos (update_foreign_network now infos st) = sri_peer_infos st"
  by (simp add: update_foreign_network_def)

lemma known_fill_one:
  "dm_get (sri_peer_infos (fst sn)) p = Some i \<Longrightarrow>
     dm_get (sri_peer_infos (fst (fill_empty_one pv now q sn))) p = Some i"
  by (cases "p = q") (simp_all add: fill_empty_one_def split_beta Let_def dm_get_or_insert)

lemma known_fill:
  assumes fill: "fill_empty_peer_info pv now ps st = Inr st'" and "dm_get (sri_peer_infos st) p = Some i"
  shows "dm_get (sri_peer_infos st') p = Some i"
proof -
  have "dm_get (sri_peer_infos (fst (fold (fill_empty_one pv now) ps sn))) p = Some i"
    if "dm_get (sri_peer_infos (fst sn)) p = Some i" for sn
    using that by (induction ps arbitrary: sn) (simp_all add: known_fill_one)
  from this [of "(st, False)"] assms(2) fill_empty_peer_info_Inr [OF fill] show ?thesis
    by (auto simp: filled_def)
qed

lemma known_conn_loop:
  "update_conn_map_loop pv now bm idx ps sn = Inr sn' \<Longrightarrow>
     dm_get (sri_peer_infos (fst sn)) p = Some i \<Longrightarrow> dm_get (sri_peer_infos (fst sn')) p = Some i"
  by (induction pv now bm idx ps sn rule: update_conn_map_loop.induct)
    (auto simp: rust_Inr merge_conn_def Let_def split_beta dest: known_fill)

lemma held_conn_map:
  assumes "update_conn_map pv now bm st = Inr st'" and "held st i"
  shows "held st' i"
proof -
  obtain st1 sn where fill: "fill_empty_peer_info pv now (btree_set (map fst (rcb_peer_ids bm))) st = Inr st1"
    and run: "update_conn_map_loop pv now bm 0 (rcb_peer_ids bm) (st1, False) = Inr sn"
    and st': "sri_peer_infos st' = sri_peer_infos (fst sn)"
    using assms(1) by (auto simp: update_conn_map_def rust_Inr split: prod.splits if_splits)
  from assms(2) known_conn_loop [OF run] known_fill [OF fill] st' show ?thesis
    by (auto simp: held_def)
qed

section \<open>The handler keeps what it has merged\<close>

lemma update_route_table_store:
  "update_route_table env srv = Inr srv' \<Longrightarrow> srv_synced_route_info srv' = srv_synced_route_info srv"
  by (auto simp: update_route_table_def Let_def rust_Inr)

lemma update_table_and_bitmap_store:
  "update_route_table_and_cached_local_conn_bitmap env now srv = Inr srv' \<Longrightarrow>
     srv_synced_route_info srv' = srv_synced_route_info srv"
  by (auto simp: update_route_table_and_cached_local_conn_bitmap_def Let_def rust_Inr split_beta
      update_peer_info_last_update_def dest!: update_route_table_store)

lemma owner_map_store [simp]:
  "srv_synced_route_info (update_foreign_network_owner_map srv) = srv_synced_route_info srv"
  by (simp add: update_foreign_network_owner_map_def split_beta)

lemma held_receive_bitmap:
  "receive_conn_bitmap env now p bm srv = Inr srv' \<Longrightarrow> held (srv_synced_route_info srv) i \<Longrightarrow>
     held (srv_synced_route_info srv') i"
  by (auto simp: receive_conn_bitmap_def rust_Inr intro: held_conn_map)

lemma held_receive_foreign:
  "receive_foreign_network now p infos srv = Inr srv' \<Longrightarrow>
     held (srv_synced_route_info srv') i = held (srv_synced_route_info srv) i"
  by (auto simp: receive_foreign_network_def Let_def rust_Inr held_def split: option.splits)

lemma held_finish:
  assumes "finish_sync_route_info env now p is_init b bitmap foreign srv = Inr srv'"
    and "held (srv_synced_route_info srv) i"
  shows "held (srv_synced_route_info srv') i"
proof -
  from assms(1) obtain srv1 srv2 srv3 where
    1: "(case bitmap of Some bm \<Rightarrow> receive_conn_bitmap env now p bm srv | None \<Rightarrow> Inr srv) = Inr srv1"
    and 2: "(if b \<or> bitmap \<noteq> None then update_route_table_and_cached_local_conn_bitmap env now srv1 else Inr srv1) = Inr srv2"
    and 3: "(case foreign of Some f \<Rightarrow> receive_foreign_network now p f srv2 | None \<Rightarrow> Inr srv2) = Inr srv3"
    and 4: "srv_synced_route_info srv' = srv_synced_route_info srv3"
    unfolding finish_sync_route_info_def Let_def rust_Inr by (force split: if_splits)
  have "held (srv_synced_route_info srv1) i"
    using 1 assms(2) by (auto split: option.splits intro: held_receive_bitmap)
  then have "held (srv_synced_route_info srv2) i"
    using 2 by (auto split: if_splits dest: update_table_and_bitmap_store)
  then have "held (srv_synced_route_info srv3) i"
    using 3 by (auto split: option.splits simp: held_receive_foreign)
  with 4 show ?thesis by simp
qed

lemma held_do_sync:
  assumes run: "do_sync_route_info env now rnd p sid is_init (Some (infos, raws)) bitmap foreign srv = Inr (srv', Inr resp)"
    and i: "i \<in> set infos"
  shows "held (srv_synced_route_info srv') i"
proof -
  from run obtain srv2 srv3 where
    recv: "receive_peer_infos env now p infos raws srv2 = Inr (srv3, None)"
    and fin: "finish_sync_route_info env now p is_init True bitmap foreign srv3 = Inr srv'"
    by (auto simp: do_sync_route_info_def Let_def rust_Inr get_or_start_session_def split: option.splits)
  from recv obtain st where
    "update_peer_infos (env_raw_pid env) now (srv_my_peer_id srv2) (srv_my_peer_route_id srv2) p infos raws
       (srv_synced_route_info srv2) = Inr (st, None)"
    and "sri_peer_infos (srv_synced_route_info srv3) = sri_peer_infos st"
    by (auto simp: receive_peer_infos_def rust_Inr split: option.splits)
  with i have "held (srv_synced_route_info srv3) i"
    using held_update_peer_infos held_cong by metis
  with fin show ?thesis by (rule held_finish)
qed

section \<open>Delivery\<close>

text \<open>The stored raw message of a peer carries the stored version.\<close>

definition raws_match :: "('raw, 'cidr) RouteEnv \<Rightarrow> 'raw SyncedRouteInfo \<Rightarrow> bool" where
  "raws_match env st \<longleftrightarrow>
     (\<forall>p r i. dm_get (sri_raw_peer_infos st) p = Some r \<longrightarrow> dm_get (sri_peer_infos st) p = Some i \<longrightarrow>
        rpi_peer_id (env_decode env r) = p \<and> rpi_version (env_decode env r) = rpi_version i)"

lemma raws_match_merge:
  "raws_match env (fst sn) \<Longrightarrow> raws_match env (fst (merge_peer_info now (env_decode env r) r sn))"
  by (auto simp: raws_match_def merge_peer_info_def Let_def split_beta dm_merge.lookup_merge
      split: option.splits if_splits)

text \<open>Receiving infos keeps it, so it holds for everything a node has learnt from others.\<close>

lemma raws_match_receive:
  "update_peer_infos_loop raw_pid now my_id my_route dst (map (env_decode env) raws) raws sn = Inr (sn', err) \<Longrightarrow>
     raws_match env (fst sn) \<Longrightarrow> raws_match env (fst sn')"
proof (induction raws arbitrary: sn)
  case Nil
  then show ?case by simp
next
  case (Cons r raws)
  from Cons.prems(1) have "sn' = sn \<or> update_peer_infos_loop raw_pid now my_id my_route dst (map (env_decode env) raws) raws
      (merge_peer_info now (env_decode env r) r sn) = Inr (sn', err)"
    by (auto simp: rust_Inr split: option.splits if_splits)
  then show ?case
    using Cons.prems(2) Cons.IH [OF _ raws_match_merge [OF Cons.prems(2)]] by blast
qed

lemma sent_info_stored:
  assumes "build_route_info srv s = Some infos" and "i \<in> set infos" and "sri_inv (srv_synced_route_info srv)"
  shows "dm_get (sri_peer_infos (srv_synced_route_info srv)) (rpi_peer_id i) = Some i"
proof -
  from assms(1,2) obtain k where k: "(k, i) \<in> set (sri_peer_infos (srv_synced_route_info srv))" "rpi_version i \<noteq> 0"
    by (auto simp: build_route_info_def Let_def check_saved_peer_info_update_to_date_def split: if_splits)
  from assms(3) have inv: "dm_inv (sri_peer_infos (srv_synced_route_info srv))"
    and ok: "\<And>k i. dm_get (sri_peer_infos (srv_synced_route_info srv)) k = Some i \<Longrightarrow> info_ok k i"
    by (auto simp: sri_inv_def)
  from k(1) inv have "dm_get (sri_peer_infos (srv_synced_route_info srv)) k = Some i" by (simp add: dm_get_in_set)
  with ok [OF this] k(2) show ?thesis by (simp add: info_ok_def)
qed

lemma sync_route_info_ok:
  assumes "sync_route_info env now rnd req srv = Inr (srv', resp)" and "rs_error resp = None"
  shows "do_sync_route_info env now rnd (rq_my_peer_id req) (rq_my_session_id req) (rq_is_initiator req)
     (map_option (\<lambda>raws. (map (env_decode env) raws, raws)) (rq_peer_infos req))
     (rq_conn_bitmap req) (rq_foreign_network_infos req) srv = Inr (srv', Inr resp)"
proof -
  from assms(1) obtain ret where run: "do_sync_route_info env now rnd (rq_my_peer_id req) (rq_my_session_id req)
     (rq_is_initiator req) (map_option (\<lambda>raws. (map (env_decode env) raws, raws)) (rq_peer_infos req))
     (rq_conn_bitmap req) (rq_foreign_network_infos req) srv = Inr (srv', ret)"
    and resp: "resp = (case ret of Inr resp \<Rightarrow> resp
           | Inl e \<Rightarrow> \<lparr>rs_is_initiator = False, rs_session_id = 0, rs_error = Some (error_code e)\<rparr>)"
    unfolding sync_route_info_def rmap_Inr_iff by (auto simp del: map_option_eq_Some)
  from resp assms(2) have "ret = Inr resp" by (cases ret) auto
  with run show ?thesis by simp
qed

text \<open>
  C12. Delivery. When one node builds a sync request and another handles it without reporting an error, the
  receiver holds every peer info of the request at the version the sender will record or a newer one,
  although the request carries the raw messages received earlier and not the typed infos.
\<close>

theorem sync_delivers:
  assumes req: "sync_route_request env dst flag srv = Some (srv1, pd, req)"
    and inv: "sri_inv (srv_synced_route_info srv)" and raws: "raws_match env (srv_synced_route_info srv)"
    and codec: "\<And>i. env_decode env (env_transcode env i) = i"
    and handled: "sync_route_info env now rnd req peer = Inr (peer', resp)" and ok: "rs_error resp = None"
    and i: "pd_peer_infos pd = Some infos" "i \<in> set infos"
  shows "held (srv_synced_route_info peer') i"
proof -
  let ?raw = "sri_raw_peer_infos (srv_synced_route_info srv)"
  let ?raws = "build_sync_route_raw_req env ?raw infos"
  from req i(1) obtain s where build: "build_route_info srv s = Some infos" and q: "rq_peer_infos req = Some ?raws"
    by (auto simp: sync_route_request_def build_sync_request_def Let_def split: option.splits if_splits)
  note stored = sent_info_stored [OF build i(2) inv]
  obtain j where j: "j \<in> set (map (env_decode env) ?raws)" "rpi_peer_id j = rpi_peer_id i" "rpi_version j = rpi_version i"
  proof (cases "dm_get ?raw (rpi_peer_id i)")
    case None
    then have "env_transcode env i \<in> set ?raws" using i(2) by (force simp: build_sync_route_raw_req_def)
    then have "i \<in> set (map (env_decode env) ?raws)" using codec [of i] by (force simp: image_iff)
    then show thesis using that by blast
  next
    case (Some r)
    then have "r \<in> set ?raws" using i(2) by (force simp: build_sync_route_raw_req_def)
    moreover have "rpi_peer_id (env_decode env r) = rpi_peer_id i" "rpi_version (env_decode env r) = rpi_version i"
      using raws stored Some by (auto simp: raws_match_def)
    ultimately show thesis using that [of "env_decode env r"] by simp
  qed
  from sync_route_info_ok [OF handled ok] q
  have "do_sync_route_info env now rnd (rq_my_peer_id req) (rq_my_session_id req)
      (rq_is_initiator req) (Some (map (env_decode env) ?raws, ?raws)) (rq_conn_bitmap req)
      (rq_foreign_network_infos req) peer = Inr (peer', Inr resp)" by simp
  from held_do_sync [OF this j(1)] j(2,3) show ?thesis by (simp add: held_def)
qed

text \<open>A table update returns whenever both tables can be built.\<close>

lemma update_route_table_total:
  assumes "dijkstra_spec (env_pg_dijkstra env)"
    and "buildable (env_parse_cidr env) (env_calc env) (srv_my_peer_id srv) (srv_synced_route_info srv) (srv_route_table srv)"
    and "buildable (env_parse_cidr env) (env_calc env) (srv_my_peer_id srv) (srv_synced_route_info srv)
           (srv_route_table_with_cost srv)"
  shows "\<exists>t tc. update_route_table env srv = Inr (srv\<lparr>srv_route_table := t, srv_route_table_with_cost := tc\<rparr>)"
proof -
  obtain t where t: "build_from_synced_info (env_pg_dijkstra env) (env_parse_cidr env) (env_calc env)
      (srv_my_peer_id srv) (srv_synced_route_info srv) LeastHop (srv_route_table srv) = Inr t"
    using least_hop_build [OF assms(2,1)] by blast
  obtain tc where "build_from_synced_info (env_pg_dijkstra env) (env_parse_cidr env) (env_calc env)
      (srv_my_peer_id srv) (srv_synced_route_info srv) LeastCost (srv_route_table_with_cost srv) = Inr tc"
    using least_cost_build [OF assms(3), of "env_pg_dijkstra env"] by blast
  with t show ?thesis by (intro exI [of _ t] exI [of _ tc]) (simp add: update_route_table_def Let_def)
qed

text \<open>A receiver that knows only itself and has no connections yet.\<close>

definition example_routing_env :: "(RoutePeerInfo, unit) RouteEnv" where
  "example_routing_env = example_env\<lparr>env_pg_dijkstra := example_dijkstra\<rparr>"

definition example_receiver :: "(RoutePeerInfo, unit) PeerRouteServiceImpl" where
  "example_receiver = (peer_route_service_new 78 0 2 example_ctx [])
     \<lparr>srv_synced_route_info := synced_route_info_new\<lparr>sri_peer_infos := [(2, example_info 2 1)]\<rparr>\<rparr>"

definition example_joined :: "(RoutePeerInfo, unit) PeerRouteServiceImpl" where
  "example_joined = modify_session 1 (\<lambda>s. update_dst_session_id 10 (s\<lparr>ss_rpc_rx_count := ss_rpc_rx_count s + 1\<rparr>))
     (modify_session 1 start_session_task (get_or_create_session 30 1 example_receiver))"

lemma example_receive:
  "case receive_peer_infos example_routing_env 5 1 [example_info 3 4] [example_info 3 4] example_joined of
     Inr (srv3, None) \<Rightarrow>
       sri_peer_infos (srv_synced_route_info srv3) = [(2, example_info 2 1), (3, (example_info 3 4)\<lparr>rpi_last_update := Some 5\<rparr>)] \<and>
       sri_conn_map (srv_synced_route_info srv3) = [] \<and> sri_version (srv_synced_route_info srv3) = 1 \<and>
       srv_route_table srv3 = route_table_new \<and> srv_route_table_with_cost srv3 = route_table_new \<and>
       srv_my_peer_id srv3 = 2 \<and> get_session srv3 1 \<noteq> None
   | _ \<Rightarrow> False"
  by code_simp

lemma example_update:
  assumes "sri_peer_infos (srv_synced_route_info srv) = [(2, example_info 2 1), (3, (example_info 3 4)\<lparr>rpi_last_update := Some 5\<rparr>)]"
    "sri_conn_map (srv_synced_route_info srv) = []" "sri_version (srv_synced_route_info srv) = 1"
    "srv_route_table srv = route_table_new" "srv_route_table_with_cost srv = route_table_new" "srv_my_peer_id srv = 2"
  shows "\<exists>srv'. update_route_table_and_cached_local_conn_bitmap example_routing_env now srv = Inr srv' \<and>
    srv_sessions srv' = srv_sessions srv"
proof -
  let ?srv = "update_peer_info_last_update now srv"
  have b: "buildable (env_parse_cidr example_routing_env) (env_calc example_routing_env) 2 (srv_synced_route_info srv) route_table_new"
    using assms(1,3) by (auto simp: buildable_def dm_inv_def cidrs_parse_def older_def route_table_new_def known_peers_def
        example_info_def route_peer_info_default_def dm_get_def example_routing_env_def example_env_def)
  obtain t tc where t: "update_route_table example_routing_env ?srv = Inr (?srv\<lparr>srv_route_table := t, srv_route_table_with_cost := tc\<rparr>)"
    using update_route_table_total [of example_routing_env ?srv] b assms example_dijkstra_spec
    by (auto simp: update_peer_info_last_update_def example_routing_env_def)
  then show ?thesis
    using assms(2) by (simp add: update_route_table_and_cached_local_conn_bitmap_def Let_def split_beta synced_peer_ids_def
        encode_conn_bitmap_def update_peer_info_last_update_def)
qed

lemma example_handled:
  "\<exists>peer' resp. do_sync_route_info example_routing_env 5 30 1 10 False (Some ([example_info 3 4], [example_info 3 4])) None None
     example_receiver = Inr (peer', Inr resp) \<and> rs_error resp = None"
proof -
  obtain srv3 where recv: "receive_peer_infos example_routing_env 5 1 [example_info 3 4] [example_info 3 4] example_joined = Inr (srv3, None)"
    and facts: "sri_peer_infos (srv_synced_route_info srv3) = [(2, example_info 2 1), (3, (example_info 3 4)\<lparr>rpi_last_update := Some 5\<rparr>)]"
      "sri_conn_map (srv_synced_route_info srv3) = []" "sri_version (srv_synced_route_info srv3) = 1"
      "srv_route_table srv3 = route_table_new" "srv_route_table_with_cost srv3 = route_table_new" "srv_my_peer_id srv3 = 2"
    and s: "get_session srv3 1 \<noteq> None"
    using example_receive by (auto split: sum.splits option.splits prod.splits)
  obtain srv4 where upd: "update_route_table_and_cached_local_conn_bitmap example_routing_env 5 srv3 = Inr srv4"
    and same: "srv_sessions srv4 = srv_sessions srv3"
    using example_update [OF facts] by blast
  obtain s where "get_session (update_foreign_network_owner_map srv4) 1 = Some s"
    using s same by (auto simp: get_session_def update_foreign_network_owner_map_def split_beta)
  with recv upd show ?thesis
    by (simp add: do_sync_route_info_def get_or_start_session_def Let_def example_joined_def [symmetric]
        finish_sync_route_info_def session_response_def)
qed

theorem sync_delivers_witness:
  "\<exists>srv1 pd req peer' resp. sync_route_request example_routing_env 2 False example_sender = Some (srv1, pd, req) \<and>
     sync_route_info example_routing_env 5 30 req example_receiver = Inr (peer', resp) \<and>
     held (srv_synced_route_info peer') example_third"
proof -
  have same: "sync_route_request example_routing_env 2 False example_sender = sync_route_request example_env 2 False example_sender"
  proof -
    have "build_sync_route_raw_req example_routing_env = build_sync_route_raw_req example_env"
      by (simp add: fun_eq_iff build_sync_route_raw_req_def example_routing_env_def split: option.split)
    then show ?thesis by (simp only: sync_route_request_def)
  qed
  obtain srv1 pd req where req: "sync_route_request example_routing_env 2 False example_sender = Some (srv1, pd, req)"
    and parts: "pd_peer_infos pd = Some [example_third]" "rq_peer_infos req = Some [example_info 3 4]" "rq_my_peer_id req = 1"
      "rq_conn_bitmap req = None" "rq_foreign_network_infos req = None" "rq_my_session_id req = 10" "\<not> rq_is_initiator req"
    using example_request unfolding same by blast
  have dec: "env_decode example_routing_env = id" "env_transcode example_routing_env = id"
    by (simp_all add: example_routing_env_def example_env_def)
  obtain peer' resp where "do_sync_route_info example_routing_env 5 30 1 10 False (Some ([example_info 3 4], [example_info 3 4])) None None
     example_receiver = Inr (peer', Inr resp)" and ok: "rs_error resp = None" using example_handled by blast
  then have run: "sync_route_info example_routing_env 5 30 req example_receiver = Inr (peer', resp)"
    using parts by (simp add: sync_route_info_def dec)
  have inv: "sri_inv (srv_synced_route_info example_sender)" "raws_match example_routing_env (srv_synced_route_info example_sender)"
    by (auto simp: example_sender_def sri_inv_def trust_ok_def info_ok_def raws_match_def synced_route_info_new_def
        example_third_def example_info_def route_peer_info_default_def dm_get_def dm_inv_def dec split: if_splits)
  have "held (srv_synced_route_info peer') example_third"
    by (rule sync_delivers [OF req inv _ run ok parts(1)]) (simp_all add: dec)
  with req run show ?thesis by blast
qed

end
