(* ===== verification/OspfInitiator.thy ===== *)
theory OspfInitiator
  imports OspfSync
begin

text \<open>
  The session manager as a state machine: the route service of a node together with the variable
  \<open>cur_dst_peer_id_to_initiate\<close> of its \<open>maintain_sessions\<close> loop. Every handler and every task of \<open>PeerRoute\<close> is a
  step, in any order.
\<close>

inductive service_step ::
  "('raw, 'cidr) RouteEnv \<Rightarrow> PeerId option \<times> ('raw, 'cidr) PeerRouteServiceImpl
    \<Rightarrow> PeerId option \<times> ('raw, 'cidr) PeerRouteServiceImpl \<Rightarrow> bool"
  for env where
  step_maintain: "service_step env st (maintain_sessions_round rnd peers st)"
| step_request: "sync_route_request env dst flag srv = Some (srv', pd, req) \<Longrightarrow> service_step env (cur, srv) (cur, srv')"
| step_response: "sync_route_response pd ret srv = Inr srv' \<Longrightarrow> service_step env (cur, srv) (cur, srv')"
| step_handle: "sync_route_info env now rnd req srv = Inr (srv', resp) \<Longrightarrow> service_step env (cur, srv) (cur, srv')"
| step_own_infos: "update_my_peer_info_round env now peers fns need srv = Inr (srv', sync) \<Longrightarrow>
    service_step env (cur, srv) (cur, srv')"
| step_expire: "clear_expired_peer now srv = Inr srv' \<Longrightarrow> service_step env (cur, srv) (cur, srv')"
| step_cost_fn: "set_route_cost_fn env cost_fn srv = Inr srv' \<Longrightarrow> service_step env (cur, srv) (cur, srv')"
| step_task_dies: "service_step env (cur, srv) (cur, modify_session d (\<lambda>s. s\<lparr>ss_task_running := False\<rparr>) srv)"

section \<open>Which operations touch the sessions\<close>

lemma update_route_table_sessions:
  "update_route_table env srv = Inr srv' \<Longrightarrow> srv_sessions srv' = srv_sessions srv"
  by (auto simp: update_route_table_def Let_def rust_Inr)

lemma update_table_and_bitmap_sessions:
  "update_route_table_and_cached_local_conn_bitmap env now srv = Inr srv' \<Longrightarrow> srv_sessions srv' = srv_sessions srv"
  by (auto simp: update_route_table_and_cached_local_conn_bitmap_def Let_def rust_Inr split_beta
      update_peer_info_last_update_def dest!: update_route_table_sessions)

lemma owner_map_sessions [simp]:
  "srv_sessions (update_foreign_network_owner_map srv) = srv_sessions srv"
  by (simp add: update_foreign_network_owner_map_def split_beta)

lemma last_update_sessions [simp]: "srv_sessions (update_peer_info_last_update now srv) = srv_sessions srv"
  by (simp add: update_peer_info_last_update_def)

lemma update_my_sessions:
  "update_my_peer_info env now srv = Inr (srv', b) \<Longrightarrow> srv_sessions srv' = srv_sessions srv"
  "update_my_conn_info env now peers srv = Inr (srv', b) \<Longrightarrow> srv_sessions srv' = srv_sessions srv"
  "update_my_foreign_network now fns srv = Inr (srv', b) \<Longrightarrow> srv_sessions srv' = srv_sessions srv"
  by (auto simp: update_my_peer_info_def update_my_conn_info_def update_my_foreign_network_def Let_def rust_Inr
      split_beta split: if_splits dest!: update_table_and_bitmap_sessions)

lemma update_my_infos_sessions:
  "update_my_infos env now peers fns srv = Inr (srv', b) \<Longrightarrow> srv_sessions srv' = srv_sessions srv"
  unfolding update_my_infos_def rbind_Inr_iff Let_def
  by (auto simp: rbind_Inr_iff split: if_splits dest!: update_my_sessions)

lemma update_my_round_sessions:
  "update_my_peer_info_round env now peers fns need srv = Inr (srv', b) \<Longrightarrow> srv_sessions srv' = srv_sessions srv"
  by (auto simp: update_my_peer_info_round_def rust_Inr split: if_splits
      dest!: update_my_infos_sessions update_route_table_sessions)

lemma clear_expired_sessions: "clear_expired_peer now srv = Inr srv' \<Longrightarrow> srv_sessions srv' = srv_sessions srv"
  by (auto simp: clear_expired_peer_def rust_Inr Let_def)

lemma cost_fn_sessions: "set_route_cost_fn env f srv = Inr srv' \<Longrightarrow> srv_sessions srv' = srv_sessions srv"
  by (auto simp: set_route_cost_fn_def rust_Inr dest!: update_route_table_sessions)

section \<open>The invariant\<close>

definition initiator_ok :: "PeerId option \<times> ('raw, 'cidr) PeerRouteServiceImpl \<Rightarrow> bool" where
  "initiator_ok st \<longleftrightarrow>
     (\<forall>d s. get_session (snd st) d = Some s \<longrightarrow> ss_we_are_initiator s \<longrightarrow> fst st = Some d)"

lemma initiator_ok_sessions:
  "srv_sessions srv' = srv_sessions srv \<Longrightarrow> initiator_ok (cur, srv') = initiator_ok (cur, srv)"
  by (simp add: initiator_ok_def get_session_def)

lemma initiator_ok_frame [simp]:
  "initiator_ok (cur, srv\<lparr>srv_synced_route_info := st\<rparr>) = initiator_ok (cur, srv)"
  "initiator_ok (cur, update_foreign_network_owner_map srv) = initiator_ok (cur, srv)"
  by (simp_all add: initiator_ok_def get_session_def)

lemma get_session_frame [simp]:
  "get_session (srv\<lparr>srv_synced_route_info := st\<rparr>) d = get_session srv d"
  by (simp add: get_session_def)

lemma initiator_ok_modify:
  "initiator_ok (cur, srv) \<Longrightarrow> (\<And>s. get_session srv d = Some s \<Longrightarrow> ss_we_are_initiator (f s) \<Longrightarrow> ss_we_are_initiator s) \<Longrightarrow>
     initiator_ok (cur, modify_session d f srv)"
  by (auto simp: initiator_ok_def)

lemma initiator_ok_create:
  "initiator_ok (cur, srv) \<Longrightarrow> initiator_ok (cur, get_or_create_session rnd d srv)"
  by (auto simp: initiator_ok_def get_or_create_session_def get_session_def dm_get_or_insert
      sync_route_session_new_def split: if_splits option.splits)

lemma get_remove_session [simp]:
  "get_session (remove_session d srv) d' = (if d' = d then None else get_session srv d')"
  by (simp add: remove_session_def get_session_def)

lemma get_fold_remove:
  "get_session (fold remove_session ds srv) d = (if d \<in> set ds then None else get_session srv d)"
  by (induction ds arbitrary: srv) auto

lemma get_fold_stop:
  "get_session (fold (stop_unless keep) ds srv) d = Some s \<Longrightarrow> get_session srv d = Some s"
proof (induction ds arbitrary: srv)
  case Nil
  then show ?case by simp
next
  case (Cons p ds)
  then have "get_session (stop_unless keep p srv) d = Some s" by simp
  then show ?case by (simp add: stop_unless_def split: option.splits if_splits)
qed

text \<open>Neither answers nor requests of the other side set the flag.\<close>

lemma saved_keeps_initiator [simp]:
  "ss_we_are_initiator (update_dst_session_id sid s) = ss_we_are_initiator s"
  "ss_we_are_initiator (update_dst_saved_peer_info_version infos s) = ss_we_are_initiator s"
  "ss_we_are_initiator (update_dst_saved_conn_bitmap_version bm s) = ss_we_are_initiator s"
  "ss_we_are_initiator (start_session_task s) = ss_we_are_initiator s"
  by (simp_all add: update_dst_session_id_def update_dst_saved_peer_info_version_def
      update_dst_saved_conn_bitmap_version_def start_session_task_def)

lemma saved_foreign_keeps_initiator:
  "update_dst_saved_foreign_network_version infos s = Inr s' \<Longrightarrow> ss_we_are_initiator s' = ss_we_are_initiator s"
  by (auto simp: update_dst_saved_foreign_network_version_def rust_Inr)

lemma sync_succeeded_keeps_initiator:
  "sync_succeeded pd resp s = Inr s' \<Longrightarrow> ss_we_are_initiator s' = ss_we_are_initiator s"
  by (auto simp: sync_succeeded_def Let_def split: option.splits dest!: saved_foreign_keeps_initiator)

lemma initiator_ok_response:
  "sync_route_response pd ret srv = Inr srv' \<Longrightarrow> initiator_ok (cur, srv) \<Longrightarrow> initiator_ok (cur, srv')"
  by (auto simp: sync_route_response_def Let_def rust_Inr intro!: initiator_ok_modify
      dest: sync_succeeded_keeps_initiator split: option.splits if_splits)

lemma initiator_ok_receive_infos:
  assumes "receive_peer_infos env now p infos raws srv = Inr (srv', e)" and "initiator_ok (cur, srv)"
  shows "initiator_ok (cur, srv')"
proof -
  from assms(1) obtain st where "srv' = srv\<lparr>srv_synced_route_info := st\<rparr> \<or>
      srv' = modify_session p (update_dst_saved_peer_info_version infos) (srv\<lparr>srv_synced_route_info := st\<rparr>)"
    by (auto simp: receive_peer_infos_def rmap_Inr_iff split: option.splits)
  then show ?thesis using assms(2) by (auto intro: initiator_ok_modify)
qed

lemma initiator_ok_receive_bitmap:
  "receive_conn_bitmap env now p bm srv = Inr srv' \<Longrightarrow> initiator_ok (cur, srv) \<Longrightarrow> initiator_ok (cur, srv')"
  by (auto simp: receive_conn_bitmap_def rmap_Inr_iff intro: initiator_ok_modify)

lemma initiator_ok_receive_foreign:
  "receive_foreign_network now p infos srv = Inr srv' \<Longrightarrow> initiator_ok (cur, srv) \<Longrightarrow> initiator_ok (cur, srv')"
  by (auto simp: receive_foreign_network_def Let_def rmap_Inr_iff
      intro!: initiator_ok_modify dest: saved_foreign_keeps_initiator split: option.splits)

lemma initiator_ok_finish:
  assumes "finish_sync_route_info env now p is_init b bitmap foreign srv = Inr srv'" and "initiator_ok (cur, srv)"
  shows "initiator_ok (cur, srv')"
proof -
  from assms(1) obtain srv1 srv2 srv3 where
    1: "(case bitmap of Some bm \<Rightarrow> receive_conn_bitmap env now p bm srv | None \<Rightarrow> Inr srv) = Inr srv1"
    and 2: "(if b \<or> bitmap \<noteq> None then update_route_table_and_cached_local_conn_bitmap env now srv1 else Inr srv1) = Inr srv2"
    and 3: "(case foreign of Some f \<Rightarrow> receive_foreign_network now p f srv2 | None \<Rightarrow> Inr srv2) = Inr srv3"
    and 4: "srv' = modify_session p (\<lambda>s. s\<lparr>ss_dst_is_initiator := is_init\<rparr>)
              (if b \<or> bitmap \<noteq> None \<or> foreign \<noteq> None then update_foreign_network_owner_map srv3 else srv3)"
    unfolding finish_sync_route_info_def Let_def rust_Inr by (force split: if_splits)
  have "initiator_ok (cur, srv1)"
    using 1 assms(2) by (auto split: option.splits intro: initiator_ok_receive_bitmap)
  then have "initiator_ok (cur, srv2)"
    using 2 by (auto split: if_splits dest!: update_table_and_bitmap_sessions intro: initiator_ok_sessions [THEN iffD2])
  then have "initiator_ok (cur, srv3)"
    using 3 by (auto split: option.splits intro: initiator_ok_receive_foreign)
  then show ?thesis unfolding 4 by (intro initiator_ok_modify) auto
qed

lemma initiator_ok_do_sync:
  assumes run: "do_sync_route_info env now rnd p sid is_init infos bitmap foreign srv = Inr (srv', ret)"
    and ok: "initiator_ok (cur, srv)"
  shows "initiator_ok (cur, srv')"
proof -
  define srv2 where "srv2 = modify_session p (\<lambda>s. update_dst_session_id sid (s\<lparr>ss_rpc_rx_count := ss_rpc_rx_count s + 1\<rparr>))
      (modify_session p start_session_task (get_or_create_session rnd p srv))"
  have ok2: "initiator_ok (cur, srv2)"
    unfolding srv2_def using ok by (intro initiator_ok_modify initiator_ok_create) auto
  from run obtain srv3 e where
    recv: "(case infos of Some (is, raws) \<Rightarrow> receive_peer_infos env now p is raws srv2 | None \<Rightarrow> Inr (srv2, None)) = Inr (srv3, e)"
    and rest: "srv' = srv3 \<or> finish_sync_route_info env now p is_init (infos \<noteq> None) bitmap foreign srv3 = Inr srv'"
    unfolding do_sync_route_info_def get_or_start_session_def Let_def srv2_def
    by (auto simp: rbind_Inr_iff rmap_Inr_iff split: option.splits)
  have "initiator_ok (cur, srv3)"
    using recv ok2 by (auto split: option.splits prod.splits intro: initiator_ok_receive_infos)
  with rest show ?thesis by (auto intro: initiator_ok_finish)
qed

lemma initiator_ok_handle:
  "sync_route_info env now rnd req srv = Inr (srv', resp) \<Longrightarrow> initiator_ok (cur, srv) \<Longrightarrow> initiator_ok (cur, srv')"
  by (auto simp: sync_route_info_def rmap_Inr_iff intro: initiator_ok_do_sync)

lemma initiator_ok_switch:
  assumes "initiator_ok (cur, srv)"
  shows "initiator_ok (Some new, switch_initiator rnd new cur srv)"
proof -
  let ?srv1 = "case cur of Some p \<Rightarrow> modify_session p (update_initiator_flag False) srv | None \<Rightarrow> srv"
  have "initiator_ok (None :: PeerId option, ?srv1)"
    using assms by (cases cur) (auto simp: initiator_ok_def update_initiator_flag_def)
  then have "initiator_ok (None, modify_session new start_session_task (get_or_create_session rnd new ?srv1))"
    by (intro initiator_ok_modify initiator_ok_create) auto
  then show ?thesis
    by (auto simp: switch_initiator_def get_or_start_session_def Let_def initiator_ok_def split: if_splits)
qed

lemma initiator_ok_stop:
  "initiator_ok (cur, srv) \<Longrightarrow> initiator_ok (cur, fold (stop_unless keep) ds srv)"
  by (auto simp: initiator_ok_def dest: get_fold_stop)

lemma initiator_ok_maintain:
  assumes "initiator_ok st"
  shows "initiator_ok (maintain_sessions_round rnd listed st)"
proof -
  obtain cur srv where st: "st = (cur, srv)" by fastforce
  define gone where "gone = filter (\<lambda>p. p \<notin> set (sort listed)) (list_session_peers srv)"
  define cur1 where "cur1 = (if cur \<in> Some ` set gone then None else cur)"
  define srv1 where "srv1 = fold remove_session gone srv"
  define candidates where "candidates = filter (\<lambda>p. case get_session srv1 p of
              None \<Rightarrow> True | Some s \<Rightarrow> \<not> ss_dst_is_initiator s) (sort listed)"
  have ok1: "initiator_ok (cur1, srv1)"
    using assms by (auto simp: st initiator_ok_def srv1_def cur1_def get_fold_remove split: if_splits)
  have unfold: "maintain_sessions_round rnd listed st =
      (case choose_initiator_dst (srv_route_table srv1) candidates of
         None \<Rightarrow> (cur1, srv1)
       | Some new \<Rightarrow> (Some new, fold (stop_unless session_needed) (list_session_peers srv)
           (if Some new \<noteq> cur1 then switch_initiator rnd new cur1 srv1 else srv1)))"
    unfolding maintain_sessions_round_def st candidates_def srv1_def cur1_def gone_def Let_def prod.case ..
  show ?thesis
  proof (cases "choose_initiator_dst (srv_route_table srv1) candidates")
    case None
    with ok1 unfold show ?thesis by simp
  next
    case (Some new)
    have "initiator_ok (Some new, if Some new \<noteq> cur1 then switch_initiator rnd new cur1 srv1 else srv1)"
      using ok1 initiator_ok_switch [OF ok1] by (cases "Some new = cur1") simp_all
    with Some unfold show ?thesis by (simp only: option.case) (rule initiator_ok_stop)
  qed
qed

lemma initiator_ok_step: "service_step env st st' \<Longrightarrow> initiator_ok st \<Longrightarrow> initiator_ok st'"
proof (induction rule: service_step.induct)
  case (step_request dst flag srv srv' pd req cur)
  from step_request(1) have "srv' = modify_session dst (\<lambda>s. s\<lparr>ss_need_sync_initiator_info := False\<rparr>) srv"
    by (rule sync_route_request_Some)
  with step_request(2) show ?case by (auto intro: initiator_ok_modify)
next
  case (step_task_dies cur srv d)
  then show ?case by (intro initiator_ok_modify) auto
qed (auto intro: initiator_ok_maintain initiator_ok_response initiator_ok_handle initiator_ok_sessions [THEN iffD2]
    dest: update_my_round_sessions clear_expired_sessions cost_fn_sessions)

lemma initiator_ok_reachable: "(service_step env)\<^sup>*\<^sup>* st st' \<Longrightarrow> initiator_ok st \<Longrightarrow> initiator_ok st'"
  by (induction rule: rtranclp_induct) (auto intro: initiator_ok_step)

lemma initiator_ok_new: "initiator_ok (None, peer_route_service_new rnd now my_id ctx decls)"
  by (simp add: initiator_ok_def get_session_def peer_route_service_new_def)

text \<open>
  C14. One initiator session. In every state a node's route service can reach, through any interleaving of its tasks and of the
  requests of other nodes, at most one session has the initiator flag, and it is the session
  to the peer that \<open>maintain_sessions\<close> remembers.
\<close>

theorem at_most_one_initiator:
  assumes "(service_step env)\<^sup>*\<^sup>* (None, peer_route_service_new rnd now my_id ctx decls) (cur, srv)"
    and "get_session srv d = Some s" and "ss_we_are_initiator s"
  shows "cur = Some d \<and> (\<forall>d' s'. get_session srv d' = Some s' \<longrightarrow> ss_we_are_initiator s' \<longrightarrow> d' = d)"
  using initiator_ok_reachable [OF assms(1) initiator_ok_new] assms(2,3) by (auto simp: initiator_ok_def)

definition example_start :: "PeerId option \<times> (RoutePeerInfo, unit) PeerRouteServiceImpl" where
  "example_start = (None, peer_route_service_new 77 0 1 example_ctx [])"

theorem at_most_one_initiator_witness:
  "\<exists>cur srv s. (service_step example_env)\<^sup>*\<^sup>* example_start (cur, srv) \<and>
     get_session srv 2 = Some s \<and> ss_we_are_initiator s \<and> cur = Some 2"
proof -
  let ?st = "maintain_sessions_round 10 [2, 5] example_start"
  have "service_step example_env example_start ?st" by (rule step_maintain)
  then have reach: "(service_step example_env)\<^sup>*\<^sup>* example_start (fst ?st, snd ?st)"
    unfolding prod.collapse by (rule r_into_rtranclp)
  have "\<exists>s. get_session (snd ?st) 2 = Some s \<and> ss_we_are_initiator s"
    by (simp add: example_start_def maintain_sessions_round_def list_session_peers_def peer_route_service_new_def get_session_def
        choose_initiator_dst_def route_table_new_def get_nat_type_def switch_initiator_def get_or_start_session_def
        get_or_create_session_def dm_or_insert_def modify_session_def dm_get_def dm_insert_def
        sync_route_session_new_def update_initiator_flag_def start_session_task_def Let_def)
  then obtain s where s: "get_session (snd ?st) 2 = Some s" "ss_we_are_initiator s" by blast
  from at_most_one_initiator [OF reach [unfolded example_start_def], folded example_start_def, OF s] have "fst ?st = Some 2" by simp
  with reach s show ?thesis by metis
qed

section \<open>An initiator whose task has ended\<close>

text \<open>
  A dead initiator is not replaced. When the task of the initiator session has ended, the next
  round of \<open>maintain_sessions\<close> removes the session; because the loop still remembers its peer as the one to initiate to, no
  later round creates a session again while the same peers are listed.
\<close>

theorem dead_initiator_not_restarted:
  assumes "srv_sessions srv = [(p, s)]" and "\<not> ss_task_running s" and "\<not> ss_dst_is_initiator s" and "p \<in> set listed"
    and "choose_initiator_dst (srv_route_table srv) (sort listed) = Some p"
  shows "fold (\<lambda>r. maintain_sessions_round r listed) (rnd # rnds) (Some p, srv) = (Some p, srv\<lparr>srv_sessions := []\<rparr>)"
proof -
  have cand: "filter (\<lambda>q. case get_session srv q of None \<Rightarrow> True | Some s \<Rightarrow> \<not> ss_dst_is_initiator s) (sort listed) = sort listed"
    using assms(1,3) by (auto simp: get_session_def dm_get_def filter_id_conv split: option.splits if_splits)
  have first: "maintain_sessions_round rnd listed (Some p, srv) = (Some p, srv\<lparr>srv_sessions := []\<rparr>)"
    using assms cand by (simp add: maintain_sessions_round_def Let_def list_session_peers_def stop_unless_def
        get_session_def dm_get_def session_needed_def remove_session_def dm_remove_def)
  have later: "maintain_sessions_round r listed (Some p, srv\<lparr>srv_sessions := []\<rparr>) = (Some p, srv\<lparr>srv_sessions := []\<rparr>)" for r
    using assms(5) by (simp add: maintain_sessions_round_def Let_def list_session_peers_def get_session_def)
  have "fold (\<lambda>r. maintain_sessions_round r listed) rnds (Some p, srv\<lparr>srv_sessions := []\<rparr>) = (Some p, srv\<lparr>srv_sessions := []\<rparr>)"
    by (induction rnds) (simp_all add: later)
  with first show ?thesis by simp
qed

definition example_dead :: "(RoutePeerInfo, unit) PeerRouteServiceImpl" where
  "example_dead = (peer_route_service_new 77 0 1 example_ctx [])
     \<lparr>srv_sessions := [(2, (sync_route_session_new 10 1 2)\<lparr>ss_we_are_initiator := True\<rparr>)]\<rparr>"

theorem dead_initiator_not_restarted_witness:
  "fold (\<lambda>r. maintain_sessions_round r [5, 2]) [11, 12, 13] (Some 2, example_dead) =
     (Some 2, example_dead\<lparr>srv_sessions := []\<rparr>)"
proof (rule dead_initiator_not_restarted)
  show "srv_sessions example_dead = [(2, (sync_route_session_new 10 1 2)\<lparr>ss_we_are_initiator := True\<rparr>)]"
    by (simp add: example_dead_def)
  show "choose_initiator_dst (srv_route_table example_dead) (sort [5, 2]) = Some 2"
    by (simp add: choose_initiator_dst_def example_dead_def peer_route_service_new_def route_table_new_def get_nat_type_def)
qed (simp_all add: sync_route_session_new_def)

end
