(* ===== verification/OspfQueries.thy ===== *)
theory OspfQueries
  imports OspfSync
begin

text \<open>
  What the route service answers about foreign networks, what expires, and how it takes a malformed foreign network list.
\<close>

section \<open>Owners of foreign networks\<close>

text \<open>An entry of the store that makes a node a route into a foreign network.\<close>

definition offers ::
  "('raw, 'cidr) PeerRouteServiceImpl \<Rightarrow> ForeignNetworkRouteInfoKey \<Rightarrow> ForeignNetworkRouteInfoEntry \<Rightarrow> bool" where
  "offers srv key entry \<longleftrightarrow>
     (key, entry) \<in> set (sri_foreign_network (srv_synced_route_info srv)) \<and> fnk_peer_id key \<noteq> srv_my_peer_id srv \<and>
     peer_reachable (srv_route_table srv) (fnk_peer_id key) \<and> fne_foreign_peer_ids entry \<noteq> []"

definition entry_identity :: "ForeignNetworkRouteInfoKey \<Rightarrow> ForeignNetworkRouteInfoEntry \<Rightarrow> NetworkIdentity" where
  "entry_identity key entry = \<lparr>nid_network_name = fnk_network_name key,
     nid_network_secret_digest = Some (digest_or_default (fne_network_secret_digest entry))\<rparr>"

definition owners_in :: "(NetworkIdentity, PeerId list) dmap \<Rightarrow> NetworkIdentity \<Rightarrow> PeerId set" where
  "owners_in m nid = (case dm_get m nid of Some ps \<Rightarrow> set ps | None \<Rightarrow> {})"

definition counts ::
  "('raw, 'cidr) PeerRouteServiceImpl \<Rightarrow> ForeignNetworkRouteInfoKey \<times> ForeignNetworkRouteInfoEntry \<Rightarrow> bool" where
  "counts srv item \<longleftrightarrow> fnk_peer_id (fst item) \<noteq> srv_my_peer_id srv \<and>
     peer_reachable (srv_route_table srv) (fnk_peer_id (fst item)) \<and> fne_foreign_peer_ids (snd item) \<noteq> []"

lemma owners_in_upsert:
  "owners_in (dm_upsert k (\<lambda>l. l @ [p]) [p] m) nid = (if nid = k then insert p (owners_in m nid) else owners_in m nid)"
  by (auto simp: owners_in_def dm_get_upsert split: option.splits)

lemma own_foreign_network_owners:
  "owners_in (fst (own_foreign_network srv item maps)) nid =
     (if counts srv item \<and> nid = entry_identity (fst item) (snd item)
      then insert (fne_my_peer_id_for_this_network (snd item)) (owners_in (fst maps) nid) else owners_in (fst maps) nid)"
  by (auto simp: own_foreign_network_def counts_def split_beta Let_def owners_in_upsert entry_identity_def)

lemma fold_owners:
  "owners_in (fst (fold (own_foreign_network srv) items maps)) nid = owners_in (fst maps) nid \<union>
     (\<lambda>x. fne_my_peer_id_for_this_network (snd x)) `
       {x \<in> set items. counts srv x \<and> nid = entry_identity (fst x) (snd x)}"
proof (induction items arbitrary: maps)
  case Nil
  then show ?case by simp
next
  case (Cons x items)
  have "{y \<in> set (x # items). counts srv y \<and> nid = entry_identity (fst y) (snd y)} =
      (if counts srv x \<and> nid = entry_identity (fst x) (snd x) then {x} else {}) \<union>
      {y \<in> set items. counts srv y \<and> nid = entry_identity (fst y) (snd y)}" by auto
  then show ?case by (simp add: Cons.IH own_foreign_network_owners image_Un)
qed

text \<open>
  C28. Owners of a foreign network. After the owner map is rebuilt, the peers returned for a network
  identity are exactly the ids under which other reachable nodes with at least one member of that network serve it.
\<close>

theorem foreign_network_owners_exact:
  "p \<in> set (list_peers_own_foreign_network (update_foreign_network_owner_map srv) nid) \<longleftrightarrow>
     (\<exists>key entry. offers srv key entry \<and> nid = entry_identity key entry \<and> p = fne_my_peer_id_for_this_network entry)"
proof -
  let ?items = "sri_foreign_network (srv_synced_route_info srv)"
  have "set (list_peers_own_foreign_network (update_foreign_network_owner_map srv) nid) =
      owners_in (fst (fold (own_foreign_network srv) ?items ([], []))) nid"
    by (simp add: list_peers_own_foreign_network_def update_foreign_network_owner_map_def owners_in_def split_beta
        split: option.split)
  also have "\<dots> = (\<lambda>x. fne_my_peer_id_for_this_network (snd x)) `
       {x \<in> set ?items. counts srv x \<and> nid = entry_identity (fst x) (snd x)}"
    unfolding fold_owners by (simp add: owners_in_def)
  finally have "p \<in> set (list_peers_own_foreign_network (update_foreign_network_owner_map srv) nid) \<longleftrightarrow>
      (\<exists>x. x \<in> set ?items \<and> counts srv x \<and> nid = entry_identity (fst x) (snd x) \<and>
           p = fne_my_peer_id_for_this_network (snd x))" by blast
  then show ?thesis unfolding offers_def counts_def split_paired_Ex fst_conv snd_conv by (simp only: conj_assoc)
qed

section \<open>Malformed foreign network lists\<close>

lemma save_foreign_versions_panic:
  "save_foreign_versions infos m = Inl e \<longleftrightarrow> e = UnwrapNone \<and> (\<exists>x \<in> set infos. fst x = None \<or> snd x = None)"
proof (induction infos arbitrary: m)
  case Nil
  then show ?case by simp
next
  case (Cons x infos)
  obtain k v where x: "x = (k, v)" by fastforce
  show ?case using Cons.IH by (cases k; cases v) (auto simp: x)
qed

text \<open>
  A foreign network list with an item that lacks its key or value is merged item by item with such items skipped, but recording
  the versions of the same list panics, so the request handler does.
\<close>

theorem missing_foreign_key_panics:
  assumes "get_session srv p = Some s"
  shows "receive_foreign_network now p infos srv = Inl UnwrapNone \<longleftrightarrow>
      (\<exists>x \<in> set infos. fst x = None \<or> snd x = None)"
proof (cases "save_foreign_versions infos (ss_dst_saved_foreign_network_versions s)")
  case (Inl e)
  with assms save_foreign_versions_panic [THEN iffD1, OF Inl] show ?thesis
    by (simp add: receive_foreign_network_def get_session_def update_dst_saved_foreign_network_version_def)
next
  case (Inr m)
  then have "\<not> (\<exists>x \<in> set infos. fst x = None \<or> snd x = None)"
    using save_foreign_versions_panic [of infos "ss_dst_saved_foreign_network_versions s" UnwrapNone] by simp
  with assms Inr show ?thesis
    by (simp add: receive_foreign_network_def get_session_def update_dst_saved_foreign_network_version_def)
qed

theorem missing_foreign_key_panics_witness:
  "receive_foreign_network 5 2 [(None, None)] example_sender = Inl UnwrapNone"
proof -
  have "\<exists>s. get_session example_sender 2 = Some s" by (simp add: example_sender_def get_session_def dm_get_def)
  then obtain s where s: "get_session example_sender 2 = Some s" ..
  show ?thesis using missing_foreign_key_panics [OF s, of 5 "[(None, None)]"] by simp
qed

section \<open>Expiry\<close>

definition info_expired :: "time \<Rightarrow> RoutePeerInfo \<Rightarrow> bool" where
  "info_expired now i \<longleftrightarrow>
     (\<exists>t. rpi_last_update i = Some t \<and> t \<le> now \<and> now - t > REMOVE_DEAD_PEER_INFO_AFTER)"

lemma expired_peers_ok:
  "\<forall>(p, i) \<in> set infos. rpi_last_update i \<noteq> None \<Longrightarrow>
     \<exists>ps. expired_peers now infos = Inr ps \<and> set ps = {p. \<exists>i. (p, i) \<in> set infos \<and> info_expired now i} \<and>
       length ps \<le> length infos"
proof (induction infos)
  case Nil
  then show ?case by simp
next
  case (Cons x infos)
  obtain p i where x: "x = (p, i)" by fastforce
  with Cons.prems obtain t where t: "rpi_last_update i = Some t" by auto
  from Cons obtain ps where ps: "expired_peers now infos = Inr ps"
    "set ps = {p. \<exists>i. (p, i) \<in> set infos \<and> info_expired now i}" "length ps \<le> length infos" by auto
  show ?case using ps t by (auto simp: x info_expired_def)
qed

lemma remove_peers_ok:
  assumes "unat (sri_version st) + length ps < 2 ^ 32"
  shows "\<exists>st'. remove_peers ps st = Inr st' \<and>
    (\<forall>p. dm_get (sri_peer_infos st') p = (if p \<in> set ps then None else dm_get (sri_peer_infos st) p)) \<and>
    (dm_inv (sri_foreign_network st) \<longrightarrow> dm_inv (sri_foreign_network st') \<and>
      (\<forall>k. dm_get (sri_foreign_network st') k =
         (if fnk_peer_id k \<in> set ps then None else dm_get (sri_foreign_network st) k)))"
  using assms
proof (induction ps arbitrary: st)
  case (Cons p ps)
  let ?st = "st\<lparr>sri_peer_infos := dm_remove p (sri_peer_infos st),
         sri_raw_peer_infos := dm_remove p (sri_raw_peer_infos st),
         sri_conn_map := dm_remove p (sri_conn_map st),
         sri_foreign_network := dm_retain (\<lambda>k _. fnk_peer_id k \<noteq> p) (sri_foreign_network st),
         sri_group_trust_map := dm_remove p (sri_group_trust_map st),
         sri_group_trust_map_cache := dm_remove p (sri_group_trust_map_cache st)\<rparr>"
  have run: "remove_peer p st = Inr (bumped ?st)"
    unfolding remove_peer_def sri_inc_version_Inr using Cons.prems by simp
  have "unat (sri_version (bumped ?st)) = unat (sri_version st) + 1"
    using Cons.prems unat_add_lem [of "sri_version st" 1] by simp
  then have "unat (sri_version (bumped ?st)) + length ps < 2 ^ 32" using Cons.prems by simp
  from Cons.IH [OF this] obtain st' where st': "remove_peers ps (bumped ?st) = Inr st'"
    "\<forall>q. dm_get (sri_peer_infos st') q = (if q \<in> set ps then None else dm_get (sri_peer_infos (bumped ?st)) q)"
    "dm_inv (sri_foreign_network (bumped ?st)) \<longrightarrow> dm_inv (sri_foreign_network st') \<and>
      (\<forall>k. dm_get (sri_foreign_network st') k =
         (if fnk_peer_id k \<in> set ps then None else dm_get (sri_foreign_network (bumped ?st)) k))" by blast
  show ?case
    using st' by (intro exI [of _ st']) (auto simp: run dm_get_retain split: option.splits)
qed simp

lemma fold_dm_remove_get: "dm_get (fold dm_remove ks m) k = (if k \<in> set ks then None else dm_get m k)"
  by (induction ks arbitrary: m) auto

text \<open>The entries that go: too old themselves, or announced by a peer that is removed.\<close>

definition network_dropped ::
  "time \<Rightarrow> 'raw SyncedRouteInfo \<Rightarrow> ForeignNetworkRouteInfoKey \<Rightarrow> ForeignNetworkRouteInfoEntry \<Rightarrow> bool" where
  "network_dropped now st k e \<longleftrightarrow> foreign_network_expired now e \<or>
     (\<exists>i. dm_get (sri_peer_infos st) (fnk_peer_id k) = Some i \<and> info_expired now i)"

lemma dead_networks_iff:
  "dm_inv m \<Longrightarrow> k \<in> set (map fst (filter (\<lambda>(k, e). P e) m)) \<longleftrightarrow> (\<exists>e. dm_get m k = Some e \<and> P e)"
  by (force simp: dm_get_in_set)

text \<open>
  Expiry is exact. On a well-formed store whose version is not about to overflow \<open>clear_expired_peer\<close> returns; it removes exactly the peer infos not refreshed for
  longer than the limit and exactly the foreign network entries that are as old, carry no time or a time in the
  future, or were announced by a removed peer.
\<close>

theorem clear_expired_exact:
  assumes "sri_inv (srv_synced_route_info srv)"
    and room: "unat (sri_version (srv_synced_route_info srv)) +
      length (sri_peer_infos (srv_synced_route_info srv)) < 2 ^ 32"
  shows "\<exists>srv'. clear_expired_peer now srv = Inr srv' \<and>
    (\<forall>p. dm_get (sri_peer_infos (srv_synced_route_info srv')) p =
       (case dm_get (sri_peer_infos (srv_synced_route_info srv)) p of
          Some i \<Rightarrow> if info_expired now i then None else Some i | None \<Rightarrow> None)) \<and>
    (\<forall>k. dm_get (sri_foreign_network (srv_synced_route_info srv')) k =
       (case dm_get (sri_foreign_network (srv_synced_route_info srv)) k of
          Some e \<Rightarrow> if network_dropped now (srv_synced_route_info srv) k e then None else Some e | None \<Rightarrow> None))"
proof -
  let ?st = "srv_synced_route_info srv"
  have inv: "dm_inv (sri_peer_infos ?st)" "dm_inv (sri_foreign_network ?st)"
    and ok: "\<And>k i. dm_get (sri_peer_infos ?st) k = Some i \<Longrightarrow> info_ok k i"
    using assms(1) by (auto simp: sri_inv_def)
  have "\<forall>(p, i) \<in> set (sri_peer_infos ?st). rpi_last_update i \<noteq> None"
    using ok inv by (auto simp: dm_get_in_set info_ok_def)
  from expired_peers_ok [OF this] obtain ps where ps: "expired_peers now (sri_peer_infos ?st) = Inr ps"
    "set ps = {p. \<exists>i. (p, i) \<in> set (sri_peer_infos ?st) \<and> info_expired now i}"
    "length ps \<le> length (sri_peer_infos ?st)" by blast
  have gone: "p \<in> set ps \<longleftrightarrow> (\<exists>i. dm_get (sri_peer_infos ?st) p = Some i \<and> info_expired now i)" for p
    using ps(2) inv by (simp add: dm_get_in_set)
  have "unat (sri_version ?st) + length ps < 2 ^ 32" using room ps(3) by linarith
  from remove_peers_ok [OF this] inv(2) obtain st1 where st1: "remove_peers ps ?st = Inr st1"
    and gone1: "\<forall>p. dm_get (sri_peer_infos st1) p = (if p \<in> set ps then None else dm_get (sri_peer_infos ?st) p)"
    and inv1: "dm_inv (sri_foreign_network st1)"
    and kept1: "\<forall>k. dm_get (sri_foreign_network st1) k =
      (if fnk_peer_id k \<in> set ps then None else dm_get (sri_foreign_network ?st) k)" by blast
  let ?dead = "map fst (filter (\<lambda>(k, e). foreign_network_expired now e) (sri_foreign_network st1))"
  let ?st2 = "st1\<lparr>sri_foreign_network := fold dm_remove ?dead (sri_foreign_network st1)\<rparr>"
  have run: "clear_expired_peer now srv = Inr (srv\<lparr>srv_synced_route_info := ?st2,
      srv_route_table := clean_expired_route_info (srv_route_table srv),
      srv_route_table_with_cost := clean_expired_route_info (srv_route_table_with_cost srv)\<rparr>)"
    by (simp add: clear_expired_peer_def ps(1) st1 Let_def)
  have peers: "dm_get (sri_peer_infos ?st2) p = (case dm_get (sri_peer_infos ?st) p of
      Some i \<Rightarrow> if info_expired now i then None else Some i | None \<Rightarrow> None)" for p
    using gone [of p] gone1 by (simp split: option.split)
  have networks: "dm_get (sri_foreign_network ?st2) k = (case dm_get (sri_foreign_network ?st) k of
      Some e \<Rightarrow> if network_dropped now ?st k e then None else Some e | None \<Rightarrow> None)" for k
  proof -
    have kept: "dm_get (sri_foreign_network st1) k =
        (if fnk_peer_id k \<in> set ps then None else dm_get (sri_foreign_network ?st) k)"
      using kept1 by blast
    have "k \<in> set ?dead \<longleftrightarrow> (\<exists>e. dm_get (sri_foreign_network st1) k = Some e \<and> foreign_network_expired now e)"
      by (rule dead_networks_iff [OF inv1])
    moreover have "dm_get (sri_foreign_network ?st2) k =
        (if k \<in> set ?dead then None else dm_get (sri_foreign_network st1) k)"
      by (simp add: fold_dm_remove_get del: set_map set_filter)
    ultimately show ?thesis
      using gone [of "fnk_peer_id k"] kept
      by (cases "dm_get (sri_foreign_network ?st) k") (auto simp only: network_dropped_def option.case split: if_splits)
  qed
  show ?thesis unfolding run using peers networks by simp
qed

theorem clear_expired_exact_witness:
  "\<exists>srv'. clear_expired_peer (secs 4000) example_sender = Inr srv' \<and>
     dm_get (sri_peer_infos (srv_synced_route_info srv')) 3 = None"
proof -
  have inv: "sri_inv (srv_synced_route_info example_sender)"
    by (auto simp: example_sender_def sri_inv_def trust_ok_def info_ok_def synced_route_info_new_def
        example_third_def example_info_def route_peer_info_default_def dm_get_def dm_inv_def split: if_splits)
  have "dm_get (sri_peer_infos (srv_synced_route_info example_sender)) 3 = Some example_third"
    "info_expired (secs 4000) example_third"
    by (simp_all add: example_sender_def dm_get_def info_expired_def example_third_def secs_def REMOVE_DEAD_PEER_INFO_AFTER_def)
  moreover have "unat (sri_version (srv_synced_route_info example_sender)) +
      length (sri_peer_infos (srv_synced_route_info example_sender)) < 2 ^ 32"
    by (simp add: example_sender_def synced_route_info_new_def)
  ultimately show ?thesis using clear_expired_exact [OF inv, of "secs 4000"] by fastforce
qed

end
