(* ===== verification/AclRules.thy ===== *)
theory AclRules
  imports Text
begin

text \<open>
  Access control rules: the messages of \<open>src/app/src/proto/acl.proto\<close>, their compilation into lookup rules and the
  matching of a packet (\<open>src/app/src/common/acl_processor.rs\<close>), and the rules generated from port
  whitelists (\<open>AclRuleBuilder\<close>).

  The \<open>cidr\<close> crate is outside the repository: its parser and its two containment tests are the fields of
  \<open>CidrLib\<close>. Enumerations arrive as 32-bit integers and are read by the accessors that the protobuf
  compiler generates, which give the first constructor for an unknown number.
\<close>

section \<open>Messages\<close>

datatype Protocol = ProtoUnspecified | Tcp | Udp | Icmp | IcmPv6 | ProtoAny

datatype Action = Noop | Allow | Drop

datatype ChainType = UnspecifiedChain | Inbound | Outbound | Forward

type_synonym i32 = "32 word"

definition protocol_code :: "Protocol \<Rightarrow> i32" where
  "protocol_code p = (case p of ProtoUnspecified \<Rightarrow> 0 | Tcp \<Rightarrow> 1 | Udp \<Rightarrow> 2 | Icmp \<Rightarrow> 3 | IcmPv6 \<Rightarrow> 4 | ProtoAny \<Rightarrow> 5)"

definition action_code :: "Action \<Rightarrow> i32" where
  "action_code a = (case a of Noop \<Rightarrow> 0 | Allow \<Rightarrow> 1 | Drop \<Rightarrow> 2)"

definition chain_type_code :: "ChainType \<Rightarrow> i32" where
  "chain_type_code c = (case c of UnspecifiedChain \<Rightarrow> 0 | Inbound \<Rightarrow> 1 | Outbound \<Rightarrow> 2 | Forward \<Rightarrow> 3)"

text \<open>The generated accessor: the constructor with the given code, the first one if there is none.\<close>

definition from_code :: "('e \<Rightarrow> i32) \<Rightarrow> 'e list \<Rightarrow> i32 \<Rightarrow> 'e" where
  "from_code code es n = (case find (\<lambda>e. code e = n) es of Some e \<Rightarrow> e | None \<Rightarrow> hd es)"

definition protocol_of :: "i32 \<Rightarrow> Protocol" where
  "protocol_of = from_code protocol_code [ProtoUnspecified, Tcp, Udp, Icmp, IcmPv6, ProtoAny]"

definition action_of :: "i32 \<Rightarrow> Action" where
  "action_of = from_code action_code [Noop, Allow, Drop]"

definition chain_type_of :: "i32 \<Rightarrow> ChainType" where
  "chain_type_of = from_code chain_type_code [UnspecifiedChain, Inbound, Outbound, Forward]"

record Rule =
  ru_name :: string
  ru_description :: string
  ru_priority :: u32
  ru_enabled :: bool
  ru_protocol :: i32
  ru_ports :: "string list"
  ru_source_ips :: "string list"
  ru_destination_ips :: "string list"
  ru_source_ports :: "string list"
  ru_action :: i32
  ru_rate_limit :: u32
  ru_burst_limit :: u32
  ru_stateful :: bool
  ru_source_groups :: "string list"
  ru_destination_groups :: "string list"

record Chain =
  ch_name :: string
  ch_chain_type :: i32
  ch_description :: string
  ch_enabled :: bool
  ch_rules :: "Rule list"
  ch_default_action :: i32

record GroupIdentity =
  gi_group_name :: string
  gi_group_secret :: string

record GroupInfo =
  gr_declares :: "GroupIdentity list"
  gr_members :: "string list"

record AclV1 =
  av_chains :: "Chain list"
  av_group :: "GroupInfo option"

record Acl =
  acl_v1 :: "AclV1 option"

section \<open>Port ranges\<close>

definition parse_port_range :: "string \<Rightarrow> (u16 \<times> u16) option" where
  "parse_port_range s =
     (case split_once CHR ''-'' s of
        Some (start, stop) \<Rightarrow>
          (case parse_u16 (trim start) of
             None \<Rightarrow> None
           | Some a \<Rightarrow> (case parse_u16 (trim stop) of None \<Rightarrow> None | Some b \<Rightarrow> Some (a, b)))
      | None \<Rightarrow> map_option (\<lambda>p. (p, p)) (parse_u16 (trim s)))"

section \<open>Compiled rules\<close>

datatype IpAddr = V4 u32 | V6 "128 word"

datatype ('c4, 'c6) IpCidr = CidrV4 'c4 | CidrV6 'c6

record ('c4, 'c6) CidrLib =
  cl_from_str :: "string \<Rightarrow> ('c4, 'c6) IpCidr option"
  cl_contains4 :: "'c4 \<Rightarrow> u32 \<Rightarrow> bool"
  cl_contains6 :: "'c6 \<Rightarrow> 128 word \<Rightarrow> bool"

text \<open>\<open>fr_rule_stats\<close> is the identity of the shared counter object of the rule.\<close>

record ('c4, 'c6) FastLookupRule =
  fr_priority :: u32
  fr_protocol :: Protocol
  fr_src_ip_ranges :: "('c4, 'c6) IpCidr list"
  fr_dst_ip_ranges :: "('c4, 'c6) IpCidr list"
  fr_src_port_ranges :: "(u16 \<times> u16) list"
  fr_dst_port_ranges :: "(u16 \<times> u16) list"
  fr_source_groups :: "string list"
  fr_destination_groups :: "string list"
  fr_action :: Action
  fr_enabled :: bool
  fr_stateful :: bool
  fr_rate_limit :: u32
  fr_burst_limit :: u32
  fr_rule_stats :: nat

definition convert_to_fast_lookup_rule :: "('c4, 'c6) CidrLib \<Rightarrow> nat \<Rightarrow> Rule \<Rightarrow> ('c4, 'c6) FastLookupRule" where
  "convert_to_fast_lookup_rule lib stats rule =
     \<lparr>fr_priority = ru_priority rule, fr_protocol = protocol_of (ru_protocol rule),
      fr_src_ip_ranges = List.map_filter (cl_from_str lib) (ru_source_ips rule),
      fr_dst_ip_ranges = List.map_filter (cl_from_str lib) (ru_destination_ips rule),
      fr_src_port_ranges = List.map_filter parse_port_range (ru_source_ports rule),
      fr_dst_port_ranges = List.map_filter parse_port_range (ru_ports rule),
      fr_source_groups = remdups (ru_source_groups rule),
      fr_destination_groups = remdups (ru_destination_groups rule),
      fr_action = action_of (ru_action rule), fr_enabled = ru_enabled rule,
      fr_stateful = ru_stateful rule, fr_rate_limit = ru_rate_limit rule,
      fr_burst_limit = ru_burst_limit rule, fr_rule_stats = stats\<rparr>"

text \<open>\<open>sort_by\<close> is a stable sort, here by descending priority.\<close>

definition sort_by_priority :: "('c4, 'c6) FastLookupRule list \<Rightarrow> ('c4, 'c6) FastLookupRule list" where
  "sort_by_priority rules = sort_key (\<lambda>r. - int (unat (fr_priority r))) rules"

definition chain_rules :: "('c4, 'c6) CidrLib \<Rightarrow> nat \<Rightarrow> Chain \<Rightarrow> ('c4, 'c6) FastLookupRule list" where
  "chain_rules lib next_stats chain =
     (let enabled = filter ru_enabled (ch_rules chain)
      in sort_by_priority (map (\<lambda>(i, r). convert_to_fast_lookup_rule lib (next_stats + i) r) (enumerate 0 enabled)))"

fun build_rules_loop ::
  "('c4, 'c6) CidrLib \<Rightarrow> nat \<Rightarrow> Chain list
    \<Rightarrow> ('c4, 'c6) FastLookupRule list \<times> ('c4, 'c6) FastLookupRule list \<times> ('c4, 'c6) FastLookupRule list
    \<Rightarrow> ('c4, 'c6) FastLookupRule list \<times> ('c4, 'c6) FastLookupRule list \<times> ('c4, 'c6) FastLookupRule list" where
  "build_rules_loop lib next_stats [] acc = acc"
| "build_rules_loop lib next_stats (chain # cs) (inbound, outbound, forward) =
     (if \<not> ch_enabled chain then build_rules_loop lib next_stats cs (inbound, outbound, forward)
      else
        (let rules = chain_rules lib next_stats chain
         in build_rules_loop lib (next_stats + length rules) cs
              (case chain_type_of (ch_chain_type chain) of
                 Inbound \<Rightarrow> (inbound @ rules, outbound, forward)
               | Outbound \<Rightarrow> (inbound, outbound @ rules, forward)
               | Forward \<Rightarrow> (inbound, outbound, forward @ rules)
               | UnspecifiedChain \<Rightarrow> (inbound, outbound, forward))))"

text \<open>The counter object with identity 0 belongs to the default rule.\<close>

definition build_rules ::
  "('c4, 'c6) CidrLib \<Rightarrow> Acl
    \<Rightarrow> ('c4, 'c6) FastLookupRule list \<times> ('c4, 'c6) FastLookupRule list \<times> ('c4, 'c6) FastLookupRule list" where
  "build_rules lib acl_config =
     (case acl_v1 acl_config of
        Some v1 \<Rightarrow> build_rules_loop lib 1 (av_chains v1) ([], [], []) | None \<Rightarrow> ([], [], []))"

definition default_action_for :: "Acl \<Rightarrow> ChainType \<Rightarrow> Action" where
  "default_action_for acl_config ct =
     (case Option.bind (acl_v1 acl_config) (\<lambda>v1. find (\<lambda>c. ch_chain_type c = chain_type_code ct) (av_chains v1)) of
        Some c \<Rightarrow> action_of (ch_default_action c) | None \<Rightarrow> Allow)"

definition build_default_actions :: "Acl \<Rightarrow> Action \<times> Action \<times> Action" where
  "build_default_actions acl_config =
     (default_action_for acl_config Inbound, default_action_for acl_config Outbound,
      default_action_for acl_config Forward)"

section \<open>Matching\<close>

record PacketInfo =
  pi_src_ip :: IpAddr
  pi_dst_ip :: IpAddr
  pi_src_port :: "u16 option"
  pi_dst_port :: "u16 option"
  pi_protocol :: Protocol
  pi_packet_size :: usize
  pi_src_groups :: "string list"
  pi_dst_groups :: "string list"

definition cidr_matches :: "('c4, 'c6) CidrLib \<Rightarrow> IpAddr \<Rightarrow> ('c4, 'c6) IpCidr \<Rightarrow> bool" where
  "cidr_matches lib ip c =
     (case (c, ip) of
        (CidrV4 c4, V4 a) \<Rightarrow> cl_contains4 lib c4 a
      | (CidrV6 c6, V6 a) \<Rightarrow> cl_contains6 lib c6 a
      | _ \<Rightarrow> False)"

definition port_matches :: "(u16 \<times> u16) list \<Rightarrow> u16 option \<Rightarrow> bool" where
  "port_matches ranges port =
     (case port of
        None \<Rightarrow> True
      | Some p \<Rightarrow> ranges = [] \<or> list_ex (\<lambda>(start, stop). p \<ge> start \<and> p \<le> stop) ranges)"

definition rule_matches :: "('c4, 'c6) CidrLib \<Rightarrow> ('c4, 'c6) FastLookupRule \<Rightarrow> PacketInfo \<Rightarrow> bool" where
  "rule_matches lib rule p \<longleftrightarrow>
     (fr_protocol rule = ProtoAny \<or> protocol_code (fr_protocol rule) = protocol_code (pi_protocol p)) \<and>
     (fr_src_ip_ranges rule = [] \<or> list_ex (cidr_matches lib (pi_src_ip p)) (fr_src_ip_ranges rule)) \<and>
     (fr_dst_ip_ranges rule = [] \<or> list_ex (cidr_matches lib (pi_dst_ip p)) (fr_dst_ip_ranges rule)) \<and>
     port_matches (fr_src_port_ranges rule) (pi_src_port p) \<and>
     port_matches (fr_dst_port_ranges rule) (pi_dst_port p) \<and>
     (fr_source_groups rule = [] \<or> list_ex (\<lambda>g. g \<in> set (fr_source_groups rule)) (pi_src_groups p)) \<and>
     (fr_destination_groups rule = [] \<or> list_ex (\<lambda>g. g \<in> set (fr_destination_groups rule)) (pi_dst_groups p))"

section \<open>Rules from whitelists\<close>

record AclRuleBuilder =
  rb_acl :: "Acl option"
  rb_tcp_whitelist :: "string list"
  rb_udp_whitelist :: "string list"
  rb_whitelist_priority :: "u32 option"

datatype WhitelistError = InvalidRangeFormat | InvalidStartPort | InvalidEndPort | StartAfterEnd | InvalidPort

definition parse_port_spec :: "string \<Rightarrow> WhitelistError + string" where
  "parse_port_spec spec =
     (if CHR ''-'' \<in> set spec
      then (case split_at CHR ''-'' spec of
              [a, b] \<Rightarrow>
                (case parse_u16 a of
                   None \<Rightarrow> Inl InvalidStartPort
                 | Some start \<Rightarrow>
                     (case parse_u16 b of
                        None \<Rightarrow> Inl InvalidEndPort
                      | Some stop \<Rightarrow> if start > stop then Inl StartAfterEnd else Inr spec))
            | _ \<Rightarrow> Inl InvalidRangeFormat)
      else (case parse_u16 spec of None \<Rightarrow> Inl InvalidPort | Some port \<Rightarrow> Inr (show_nat (unat port))))"

fun parse_port_list :: "string list \<Rightarrow> WhitelistError + string list" where
  "parse_port_list [] = Inr []"
| "parse_port_list (spec # specs) =
     (case parse_port_spec spec of
        Inl e \<Rightarrow> Inl e
      | Inr p \<Rightarrow> (case parse_port_list specs of Inl e \<Rightarrow> Inl e | Inr ps \<Rightarrow> Inr (p # ps)))"

definition whitelist_rule :: "string \<Rightarrow> string \<Rightarrow> Protocol \<Rightarrow> bool \<Rightarrow> u32 \<Rightarrow> string list \<Rightarrow> Rule" where
  "whitelist_rule name description protocol is_stateful priority ports =
     \<lparr>ru_name = name, ru_description = description, ru_priority = priority, ru_enabled = True,
      ru_protocol = protocol_code protocol, ru_ports = ports, ru_source_ips = [], ru_destination_ips = [],
      ru_source_ports = [], ru_action = action_code Allow, ru_rate_limit = 0, ru_burst_limit = 0,
      ru_stateful = is_stateful, ru_source_groups = [], ru_destination_groups = []\<rparr>"

definition whitelist_chain :: "Rule list \<Rightarrow> Chain" where
  "whitelist_chain rules =
     \<lparr>ch_name = ''inbound_whitelist'', ch_chain_type = chain_type_code Inbound,
      ch_description = ''Auto-generated inbound whitelist from CLI'', ch_enabled = True, ch_rules = rules,
      ch_default_action = action_code Drop\<rparr>"

definition push_chain :: "Chain \<Rightarrow> Acl option \<Rightarrow> Acl" where
  "push_chain chain acl =
     (case Option.bind acl acl_v1 of
        Some v1 \<Rightarrow> \<lparr>acl_v1 = Some (v1\<lparr>av_chains := av_chains v1 @ [chain]\<rparr>)\<rparr>
      | None \<Rightarrow> \<lparr>acl_v1 = Some \<lparr>av_chains = [chain], av_group = Some \<lparr>gr_declares = [], gr_members = []\<rparr>\<rparr>\<rparr>)"

definition checked_pred :: "u32 \<Rightarrow> u32 rust" where
  "checked_pred n = (if n = 0 then Inl ArithOverflow else Inr (n - 1))"

definition generate_acl_from_whitelists :: "AclRuleBuilder \<Rightarrow> (WhitelistError + AclRuleBuilder) rust" where
  "generate_acl_from_whitelists b =
     (if rb_tcp_whitelist b = [] \<and> rb_udp_whitelist b = [] then Inr (Inr b)
      else
        (let priority = (case rb_whitelist_priority b of Some p \<Rightarrow> p | None \<Rightarrow> 1000);
             tcp_ports = (if rb_tcp_whitelist b = [] then Inr [] else parse_port_list (rb_tcp_whitelist b));
             udp_ports = (if rb_udp_whitelist b = [] then Inr [] else parse_port_list (rb_udp_whitelist b))
         in case tcp_ports of
              Inl e \<Rightarrow> Inr (Inl e)
            | Inr tcp \<Rightarrow>
                rbind (if rb_tcp_whitelist b = [] then Inr ([], priority)
                       else rmap (\<lambda>q. ([whitelist_rule ''tcp_whitelist'' ''Auto-generated TCP whitelist rule'' Tcp True priority tcp], q))
                              (checked_pred priority)) (\<lambda>(rules, priority').
                  case udp_ports of
                    Inl e \<Rightarrow> Inr (Inl e)
                  | Inr udp \<Rightarrow>
                      (let rules' = (if rb_udp_whitelist b = [] then rules
                             else rules @ [whitelist_rule ''udp_whitelist'' ''Auto-generated UDP whitelist rule'' Udp False priority' udp])
                       in Inr (Inr (b\<lparr>rb_acl := Some (push_chain (whitelist_chain rules') (rb_acl b))\<rparr>))))))"

definition do_build :: "AclRuleBuilder \<Rightarrow> (WhitelistError + Acl option) rust" where
  "do_build b = rmap (\<lambda>r. case r of Inl e \<Rightarrow> Inl e | Inr b' \<Rightarrow> Inr (rb_acl b')) (generate_acl_from_whitelists b)"

definition build_acl :: "Acl option \<Rightarrow> string list \<Rightarrow> string list \<Rightarrow> (WhitelistError + Acl option) rust" where
  "build_acl config_acl config_tcp config_udp =
     do_build \<lparr>rb_acl = config_acl, rb_tcp_whitelist = config_tcp, rb_udp_whitelist = config_udp,
               rb_whitelist_priority = None\<rparr>"

end
