(* ===== verification/AclProcessor.thy ===== *)
theory AclProcessor
  imports AclRules TokenBucket
begin

text \<open>
  The packet path of the access control processor (\<open>src/app/src/common/acl_processor.rs\<close>): the decision
  cache, rate limiters, connection tracking and counters, as operations on the record \<open>AclProcessor\<close>. The clock is the
  argument \<open>now\<close>, in seconds since the epoch.

  The counters of a rule are shared objects that the code updates in place; the
  processor holds them as a heap from object identities to \<open>RuleStats\<close>. The key of a tracked connection, in the code the formatted string
  \<open>src:port->dst:port\<close>, is the tuple of its four parts.
\<close>

section \<open>State\<close>

record RateLimitKey =
  rk_chain_type :: ChainType
  rk_rule_priority :: u32

datatype RuleId = Priority u32 | Stateful u32 | Default

definition to_string_cached :: "RuleId \<Rightarrow> string" where
  "to_string_cached r =
     (case r of Priority p \<Rightarrow> show_nat (unat p) | Stateful p \<Rightarrow> ''stateful-'' @ show_nat (unat p) | Default \<Rightarrow> ''default'')"

record AclCacheKey =
  ck_chain_type :: ChainType
  ck_protocol :: Protocol
  ck_src_ip :: IpAddr
  ck_dst_ip :: IpAddr
  ck_src_port :: u16
  ck_dst_port :: u16
  ck_src_groups :: "string list"
  ck_dst_groups :: "string list"

definition port_or_zero :: "u16 option \<Rightarrow> u16" where
  "port_or_zero p = (case p of Some x \<Rightarrow> x | None \<Rightarrow> 0)"

definition from_packet_info :: "PacketInfo \<Rightarrow> ChainType \<Rightarrow> AclCacheKey" where
  "from_packet_info p ct =
     \<lparr>ck_chain_type = ct, ck_protocol = pi_protocol p, ck_src_ip = pi_src_ip p, ck_dst_ip = pi_dst_ip p,
      ck_src_port = port_or_zero (pi_src_port p), ck_dst_port = port_or_zero (pi_dst_port p),
      ck_src_groups = pi_src_groups p, ck_dst_groups = pi_dst_groups p\<rparr>"

datatype AclLogContext =
    StatefulMatch IpAddr IpAddr
  | RuleMatch IpAddr IpAddr Action
  | DefaultDrop
  | DefaultAllow
  | UnsupportedChainType
  | RateLimitDrop

record AclResult =
  ar_action :: Action
  ar_matched_rule :: "RuleId option"
  ar_should_log :: bool
  ar_log_context :: "AclLogContext option"

definition matched_rule_string :: "AclResult \<Rightarrow> string option" where
  "matched_rule_string r = map_option to_string_cached (ar_matched_rule r)"

type_synonym conn_key = "IpAddr \<times> u16 \<times> IpAddr \<times> u16"

datatype ConnState = ConnNew | ConnEstablished | ConnRelated | ConnInvalid

record ConnTrackEntry =
  ct_src_addr :: "IpAddr \<times> u16"
  ct_dst_addr :: "IpAddr \<times> u16"
  ct_protocol :: Protocol
  ct_state :: ConnState
  ct_created_at :: nat
  ct_last_seen :: nat
  ct_packet_count :: u64
  ct_byte_count :: u64

record AclCacheEntry =
  ce_action :: Action
  ce_matched_rule :: RuleId
  ce_last_access :: nat
  ce_conn_track_key :: "conn_key option"
  ce_rate_limit_keys :: "RateLimitKey list"
  ce_chain_type :: ChainType
  ce_acl_result :: "AclResult option"
  ce_rule_stats_vec :: "nat list"

record StatItem =
  si_packet_count :: u64
  si_byte_count :: u64

record RuleStats =
  rst_rule :: "Rule option"
  rst_stat :: "StatItem option"

datatype AclStatKey =
    CacheHits | CacheSize | CacheMaxSize | RuleMatches | DefaultAllows | DefaultDrops
  | PacketsTotal | PacketsAllowed | PacketsDropped | PacketsNoop
  | InboundPacketsTotal | InboundPacketsAllowed | InboundPacketsDropped | InboundPacketsNoop
  | OutboundPacketsTotal | OutboundPacketsAllowed | OutboundPacketsDropped | OutboundPacketsNoop
  | ForwardPacketsTotal | ForwardPacketsAllowed | ForwardPacketsDropped | ForwardPacketsNoop
  | UnknownPacketsTotal | UnknownPacketsAllowed | UnknownPacketsDropped | UnknownPacketsNoop

datatype AclStatType = Total | Allowed | Dropped | NoopStat

definition from_chain_and_action :: "ChainType \<Rightarrow> AclStatType \<Rightarrow> AclStatKey" where
  "from_chain_and_action ct t =
     (case (ct, t) of
        (Inbound, Total) \<Rightarrow> InboundPacketsTotal
      | (Inbound, Allowed) \<Rightarrow> InboundPacketsAllowed
      | (Inbound, Dropped) \<Rightarrow> InboundPacketsDropped
      | (Inbound, NoopStat) \<Rightarrow> InboundPacketsNoop
      | (Outbound, Total) \<Rightarrow> OutboundPacketsTotal
      | (Outbound, Allowed) \<Rightarrow> OutboundPacketsAllowed
      | (Outbound, Dropped) \<Rightarrow> OutboundPacketsDropped
      | (Outbound, NoopStat) \<Rightarrow> OutboundPacketsNoop
      | (Forward, Total) \<Rightarrow> ForwardPacketsTotal
      | (Forward, Allowed) \<Rightarrow> ForwardPacketsAllowed
      | (Forward, Dropped) \<Rightarrow> ForwardPacketsDropped
      | (Forward, NoopStat) \<Rightarrow> ForwardPacketsNoop
      | (_, Total) \<Rightarrow> UnknownPacketsTotal
      | (_, Allowed) \<Rightarrow> UnknownPacketsAllowed
      | (_, Dropped) \<Rightarrow> UnknownPacketsDropped
      | (_, NoopStat) \<Rightarrow> UnknownPacketsNoop)"

record ('c4, 'c6) AclProcessor =
  ap_inbound_rules :: "('c4, 'c6) FastLookupRule list"
  ap_outbound_rules :: "('c4, 'c6) FastLookupRule list"
  ap_forward_rules :: "('c4, 'c6) FastLookupRule list"
  ap_default_inbound_action :: Action
  ap_default_outbound_action :: Action
  ap_default_forward_action :: Action
  ap_default_rule_stats :: nat
  ap_rule_stats :: "(nat, RuleStats) dmap"
  ap_conn_track :: "(conn_key, ConnTrackEntry) dmap"
  ap_rate_limiters :: "(RateLimitKey, TokenBucket) dmap"
  ap_rule_cache :: "(AclCacheKey, AclCacheEntry) dmap"
  ap_cache_max_size :: usize
  ap_stats :: "(AclStatKey, u64) dmap"

text \<open>The state that survives a reload of the rules.\<close>

type_synonym SharedState =
  "(conn_key, ConnTrackEntry) dmap \<times> (RateLimitKey, TokenBucket) dmap \<times> (AclStatKey, u64) dmap"

definition get_shared_state :: "('c4, 'c6) AclProcessor \<Rightarrow> SharedState" where
  "get_shared_state ap = (ap_conn_track ap, ap_rate_limiters ap, ap_stats ap)"

definition fresh_stats :: "Rule option \<Rightarrow> RuleStats" where
  "fresh_stats rule = \<lparr>rst_rule = rule, rst_stat = Some \<lparr>si_packet_count = 0, si_byte_count = 0\<rparr>\<rparr>"

text \<open>The counter objects that \<open>build_rules\<close> allocates, in the order of its traversal.\<close>

fun allocated_stats :: "nat \<Rightarrow> Chain list \<Rightarrow> (nat, RuleStats) dmap" where
  "allocated_stats next_stats [] = []"
| "allocated_stats next_stats (chain # cs) =
     (if \<not> ch_enabled chain then allocated_stats next_stats cs
      else (let enabled = filter ru_enabled (ch_rules chain)
            in map (\<lambda>(i, r). (next_stats + i, fresh_stats (Some r))) (enumerate 0 enabled)
               @ allocated_stats (next_stats + length enabled) cs))"

definition new_with_shared_state ::
  "('c4, 'c6) CidrLib \<Rightarrow> Acl \<Rightarrow> (conn_key, ConnTrackEntry) dmap option \<Rightarrow> (RateLimitKey, TokenBucket) dmap option
    \<Rightarrow> (AclStatKey, u64) dmap option \<Rightarrow> ('c4, 'c6) AclProcessor" where
  "new_with_shared_state lib acl_config conn_track rate_limiters stats =
     (let (inbound, outbound, forward) = build_rules lib acl_config;
          (d_in, d_out, d_fwd) = build_default_actions acl_config
      in \<lparr>ap_inbound_rules = inbound, ap_outbound_rules = outbound, ap_forward_rules = forward,
          ap_default_inbound_action = d_in, ap_default_outbound_action = d_out, ap_default_forward_action = d_fwd,
          ap_default_rule_stats = 0,
          ap_rule_stats = (0, fresh_stats None) #
            (case acl_v1 acl_config of Some v1 \<Rightarrow> allocated_stats 1 (av_chains v1) | None \<Rightarrow> []),
          ap_conn_track = (case conn_track of Some c \<Rightarrow> c | None \<Rightarrow> []),
          ap_rate_limiters = (case rate_limiters of Some r \<Rightarrow> r | None \<Rightarrow> []),
          ap_rule_cache = [], ap_cache_max_size = 10000,
          ap_stats = (case stats of Some s \<Rightarrow> s | None \<Rightarrow> [])\<rparr>)"

definition acl_processor_new :: "('c4, 'c6) CidrLib \<Rightarrow> Acl \<Rightarrow> ('c4, 'c6) AclProcessor" where
  "acl_processor_new lib acl_config = new_with_shared_state lib acl_config None None None"

section \<open>Operations\<close>

definition increment_stat :: "AclStatKey \<Rightarrow> ('c4, 'c6) AclProcessor \<Rightarrow> ('c4, 'c6) AclProcessor rust" where
  "increment_stat key ap =
     (case dm_get (ap_stats ap) key of
        None \<Rightarrow> Inr (ap\<lparr>ap_stats := dm_insert key 1 (ap_stats ap)\<rparr>)
      | Some n \<Rightarrow> rmap (\<lambda>m. ap\<lparr>ap_stats := dm_insert key m (ap_stats ap)\<rparr>) (checked_add n 1))"

definition cleanup_cache :: "usize \<Rightarrow> (AclCacheKey, AclCacheEntry) dmap \<Rightarrow> (AclCacheKey, AclCacheEntry) dmap" where
  "cleanup_cache max_size cache =
     (let current_size = length cache
      in if current_size \<le> max_size then cache
         else (let entries = sort_key snd (map (\<lambda>(k, e). (k, ce_last_access e)) cache);
                   to_remove = current_size - max_size + max_size div 5
               in fold (\<lambda>(k, _). dm_remove k) (take to_remove entries) cache))"

definition cache_result ::
  "AclCacheKey \<Rightarrow> AclCacheEntry \<Rightarrow> ('c4, 'c6) AclProcessor \<Rightarrow> ('c4, 'c6) AclProcessor" where
  "cache_result key entry ap =
     (let cache = dm_insert key entry (ap_rule_cache ap)
      in ap\<lparr>ap_rule_cache := (if length cache > ap_cache_max_size ap * 2
                              then cleanup_cache (ap_cache_max_size ap) cache else cache)\<rparr>)"

definition conn_track_key :: "PacketInfo \<Rightarrow> conn_key" where
  "conn_track_key p = (pi_src_ip p, port_or_zero (pi_src_port p), pi_dst_ip p, port_or_zero (pi_dst_port p))"

definition check_connection_state ::
  "nat \<Rightarrow> conn_key \<Rightarrow> PacketInfo \<Rightarrow> ('c4, 'c6) AclProcessor \<Rightarrow> ('c4, 'c6) AclProcessor rust" where
  "check_connection_state now key p ap =
     (case dm_get (ap_conn_track ap) key of
        Some x \<Rightarrow>
          rbind (checked_add (ct_packet_count x) 1) (\<lambda>packets.
          rmap (\<lambda>bytes. ap\<lparr>ap_conn_track := dm_insert key (x\<lparr>ct_last_seen := now, ct_packet_count := packets,
                               ct_byte_count := bytes, ct_state := ConnEstablished\<rparr>) (ap_conn_track ap)\<rparr>)
            (checked_add (ct_byte_count x) (of_nat (pi_packet_size p))))
      | None \<Rightarrow>
          Inr (ap\<lparr>ap_conn_track := dm_insert key
            \<lparr>ct_src_addr = (pi_src_ip p, port_or_zero (pi_src_port p)),
             ct_dst_addr = (pi_dst_ip p, port_or_zero (pi_dst_port p)), ct_protocol = pi_protocol p,
             ct_state = ConnNew, ct_created_at = now, ct_last_seen = now, ct_packet_count = 1,
             ct_byte_count = of_nat (pi_packet_size p)\<rparr> (ap_conn_track ap)\<rparr>))"

definition check_rate_limit ::
  "RateLimitKey \<Rightarrow> u32 \<Rightarrow> u32 \<Rightarrow> bool \<Rightarrow> ('c4, 'c6) AclProcessor \<Rightarrow> (('c4, 'c6) AclProcessor \<times> bool) rust" where
  "check_rate_limit key rate burst allow_create ap =
     (if rate = 0 then Inr (ap, True)
      else rmap (\<lambda>bucket. let (ok, bucket') = try_consume 1 bucket
                           in (ap\<lparr>ap_rate_limiters := dm_insert key bucket' (ap_rate_limiters ap)\<rparr>, ok))
             (case dm_get (ap_rate_limiters ap) key of
                Some bucket \<Rightarrow> Inr bucket
              | None \<Rightarrow> if allow_create then Inr (token_bucket_new (ucast burst) (ucast rate) 10)
                        else Inl ExplicitPanic))"

fun inc_rule_stats :: "PacketInfo \<Rightarrow> nat list \<Rightarrow> (nat, RuleStats) dmap \<Rightarrow> (nat, RuleStats) dmap rust" where
  "inc_rule_stats p [] heap = Inr heap"
| "inc_rule_stats p (s # refs) heap =
     rbind (unwrap (dm_get heap s)) (\<lambda>rs.
     rbind (unwrap (rst_stat rs)) (\<lambda>item.
     rbind (checked_add (si_packet_count item) 1) (\<lambda>packets.
     rbind (checked_add (si_byte_count item) (of_nat (pi_packet_size p))) (\<lambda>bytes.
       inc_rule_stats p refs
         (dm_insert s (rs\<lparr>rst_stat := Some \<lparr>si_packet_count = packets, si_byte_count = bytes\<rparr>\<rparr>) heap)))))"

definition inc_cache_entry_stats ::
  "AclCacheEntry \<Rightarrow> PacketInfo \<Rightarrow> ('c4, 'c6) AclProcessor \<Rightarrow> ('c4, 'c6) AclProcessor rust" where
  "inc_cache_entry_stats entry p ap =
     rmap (\<lambda>heap. ap\<lparr>ap_rule_stats := heap\<rparr>) (inc_rule_stats p (ce_rule_stats_vec entry) (ap_rule_stats ap))"

definition rate_limit_drop :: "RuleId \<Rightarrow> AclResult" where
  "rate_limit_drop r =
     \<lparr>ar_action = Drop, ar_matched_rule = Some r, ar_should_log = False, ar_log_context = Some RateLimitDrop\<rparr>"

text \<open>The loop over the rate limits of a cached decision: False when one of them is exhausted.\<close>

fun check_cached_limits ::
  "RateLimitKey list \<Rightarrow> ('c4, 'c6) AclProcessor \<Rightarrow> (('c4, 'c6) AclProcessor \<times> bool) rust" where
  "check_cached_limits [] ap = Inr (ap, True)"
| "check_cached_limits (key # keys) ap =
     rbind (check_rate_limit key 1 1 False ap) (\<lambda>(ap', ok).
       if ok then check_cached_limits keys ap' else Inr (ap', False))"

definition process_packet_with_cache_entry ::
  "nat \<Rightarrow> PacketInfo \<Rightarrow> AclCacheEntry \<Rightarrow> ('c4, 'c6) AclProcessor \<Rightarrow> (('c4, 'c6) AclProcessor \<times> AclResult) rust" where
  "process_packet_with_cache_entry now p entry ap =
     rbind (check_cached_limits (ce_rate_limit_keys entry) ap) (\<lambda>(ap1, ok).
       if \<not> ok then Inr (ap1, rate_limit_drop (ce_matched_rule entry))
       else
         rbind (case ce_conn_track_key entry of
                  Some key \<Rightarrow> check_connection_state now key p ap1 | None \<Rightarrow> Inr ap1) (\<lambda>ap2.
         rbind (inc_cache_entry_stats entry p ap2) (\<lambda>ap3.
           rmap (\<lambda>r. (ap3, r)) (unwrap (ce_acl_result entry)))))"

definition rules_of :: "('c4, 'c6) AclProcessor \<Rightarrow> ChainType \<Rightarrow> ('c4, 'c6) FastLookupRule list option" where
  "rules_of ap ct =
     (case ct of
        Inbound \<Rightarrow> Some (ap_inbound_rules ap)
      | Outbound \<Rightarrow> Some (ap_outbound_rules ap)
      | Forward \<Rightarrow> Some (ap_forward_rules ap)
      | UnspecifiedChain \<Rightarrow> None)"

definition default_action_of :: "('c4, 'c6) AclProcessor \<Rightarrow> ChainType \<Rightarrow> Action" where
  "default_action_of ap ct =
     (case ct of
        Inbound \<Rightarrow> ap_default_inbound_action ap
      | Outbound \<Rightarrow> ap_default_outbound_action ap
      | Forward \<Rightarrow> ap_default_forward_action ap
      | UnspecifiedChain \<Rightarrow> Allow)"

definition new_cache_entry :: "nat \<Rightarrow> ChainType \<Rightarrow> AclCacheEntry" where
  "new_cache_entry now ct =
     \<lparr>ce_action = Allow, ce_matched_rule = Default, ce_last_access = now, ce_conn_track_key = None,
      ce_rate_limit_keys = [], ce_chain_type = ct, ce_acl_result = None, ce_rule_stats_vec = []\<rparr>"

text \<open>The result of a rule that has passed its rate limit.\<close>

definition rule_result :: "('c4, 'c6) FastLookupRule \<Rightarrow> PacketInfo \<Rightarrow> AclResult" where
  "rule_result rule p =
     (if fr_stateful rule \<and> fr_action rule = Allow
      then \<lparr>ar_action = Allow, ar_matched_rule = Some (Stateful (fr_priority rule)), ar_should_log = False,
            ar_log_context = Some (StatefulMatch (pi_src_ip p) (pi_dst_ip p))\<rparr>
      else \<lparr>ar_action = fr_action rule, ar_matched_rule = Some (Priority (fr_priority rule)), ar_should_log = False,
            ar_log_context = Some (RuleMatch (pi_src_ip p) (pi_dst_ip p) (fr_action rule))\<rparr>)"

definition default_result :: "Action \<Rightarrow> AclResult" where
  "default_result a =
     \<lparr>ar_action = a, ar_matched_rule = Some Default, ar_should_log = False,
      ar_log_context = Some (if a = Drop then DefaultDrop else DefaultAllow)\<rparr>"

text \<open>The cache entry and the effects of a matching rule that is not over its limit.\<close>

definition rule_cache_entry ::
  "nat \<Rightarrow> ChainType \<Rightarrow> PacketInfo \<Rightarrow> ('c4, 'c6) FastLookupRule \<Rightarrow> AclCacheEntry" where
  "rule_cache_entry now ct p rule =
     (let limited = fr_rate_limit rule > 0; stateful_match = fr_stateful rule \<and> fr_action rule = Allow
      in (new_cache_entry now ct)
           \<lparr>ce_rate_limit_keys := (if limited then [\<lparr>rk_chain_type = ct, rk_rule_priority = fr_priority rule\<rparr>] else []),
            ce_rule_stats_vec := (if limited then [fr_rule_stats rule] else []) @ [fr_rule_stats rule],
            ce_matched_rule := (if stateful_match then Stateful (fr_priority rule) else Priority (fr_priority rule)),
            ce_conn_track_key := (if stateful_match then Some (conn_track_key p) else None),
            ce_acl_result := Some (rule_result rule p)\<rparr>)"

definition accept_rule ::
  "nat \<Rightarrow> ChainType \<Rightarrow> PacketInfo \<Rightarrow> ('c4, 'c6) FastLookupRule \<Rightarrow> ('c4, 'c6) AclProcessor
    \<Rightarrow> (('c4, 'c6) AclProcessor \<times> AclResult) rust" where
  "accept_rule now ct p rule ap =
     (let entry = rule_cache_entry now ct p rule
      in rbind (case ce_conn_track_key entry of
                  Some key \<Rightarrow> check_connection_state now key p ap | None \<Rightarrow> Inr ap) (\<lambda>ap1.
         rbind (increment_stat RuleMatches ap1) (\<lambda>ap2.
         rmap (\<lambda>ap3. (cache_result (from_packet_info p ct) entry ap3, rule_result rule p))
           (inc_cache_entry_stats entry p ap2))))"

text \<open>The body of the loop for the first rule that matches.\<close>

definition apply_rule ::
  "nat \<Rightarrow> ChainType \<Rightarrow> PacketInfo \<Rightarrow> ('c4, 'c6) FastLookupRule \<Rightarrow> ('c4, 'c6) AclProcessor
    \<Rightarrow> (('c4, 'c6) AclProcessor \<times> AclResult) rust" where
  "apply_rule now ct p rule ap =
     rbind (if fr_rate_limit rule > 0
            then check_rate_limit \<lparr>rk_chain_type = ct, rk_rule_priority = fr_priority rule\<rparr>
                   (fr_rate_limit rule) (fr_burst_limit rule) True ap
            else Inr (ap, True)) (\<lambda>(ap1, ok).
       if \<not> ok then Inr (ap1, rate_limit_drop (Priority (fr_priority rule)))
       else accept_rule now ct p rule ap1)"

definition apply_default ::
  "nat \<Rightarrow> ChainType \<Rightarrow> PacketInfo \<Rightarrow> ('c4, 'c6) AclProcessor \<Rightarrow> (('c4, 'c6) AclProcessor \<times> AclResult) rust" where
  "apply_default now ct p ap =
     (let action = default_action_of ap ct;
          entry = (new_cache_entry now ct)\<lparr>ce_rule_stats_vec := [ap_default_rule_stats ap],
                    ce_matched_rule := Default, ce_acl_result := Some (default_result action)\<rparr>
      in rbind (increment_stat (if action = Drop then DefaultDrops else DefaultAllows) ap) (\<lambda>ap1.
           rmap (\<lambda>ap2. (cache_result (from_packet_info p ct) entry ap2, default_result action))
             (inc_cache_entry_stats entry p ap1)))"

fun process_rules ::
  "('c4, 'c6) CidrLib \<Rightarrow> nat \<Rightarrow> ChainType \<Rightarrow> PacketInfo \<Rightarrow> ('c4, 'c6) FastLookupRule list \<Rightarrow> ('c4, 'c6) AclProcessor
    \<Rightarrow> (('c4, 'c6) AclProcessor \<times> AclResult) rust" where
  "process_rules lib now ct p [] ap = apply_default now ct p ap"
| "process_rules lib now ct p (rule # rules) ap =
     (if \<not> fr_enabled rule \<or> \<not> rule_matches lib rule p then process_rules lib now ct p rules ap
      else apply_rule now ct p rule ap)"

definition process_packet ::
  "('c4, 'c6) CidrLib \<Rightarrow> nat \<Rightarrow> PacketInfo \<Rightarrow> ChainType \<Rightarrow> ('c4, 'c6) AclProcessor
    \<Rightarrow> (('c4, 'c6) AclProcessor \<times> AclResult) rust" where
  "process_packet lib now p ct ap =
     (let key = from_packet_info p ct
      in case dm_get (ap_rule_cache ap) key of
           Some cached \<Rightarrow>
             (let entry = cached\<lparr>ce_last_access := now\<rparr>
              in rbind (increment_stat CacheHits (ap\<lparr>ap_rule_cache := dm_insert key entry (ap_rule_cache ap)\<rparr>))
                   (process_packet_with_cache_entry now p entry))
         | None \<Rightarrow>
             (case rules_of ap ct of
                None \<Rightarrow> Inr (ap, \<lparr>ar_action = Drop, ar_matched_rule = Some Default, ar_should_log = False,
                                   ar_log_context = Some UnsupportedChainType\<rparr>)
              | Some rules \<Rightarrow> process_rules lib now ct p rules ap))"

section \<open>Background tasks and statistics\<close>

fun expired_connections :: "nat \<Rightarrow> nat \<Rightarrow> (conn_key, ConnTrackEntry) dmap \<Rightarrow> conn_key list rust" where
  "expired_connections now timeout [] = Inr []"
| "expired_connections now timeout ((k, e) # entries) =
     rbind (checked_sub now (ct_last_seen e)) (\<lambda>age.
       rmap (\<lambda>ks. if age > timeout then k # ks else ks) (expired_connections now timeout entries))"

definition cleanup_expired_connections ::
  "nat \<Rightarrow> nat \<Rightarrow> (conn_key, ConnTrackEntry) dmap \<Rightarrow> (conn_key, ConnTrackEntry) dmap rust" where
  "cleanup_expired_connections now timeout conn_track =
     rmap (\<lambda>ks. fold dm_remove ks conn_track) (expired_connections now timeout conn_track)"

definition run_cache_cleanup :: "('c4, 'c6) AclProcessor \<Rightarrow> ('c4, 'c6) AclProcessor" where
  "run_cache_cleanup ap = ap\<lparr>ap_rule_cache := cleanup_cache (ap_cache_max_size ap) (ap_rule_cache ap)\<rparr>"

definition run_connection_cleanup :: "nat \<Rightarrow> ('c4, 'c6) AclProcessor \<Rightarrow> ('c4, 'c6) AclProcessor rust" where
  "run_connection_cleanup now ap =
     rmap (\<lambda>c. ap\<lparr>ap_conn_track := c\<rparr>) (cleanup_expired_connections now 60 (ap_conn_track ap))"

definition get_rules_stats :: "('c4, 'c6) AclProcessor \<Rightarrow> RuleStats option list" where
  "get_rules_stats ap =
     map (\<lambda>r. dm_get (ap_rule_stats ap) (fr_rule_stats r)) (ap_inbound_rules ap @ ap_outbound_rules ap @ ap_forward_rules ap)"

text \<open>The snapshot, with the keys themselves in place of their printed names.\<close>

definition get_stats :: "('c4, 'c6) AclProcessor \<Rightarrow> (AclStatKey, u64) dmap" where
  "get_stats ap = dm_insert CacheMaxSize (of_nat (ap_cache_max_size ap))
     (dm_insert CacheSize (of_nat (length (ap_rule_cache ap))) (ap_stats ap))"

definition get_cache_hit_rate :: "('c4, 'c6) AclProcessor \<Rightarrow> rat rust" where
  "get_cache_hit_rate ap =
     (let counter = (\<lambda>key. case dm_get (ap_stats ap) key of Some n \<Rightarrow> n | None \<Rightarrow> 0)
      in rmap (\<lambda>total. if total = 0 then 0 else f64_div (f64_of_u64 (counter CacheHits)) (f64_of_u64 total))
           (checked_add (counter CacheHits) (counter RuleMatches)))"

end
