(* ===== verification/AclDecision.thy ===== *)
theory AclDecision
  imports AclProcessor
begin

text \<open>
  The cached access control processor decides like the uncached rule list: \<open>acl_decide\<close> is the
  first-match reference, and in every reachable state a packet gets its decision or is dropped by a rate limit.
\<close>

section \<open>The reference decision\<close>

definition first_match ::
  "('c4, 'c6) CidrLib \<Rightarrow> ('c4, 'c6) FastLookupRule list \<Rightarrow> PacketInfo \<Rightarrow> ('c4, 'c6) FastLookupRule option" where
  "first_match lib rules p = find (\<lambda>r. fr_enabled r \<and> rule_matches lib r p) rules"

definition acl_decide :: "('c4, 'c6) CidrLib \<Rightarrow> ('c4, 'c6) AclProcessor \<Rightarrow> PacketInfo \<Rightarrow> ChainType \<Rightarrow> AclResult" where
  "acl_decide lib ap p ct =
     (case rules_of ap ct of
        None \<Rightarrow> \<lparr>ar_action = Drop, ar_matched_rule = Some Default, ar_should_log = False,
                 ar_log_context = Some UnsupportedChainType\<rparr>
      | Some rules \<Rightarrow>
          (case first_match lib rules p of
             Some r \<Rightarrow> rule_result r p | None \<Rightarrow> default_result (default_action_of ap ct)))"

definition rate_limited :: "('c4, 'c6) CidrLib \<Rightarrow> ('c4, 'c6) AclProcessor \<Rightarrow> PacketInfo \<Rightarrow> ChainType \<Rightarrow> bool" where
  "rate_limited lib ap p ct \<longleftrightarrow>
     (\<exists>rules r. rules_of ap ct = Some rules \<and> first_match lib rules p = Some r \<and> fr_rate_limit r > 0)"

text \<open>Packets as the filter extracts them: both ports are present exactly for TCP and UDP.\<close>

definition well_ported :: "PacketInfo \<Rightarrow> bool" where
  "well_ported p \<longleftrightarrow>
     (pi_src_port p \<noteq> None) = (pi_protocol p \<in> {Tcp, Udp}) \<and> (pi_dst_port p \<noteq> None) = (pi_protocol p \<in> {Tcp, Udp})"

text \<open>For such packets the cache key determines everything a rule looks at.\<close>

lemma key_fields:
  assumes "from_packet_info p ct = from_packet_info q ct'"
  shows "ct = ct'" "pi_protocol p = pi_protocol q" "pi_src_ip p = pi_src_ip q" "pi_dst_ip p = pi_dst_ip q"
    "pi_src_groups p = pi_src_groups q" "pi_dst_groups p = pi_dst_groups q"
    "port_or_zero (pi_src_port p) = port_or_zero (pi_src_port q)"
    "port_or_zero (pi_dst_port p) = port_or_zero (pi_dst_port q)"
  using assms by (simp_all add: from_packet_info_def)

lemma key_ports:
  assumes "from_packet_info p ct = from_packet_info q ct'" and "well_ported p" and "well_ported q"
  shows "pi_src_port p = pi_src_port q" "pi_dst_port p = pi_dst_port q"
  using key_fields [OF assms(1)] assms(2,3)
  by (auto simp: well_ported_def port_or_zero_def split: option.splits)

lemma rule_matches_key:
  assumes "from_packet_info p ct = from_packet_info q ct'" and "well_ported p" and "well_ported q"
  shows "rule_matches lib r p = rule_matches lib r q"
  by (simp add: rule_matches_def key_fields [OF assms(1)] key_ports [OF assms])

lemma first_match_key:
  assumes "from_packet_info p ct = from_packet_info q ct'" and "well_ported p" and "well_ported q"
  shows "first_match lib rules p = first_match lib rules q"
  by (simp add: first_match_def rule_matches_key [OF assms])

lemma acl_decide_key:
  assumes "from_packet_info p ct = from_packet_info q ct" and "well_ported p" and "well_ported q"
  shows "acl_decide lib ap p ct = acl_decide lib ap q ct"
  unfolding acl_decide_def first_match_key [OF assms] rule_result_def key_fields(3,4) [OF assms(1)] ..

section \<open>The cache as a memo table\<close>

text \<open>
  What the processor needs of its cache: a stored entry is found under its key or not at all, and eviction only forgets.
  Then a condition on all entries survives every operation that stores good entries.
\<close>

locale memo_table =
  fixes lookup :: "'s \<Rightarrow> 'k \<Rightarrow> 'v option"
    and put :: "'k \<Rightarrow> 'v \<Rightarrow> 's \<Rightarrow> 's"
    and evict :: "'s \<Rightarrow> 's"
  assumes lookup_put: "lookup (put k v s) k' = Some w \<Longrightarrow> (k' = k \<and> w = v) \<or> lookup s k' = Some w"
    and lookup_evict: "lookup (evict s) k = Some w \<Longrightarrow> lookup s k = Some w"
begin

lemma put_keeps:
  "(\<And>k v. lookup s k = Some v \<Longrightarrow> P k v) \<Longrightarrow> P k v \<Longrightarrow> lookup (put k v s) k' = Some w \<Longrightarrow> P k' w"
  using lookup_put by blast

lemma evict_keeps:
  "(\<And>k v. lookup s k = Some v \<Longrightarrow> P k v) \<Longrightarrow> lookup (evict s) k' = Some w \<Longrightarrow> P k' w"
  using lookup_evict by blast

end

lemma dm_get_fold_remove: "dm_get (fold (\<lambda>(k, _). dm_remove k) xs m) k' = (if k' \<in> fst ` set xs then None else dm_get m k')"
  by (induction xs arbitrary: m) auto

lemma cleanup_cache_sub: "dm_get (cleanup_cache n cache) k = Some e \<Longrightarrow> dm_get cache k = Some e"
  by (auto simp: cleanup_cache_def Let_def dm_get_fold_remove split: if_splits)

interpretation acl_cache: memo_table "\<lambda>ap. dm_get (ap_rule_cache ap)" cache_result run_cache_cleanup
proof
  fix k k' and v w :: AclCacheEntry and s :: "('c4, 'c6) AclProcessor"
  show "dm_get (ap_rule_cache (cache_result k v s)) k' = Some w \<Longrightarrow>
      (k' = k \<and> w = v) \<or> dm_get (ap_rule_cache s) k' = Some w"
    by (auto simp: cache_result_def Let_def split: if_splits dest: cleanup_cache_sub)
  show "dm_get (ap_rule_cache (run_cache_cleanup s)) k = Some w \<Longrightarrow> dm_get (ap_rule_cache s) k = Some w"
    by (auto simp: run_cache_cleanup_def dest: cleanup_cache_sub)
qed

section \<open>The invariant\<close>

definition stat_ok :: "(nat, RuleStats) dmap \<Rightarrow> nat \<Rightarrow> bool" where
  "stat_ok heap s \<longleftrightarrow> (\<exists>rs item. dm_get heap s = Some rs \<and> rst_stat rs = Some item)"

definition stats_ok :: "('c4, 'c6) AclProcessor \<Rightarrow> bool" where
  "stats_ok ap \<longleftrightarrow> stat_ok (ap_rule_stats ap) (ap_default_rule_stats ap) \<and>
     (\<forall>r \<in> set (ap_inbound_rules ap @ ap_outbound_rules ap @ ap_forward_rules ap).
        stat_ok (ap_rule_stats ap) (fr_rule_stats r))"

definition entry_ok :: "('c4, 'c6) CidrLib \<Rightarrow> ('c4, 'c6) AclProcessor \<Rightarrow> AclCacheKey \<Rightarrow> AclCacheEntry \<Rightarrow> bool" where
  "entry_ok lib ap key e \<longleftrightarrow>
     (\<exists>p ct. key = from_packet_info p ct \<and> well_ported p \<and> ce_acl_result e = Some (acl_decide lib ap p ct) \<and>
        (ce_rate_limit_keys e \<noteq> [] \<longrightarrow> rate_limited lib ap p ct)) \<and>
     (\<forall>k \<in> set (ce_rate_limit_keys e). dm_get (ap_rate_limiters ap) k \<noteq> None) \<and>
     (\<forall>s \<in> set (ce_rule_stats_vec e). stat_ok (ap_rule_stats ap) s)"

definition acl_inv :: "('c4, 'c6) CidrLib \<Rightarrow> ('c4, 'c6) AclProcessor \<Rightarrow> bool" where
  "acl_inv lib ap \<longleftrightarrow>
     stats_ok ap \<and> (\<forall>key e. dm_get (ap_rule_cache ap) key = Some e \<longrightarrow> entry_ok lib ap key e)"

text \<open>
  One processor extends another: same rules and defaults, no counter object and no rate limiter lost. Whatever holds of a cache
  entry in the first holds in the second.
\<close>

definition extends :: "('c4, 'c6) AclProcessor \<Rightarrow> ('c4, 'c6) AclProcessor \<Rightarrow> bool" where
  "extends ap ap' \<longleftrightarrow>
     rules_of ap' = rules_of ap \<and> default_action_of ap' = default_action_of ap \<and>
     ap_default_rule_stats ap' = ap_default_rule_stats ap \<and>
     set (ap_inbound_rules ap' @ ap_outbound_rules ap' @ ap_forward_rules ap') =
       set (ap_inbound_rules ap @ ap_outbound_rules ap @ ap_forward_rules ap) \<and>
     (\<forall>s. stat_ok (ap_rule_stats ap) s \<longrightarrow> stat_ok (ap_rule_stats ap') s) \<and>
     (\<forall>k. dm_get (ap_rate_limiters ap) k \<noteq> None \<longrightarrow> dm_get (ap_rate_limiters ap') k \<noteq> None)"

lemma extends_refl: "extends ap ap"
  by (simp add: extends_def)

lemma extends_trans: "extends a b \<Longrightarrow> extends b c \<Longrightarrow> extends a c"
  by (auto simp: extends_def)

lemma extends_decide:
  "extends ap ap' \<Longrightarrow> acl_decide lib ap' p ct = acl_decide lib ap p ct"
  "extends ap ap' \<Longrightarrow> rate_limited lib ap' p ct = rate_limited lib ap p ct"
  by (auto simp: extends_def acl_decide_def rate_limited_def split: option.splits)

lemma extends_entry: "extends ap ap' \<Longrightarrow> entry_ok lib ap key e \<Longrightarrow> entry_ok lib ap' key e"
  unfolding entry_ok_def by (simp add: extends_decide) (simp add: extends_def)

lemma extends_stats: "extends ap ap' \<Longrightarrow> stats_ok ap \<Longrightarrow> stats_ok ap'"
  unfolding stats_ok_def extends_def by simp

lemma extends_inv:
  assumes "extends ap ap'" and "acl_inv lib ap" and "ap_rule_cache ap' = ap_rule_cache ap"
  shows "acl_inv lib ap'"
  using assms extends_entry extends_stats by (fastforce simp: acl_inv_def)

section \<open>What the operations keep\<close>

definition keeps :: "('c4, 'c6) AclProcessor \<Rightarrow> ('c4, 'c6) AclProcessor \<Rightarrow> bool" where
  "keeps ap ap' \<longleftrightarrow> extends ap ap' \<and> ap_rule_cache ap' = ap_rule_cache ap"

lemma keeps_refl: "keeps ap ap"
  by (simp add: keeps_def extends_refl)

lemma keeps_trans: "keeps a b \<Longrightarrow> keeps b c \<Longrightarrow> keeps a c"
  using extends_trans by (auto simp: keeps_def)

lemma keeps_inv: "keeps ap ap' \<Longrightarrow> acl_inv lib ap \<Longrightarrow> acl_inv lib ap'"
  unfolding keeps_def by (elim conjE) (rule extends_inv)

lemma keeps_update [simp]:
  "keeps ap (ap\<lparr>ap_stats := x\<rparr>)" "keeps ap (ap\<lparr>ap_conn_track := y\<rparr>)"
  by (auto simp: keeps_def extends_def rules_of_def default_action_of_def fun_eq_iff split: ChainType.splits)

lemma checked_add_Inl: "checked_add a b = Inl e \<Longrightarrow> e = ArithOverflow"
  by (simp add: checked_add_def split: if_splits)

lemma rbind_Inl_iff: "rbind m f = Inl e \<longleftrightarrow> m = Inl e \<or> (\<exists>x. m = Inr x \<and> f x = Inl e)"
  by (cases m) auto

lemma rmap_Inl_iff: "rmap f m = Inl e \<longleftrightarrow> m = Inl e"
  by (cases m) auto

lemma increment_stat_keeps: "increment_stat key ap = Inr ap' \<Longrightarrow> keeps ap ap'"
  by (auto simp: increment_stat_def rust_Inr split: option.splits)

lemma increment_stat_panic: "increment_stat key ap = Inl e \<Longrightarrow> e = ArithOverflow"
  by (auto simp: increment_stat_def rmap_Inl_iff split: option.splits dest: checked_add_Inl)

lemma check_connection_state_keeps: "check_connection_state now key p ap = Inr ap' \<Longrightarrow> keeps ap ap'"
  by (auto simp: check_connection_state_def rust_Inr split: option.splits)

lemma check_connection_state_panic: "check_connection_state now key p ap = Inl e \<Longrightarrow> e = ArithOverflow"
  by (auto simp: check_connection_state_def rbind_Inl_iff rmap_Inl_iff split: option.splits dest: checked_add_Inl)

lemma check_rate_limit_keeps:
  assumes "check_rate_limit key rate burst c ap = Inr (ap', ok)"
  shows "keeps ap ap'" and "rate \<noteq> 0 \<Longrightarrow> dm_get (ap_rate_limiters ap') key \<noteq> None"
proof -
  have "ap' = ap \<or> (\<exists>b. ap' = ap\<lparr>ap_rate_limiters := dm_insert key b (ap_rate_limiters ap)\<rparr>)"
    using assms by (auto simp: check_rate_limit_def rust_Inr Let_def split_beta split: if_splits)
  then show "keeps ap ap'"
    by (auto simp: keeps_def extends_def rules_of_def default_action_of_def fun_eq_iff split: ChainType.splits)
  show "rate \<noteq> 0 \<Longrightarrow> dm_get (ap_rate_limiters ap') key \<noteq> None"
    using assms by (auto simp: check_rate_limit_def rust_Inr Let_def split_beta)
qed

lemma check_rate_limit_panic:
  "check_rate_limit key rate burst c ap = Inl e \<Longrightarrow> \<not> c \<and> dm_get (ap_rate_limiters ap) key = None"
  by (auto simp: check_rate_limit_def rmap_Inl_iff split: option.splits if_splits)

lemma inc_rule_stats_keeps:
  "inc_rule_stats p refs heap = Inr heap' \<Longrightarrow> stat_ok heap s \<Longrightarrow> stat_ok heap' s"
proof (induction refs arbitrary: heap)
  case (Cons r refs)
  from Cons.prems(1) obtain rs item packets bytes where
    rest: "inc_rule_stats p refs
       (dm_insert r (rs\<lparr>rst_stat := Some \<lparr>si_packet_count = packets, si_byte_count = bytes\<rparr>\<rparr>) heap) = Inr heap'"
    by (auto simp: rust_Inr)
  have "stat_ok (dm_insert r (rs\<lparr>rst_stat := Some \<lparr>si_packet_count = packets, si_byte_count = bytes\<rparr>\<rparr>) heap) s"
    using Cons.prems(2) by (auto simp: stat_ok_def)
  with Cons.IH [OF rest] show ?case by blast
qed simp

lemma inc_rule_stats_panic:
  "inc_rule_stats p refs heap = Inl e \<Longrightarrow> \<forall>s \<in> set refs. stat_ok heap s \<Longrightarrow> e = ArithOverflow"
proof (induction refs arbitrary: heap)
  case (Cons r refs)
  obtain rs item where r: "dm_get heap r = Some rs" "rst_stat rs = Some item"
    using Cons.prems(2) by (auto simp: stat_ok_def)
  let ?heap = "\<lambda>packets bytes. dm_insert r (rs\<lparr>rst_stat := Some \<lparr>si_packet_count = packets, si_byte_count = bytes\<rparr>\<rparr>) heap"
  have ok: "\<forall>s \<in> set refs. stat_ok (?heap packets bytes) s" for packets bytes
    using Cons.prems(2) by (auto simp: stat_ok_def)
  show ?case
    using Cons.prems(1) Cons.IH [OF _ ok] by (auto simp: r rbind_Inl_iff dest: checked_add_Inl)
qed simp

lemma inc_cache_entry_stats_keeps: "inc_cache_entry_stats entry p ap = Inr ap' \<Longrightarrow> keeps ap ap'"
  by (auto simp: inc_cache_entry_stats_def rust_Inr keeps_def extends_def rules_of_def default_action_of_def fun_eq_iff
      intro: inc_rule_stats_keeps split: ChainType.splits)

lemma inc_cache_entry_stats_panic:
  "inc_cache_entry_stats entry p ap = Inl e \<Longrightarrow> \<forall>s \<in> set (ce_rule_stats_vec entry). stat_ok (ap_rule_stats ap) s \<Longrightarrow>
     e = ArithOverflow"
  by (auto simp: inc_cache_entry_stats_def rmap_Inl_iff dest: inc_rule_stats_panic)

lemma keeps_limiters: "keeps ap ap' \<Longrightarrow> dm_get (ap_rate_limiters ap) k \<noteq> None \<Longrightarrow> dm_get (ap_rate_limiters ap') k \<noteq> None"
  by (simp add: keeps_def extends_def)

lemma keeps_stat: "keeps ap ap' \<Longrightarrow> stat_ok (ap_rule_stats ap) s \<Longrightarrow> stat_ok (ap_rule_stats ap') s"
  by (simp add: keeps_def extends_def)

lemma check_cached_limits_keeps:
  "check_cached_limits keys ap = Inr (ap', ok) \<Longrightarrow> keeps ap ap' \<and> (keys = [] \<longrightarrow> ok)"
proof (induction keys arbitrary: ap)
  case (Cons k keys)
  then obtain ap1 ok1 where 1: "check_rate_limit k 1 1 False ap = Inr (ap1, ok1)"
    "(if ok1 then check_cached_limits keys ap1 else Inr (ap1, False)) = Inr (ap', ok)"
    by (auto simp: rbind_Inr_iff)
  from check_rate_limit_keeps(1) [OF 1(1)] 1(2) Cons.IH show ?case
    by (auto split: if_splits intro: keeps_trans)
qed (simp add: keeps_refl)

lemma check_cached_limits_panic:
  "\<forall>k \<in> set keys. dm_get (ap_rate_limiters ap) k \<noteq> None \<Longrightarrow> check_cached_limits keys ap \<noteq> Inl e"
proof (induction keys arbitrary: ap)
  case (Cons k keys)
  have "check_rate_limit k 1 1 False ap \<noteq> Inl e"
    using Cons.prems check_rate_limit_panic by fastforce
  moreover have "check_cached_limits keys ap1 \<noteq> Inl e" if "check_rate_limit k 1 1 False ap = Inr (ap1, ok)" for ap1 ok
    using Cons.prems keeps_limiters [OF check_rate_limit_keeps(1) [OF that]] by (intro Cons.IH) auto
  ultimately show ?case by (auto simp: rbind_Inl_iff split: if_splits)
qed simp

section \<open>Deciding a packet\<close>

definition decided ::
  "('c4, 'c6) CidrLib \<Rightarrow> ('c4, 'c6) AclProcessor \<Rightarrow> PacketInfo \<Rightarrow> ChainType \<Rightarrow> AclResult \<Rightarrow> bool" where
  "decided lib ap p ct r \<longleftrightarrow>
     r = acl_decide lib ap p ct \<or>
     rate_limited lib ap p ct \<and> ar_action r = Drop \<and> ar_log_context r = Some RateLimitDrop"

lemma process_rules_first_match:
  "process_rules lib now ct p rules ap =
     (case first_match lib rules p of Some r \<Rightarrow> apply_rule now ct p r ap | None \<Rightarrow> apply_default now ct p ap)"
  by (induction rules) (auto simp: first_match_def)

lemma first_match_in: "first_match lib rules p = Some r \<Longrightarrow> r \<in> set rules"
  by (auto simp: first_match_def find_Some_iff)

lemma rules_of_sub: "rules_of ap ct = Some rules \<Longrightarrow>
    set rules \<subseteq> set (ap_inbound_rules ap @ ap_outbound_rules ap @ ap_forward_rules ap)"
  by (auto simp: rules_of_def split: ChainType.splits)

lemma cache_result_extends: "extends ap (cache_result key e ap)"
  by (simp add: cache_result_def Let_def extends_def rules_of_def default_action_of_def fun_eq_iff split: ChainType.split)

lemma cache_result_inv:
  assumes "acl_inv lib ap" and "entry_ok lib ap key e"
  shows "acl_inv lib (cache_result key e ap)"
proof -
  have ext: "extends ap (cache_result key e ap)" by (rule cache_result_extends)
  have "entry_ok lib ap k w" if "dm_get (ap_rule_cache (cache_result key e ap)) k = Some w" for k w
    using assms that acl_cache.put_keeps [of ap "entry_ok lib ap"] by (auto simp: acl_inv_def)
  with assms(1) extends_entry [OF ext] extends_stats [OF ext] show ?thesis by (auto simp: acl_inv_def)
qed

lemma keeps_entry: "keeps ap ap' \<Longrightarrow> entry_ok lib ap key e \<Longrightarrow> entry_ok lib ap' key e"
  using extends_entry by (auto simp: keeps_def)

lemma keeps_decide:
  "keeps ap ap' \<Longrightarrow> acl_decide lib ap' p ct = acl_decide lib ap p ct"
  "keeps ap ap' \<Longrightarrow> rate_limited lib ap' p ct = rate_limited lib ap p ct"
  by (simp_all add: keeps_def extends_decide)

lemma entry_okI:
  assumes "well_ported p" and "ce_acl_result e = Some (acl_decide lib ap p ct)"
    and "ce_rate_limit_keys e \<noteq> [] \<Longrightarrow> rate_limited lib ap p ct"
    and "\<forall>k \<in> set (ce_rate_limit_keys e). dm_get (ap_rate_limiters ap) k \<noteq> None"
    and "\<forall>s \<in> set (ce_rule_stats_vec e). stat_ok (ap_rule_stats ap) s"
  shows "entry_ok lib ap (from_packet_info p ct) e"
  unfolding entry_ok_def using assms by blast

lemma apply_default_decides:
  assumes run: "apply_default now ct p ap = Inr (ap', r)" and inv: "acl_inv lib ap" and wp: "well_ported p"
    and rules: "rules_of ap ct = Some rules" and none: "first_match lib rules p = None"
  shows "acl_inv lib ap' \<and> decided lib ap p ct r"
proof -
  let ?e = "(new_cache_entry now ct)\<lparr>ce_rule_stats_vec := [ap_default_rule_stats ap],
    ce_matched_rule := Default, ce_acl_result := Some (default_result (default_action_of ap ct))\<rparr>"
  from run obtain ap1 ap2 where 1: "increment_stat (if default_action_of ap ct = Drop then DefaultDrops else DefaultAllows) ap = Inr ap1"
    and 2: "inc_cache_entry_stats ?e p ap1 = Inr ap2"
    and ap': "ap' = cache_result (from_packet_info p ct) ?e ap2" and r: "r = default_result (default_action_of ap ct)"
    by (auto simp: apply_default_def Let_def rust_Inr)
  have keep: "keeps ap ap2" using 1 2 by (blast intro: keeps_trans increment_stat_keeps inc_cache_entry_stats_keeps)
  have dec: "acl_decide lib ap p ct = r" using rules none r by (simp add: acl_decide_def)
  have "stat_ok (ap_rule_stats ap2) (ap_default_rule_stats ap)"
    using inv keep by (auto simp: acl_inv_def stats_ok_def intro: keeps_stat)
  then have "entry_ok lib ap2 (from_packet_info p ct) ?e"
    using wp dec r keeps_decide [OF keep] by (intro entry_okI) (auto simp: new_cache_entry_def)
  with keeps_inv [OF keep inv] dec show ?thesis by (auto simp: ap' decided_def intro: cache_result_inv)
qed

lemma apply_default_panic:
  assumes "apply_default now ct p ap = Inl e" and "acl_inv lib ap"
  shows "e = ArithOverflow"
  using assms
  by (auto simp: apply_default_def Let_def rbind_Inl_iff rmap_Inl_iff acl_inv_def stats_ok_def
      dest!: increment_stat_panic inc_cache_entry_stats_panic increment_stat_keeps intro: keeps_stat)

lemma rule_cache_entry_simps [simp]:
  "ce_acl_result (rule_cache_entry now ct p rule) = Some (rule_result rule p)"
  "set (ce_rule_stats_vec (rule_cache_entry now ct p rule)) = {fr_rule_stats rule}"
  "ce_rate_limit_keys (rule_cache_entry now ct p rule) =
     (if fr_rate_limit rule > 0 then [\<lparr>rk_chain_type = ct, rk_rule_priority = fr_priority rule\<rparr>] else [])"
  by (auto simp: rule_cache_entry_def Let_def)

lemma accept_rule_Inr:
  assumes "accept_rule now ct p rule ap = Inr (ap', r)"
  obtains ap3 where "keeps ap ap3" "r = rule_result rule p"
    "ap' = cache_result (from_packet_info p ct) (rule_cache_entry now ct p rule) ap3"
proof -
  let ?e = "rule_cache_entry now ct p rule"
  from assms obtain ap1 ap2 ap3 where
    1: "(case ce_conn_track_key ?e of Some key \<Rightarrow> check_connection_state now key p ap | None \<Rightarrow> Inr ap) = Inr ap1"
    and 2: "increment_stat RuleMatches ap1 = Inr ap2" and 3: "inc_cache_entry_stats ?e p ap2 = Inr ap3"
    and 4: "ap' = cache_result (from_packet_info p ct) ?e ap3" "r = rule_result rule p"
    unfolding accept_rule_def Let_def rust_Inr by blast
  have "keeps ap ap1"
    using 1 by (cases "ce_conn_track_key ?e") (auto intro: check_connection_state_keeps keeps_refl)
  then have "keeps ap ap3"
    using increment_stat_keeps [OF 2] inc_cache_entry_stats_keeps [OF 3] by (blast intro: keeps_trans)
  with 4 show thesis by (intro that)
qed

lemma apply_rule_cases:
  assumes "apply_rule now ct p rule ap = Inr (ap', r)"
  obtains
    (drop) "fr_rate_limit rule > 0" "r = rate_limit_drop (Priority (fr_priority rule))" "keeps ap ap'"
  | (pass) ap3 where "keeps ap ap3" "r = rule_result rule p"
      "ap' = cache_result (from_packet_info p ct) (rule_cache_entry now ct p rule) ap3"
      "\<forall>k \<in> set (ce_rate_limit_keys (rule_cache_entry now ct p rule)). dm_get (ap_rate_limiters ap3) k \<noteq> None"
proof -
  let ?key = "\<lparr>rk_chain_type = ct, rk_rule_priority = fr_priority rule\<rparr>"
  from assms obtain ap1 ok where
    1: "(if fr_rate_limit rule > 0 then check_rate_limit ?key (fr_rate_limit rule) (fr_burst_limit rule) True ap
         else Inr (ap, True)) = Inr (ap1, ok)"
    and 2: "(if \<not> ok then Inr (ap1, rate_limit_drop (Priority (fr_priority rule)))
       else accept_rule now ct p rule ap1) = Inr (ap', r)"
    unfolding apply_rule_def rbind_Inr_iff by auto
  have keep1: "keeps ap ap1" using 1 by (auto split: if_splits dest: check_rate_limit_keeps(1) simp: keeps_refl)
  show thesis
  proof (cases ok)
    case False
    with 1 2 keep1 show thesis by (intro drop) (auto split: if_splits)
  next
    case True
    with 2 obtain ap3 where 3: "keeps ap1 ap3" "r = rule_result rule p"
      "ap' = cache_result (from_packet_info p ct) (rule_cache_entry now ct p rule) ap3"
      by (auto elim: accept_rule_Inr)
    have "dm_get (ap_rate_limiters ap3) ?key \<noteq> None" if "fr_rate_limit rule > 0"
    proof -
      from 1 that have "dm_get (ap_rate_limiters ap1) ?key \<noteq> None"
        by (simp only: if_True) (rule check_rate_limit_keeps(2), assumption, simp)
      then show ?thesis by (rule keeps_limiters [OF 3(1)])
    qed
    with keeps_trans [OF keep1 3(1)] 3(2,3) show thesis by (intro pass) auto
  qed
qed

lemma apply_rule_decides:
  assumes run: "apply_rule now ct p rule ap = Inr (ap', r)" and inv: "acl_inv lib ap" and wp: "well_ported p"
    and rules: "rules_of ap ct = Some rules" and match: "first_match lib rules p = Some rule"
  shows "acl_inv lib ap' \<and> decided lib ap p ct r"
  using run
proof (cases rule: apply_rule_cases)
  case drop
  with inv rules match show ?thesis
    by (auto simp: decided_def rate_limited_def rate_limit_drop_def intro: keeps_inv)
next
  case (pass ap3)
  let ?e = "rule_cache_entry now ct p rule"
  have dec: "acl_decide lib ap p ct = r" using rules match pass(2) by (simp add: acl_decide_def)
  have "stat_ok (ap_rule_stats ap3) (fr_rule_stats rule)"
    using inv first_match_in [OF match] rules_of_sub [OF rules] keeps_stat [OF pass(1)]
    by (auto simp: acl_inv_def stats_ok_def)
  moreover have "ce_rate_limit_keys ?e \<noteq> [] \<Longrightarrow> rate_limited lib ap p ct"
    using rules match by (auto simp: rate_limited_def split: if_splits)
  ultimately have "entry_ok lib ap3 (from_packet_info p ct) ?e"
    using wp dec pass(2,4) keeps_decide [OF pass(1)] by (intro entry_okI) auto
  with keeps_inv [OF pass(1) inv] dec show ?thesis
    unfolding pass(3) decided_def by (blast intro: cache_result_inv)
qed

lemma accept_rule_panic:
  assumes "accept_rule now ct p rule ap = Inl e" and "stat_ok (ap_rule_stats ap) (fr_rule_stats rule)"
  shows "e = ArithOverflow"
proof -
  let ?e = "rule_cache_entry now ct p rule"
  let ?conn = "case ce_conn_track_key ?e of Some key \<Rightarrow> check_connection_state now key p ap | None \<Rightarrow> Inr ap"
  from assms(1) consider "?conn = Inl e" | ap1 where "?conn = Inr ap1" "increment_stat RuleMatches ap1 = Inl e"
    | ap1 ap2 where "?conn = Inr ap1" "increment_stat RuleMatches ap1 = Inr ap2" "inc_cache_entry_stats ?e p ap2 = Inl e"
    unfolding accept_rule_def Let_def rbind_Inl_iff rmap_Inl_iff by blast
  then show ?thesis
  proof cases
    case 1
    then show ?thesis by (cases "ce_conn_track_key ?e") (auto dest: check_connection_state_panic)
  next
    case 2
    then show ?thesis by (blast intro: increment_stat_panic)
  next
    case 3
    have "keeps ap ap1"
      using 3(1) by (cases "ce_conn_track_key ?e") (auto intro: check_connection_state_keeps keeps_refl)
    then have "keeps ap ap2" using increment_stat_keeps [OF 3(2)] by (blast intro: keeps_trans)
    then have "stat_ok (ap_rule_stats ap2) (fr_rule_stats rule)" using assms(2) by (rule keeps_stat)
    with inc_cache_entry_stats_panic [OF 3(3)] show ?thesis by simp
  qed
qed

lemma apply_rule_panic:
  assumes "apply_rule now ct p rule ap = Inl e" and "stat_ok (ap_rule_stats ap) (fr_rule_stats rule)"
  shows "e = ArithOverflow"
proof -
  let ?limit = "if fr_rate_limit rule > 0 then check_rate_limit \<lparr>rk_chain_type = ct, rk_rule_priority = fr_priority rule\<rparr>
                   (fr_rate_limit rule) (fr_burst_limit rule) True ap else Inr (ap, True)"
  have "?limit \<noteq> Inl e" by (auto split: if_splits dest: check_rate_limit_panic)
  with assms(1) obtain ap1 ok where 1: "?limit = Inr (ap1, ok)" and "accept_rule now ct p rule ap1 = Inl e"
    unfolding apply_rule_def rbind_Inl_iff by (auto split: if_splits)
  moreover have "keeps ap ap1" using 1 by (auto split: if_splits dest: check_rate_limit_keeps(1) simp: keeps_refl)
  ultimately show ?thesis using keeps_stat assms(2) by (blast intro: accept_rule_panic)
qed

lemma process_rules_decides:
  assumes run: "process_rules lib now ct p rules ap = Inr (ap', r)" and inv: "acl_inv lib ap" and wp: "well_ported p"
    and rules: "rules_of ap ct = Some rules"
  shows "acl_inv lib ap' \<and> decided lib ap p ct r"
proof (cases "first_match lib rules p")
  case None
  with run show ?thesis by (auto simp: process_rules_first_match intro!: apply_default_decides [OF _ inv wp rules])
next
  case (Some rule)
  with run show ?thesis by (auto simp: process_rules_first_match intro!: apply_rule_decides [OF _ inv wp rules])
qed

lemma process_rules_panic:
  assumes run: "process_rules lib now ct p rules ap = Inl e" and inv: "acl_inv lib ap" and rules: "rules_of ap ct = Some rules"
  shows "e = ArithOverflow"
proof (cases "first_match lib rules p")
  case None
  with run inv show ?thesis by (simp add: process_rules_first_match apply_default_panic)
next
  case (Some rule)
  have "stat_ok (ap_rule_stats ap) (fr_rule_stats rule)"
    using inv first_match_in [OF Some] rules_of_sub [OF rules] by (auto simp: acl_inv_def stats_ok_def)
  with run Some show ?thesis by (auto simp: process_rules_first_match intro: apply_rule_panic)
qed

text \<open>A cached entry is replayed.\<close>

lemma cached_entry_decides:
  assumes run: "process_packet_with_cache_entry now p e ap = Inr (ap', r)" and ok: "entry_ok lib ap (from_packet_info p ct) e"
    and wp: "well_ported p"
  shows "keeps ap ap' \<and> decided lib ap p ct r"
proof -
  from ok obtain q ct' where q: "from_packet_info p ct = from_packet_info q ct'" "well_ported q"
    and res: "ce_acl_result e = Some (acl_decide lib ap q ct')"
    and lim: "ce_rate_limit_keys e \<noteq> [] \<Longrightarrow> rate_limited lib ap q ct'" by (auto simp: entry_ok_def)
  have ct: "ct' = ct" using key_fields(1) [OF q(1)] by simp
  have dec: "acl_decide lib ap q ct = acl_decide lib ap p ct"
    by (rule acl_decide_key [OF q(1) [unfolded ct] wp q(2), symmetric])
  have rl: "rate_limited lib ap q ct = rate_limited lib ap p ct"
    unfolding rate_limited_def first_match_key [OF q(1) wp q(2)] ..
  from run obtain ap1 okf where 1: "check_cached_limits (ce_rate_limit_keys e) ap = Inr (ap1, okf)"
    and 2: "(if \<not> okf then Inr (ap1, rate_limit_drop (ce_matched_rule e))
       else rbind (case ce_conn_track_key e of Some key \<Rightarrow> check_connection_state now key p ap1 | None \<Rightarrow> Inr ap1) (\<lambda>ap2.
         rbind (inc_cache_entry_stats e p ap2) (\<lambda>ap3. rmap (\<lambda>r. (ap3, r)) (unwrap (ce_acl_result e))))) = Inr (ap', r)"
    unfolding process_packet_with_cache_entry_def rbind_Inr_iff by auto
  note lims = check_cached_limits_keeps [OF 1]
  show ?thesis
  proof (cases okf)
    case False
    with 2 lims lim ct rl show ?thesis by (auto simp: decided_def rate_limit_drop_def)
  next
    case True
    with 2 res obtain ap2 ap3 where
      3: "(case ce_conn_track_key e of Some key \<Rightarrow> check_connection_state now key p ap1 | None \<Rightarrow> Inr ap1) = Inr ap2"
      and 4: "inc_cache_entry_stats e p ap2 = Inr ap3" and 5: "ap' = ap3" "r = acl_decide lib ap q ct'"
      by (auto simp: rbind_Inr_iff)
    have "keeps ap1 ap2"
      using 3 by (cases "ce_conn_track_key e") (auto intro: check_connection_state_keeps keeps_refl)
    then have "keeps ap ap'" unfolding 5
      using lims inc_cache_entry_stats_keeps [OF 4] by (blast intro: keeps_trans)
    with 5(2) ct dec show ?thesis by (simp add: decided_def)
  qed
qed

lemma cached_entry_panic:
  assumes run: "process_packet_with_cache_entry now p e ap = Inl err" and ok: "entry_ok lib ap key e"
  shows "err = ArithOverflow"
proof -
  have "check_cached_limits (ce_rate_limit_keys e) ap \<noteq> Inl err"
    using ok by (intro check_cached_limits_panic) (simp add: entry_ok_def)
  moreover have "ce_acl_result e \<noteq> None" and refs: "\<forall>s \<in> set (ce_rule_stats_vec e). stat_ok (ap_rule_stats ap) s"
    using ok by (auto simp: entry_ok_def)
  ultimately obtain ap1 and res :: AclResult where 1: "check_cached_limits (ce_rate_limit_keys e) ap = Inr (ap1, True)"
    and 2: "rbind (case ce_conn_track_key e of Some key \<Rightarrow> check_connection_state now key p ap1 | None \<Rightarrow> Inr ap1) (\<lambda>ap2.
         rbind (inc_cache_entry_stats e p ap2) (\<lambda>ap3. Inr (ap3, res))) = Inl err"
    using run unfolding process_packet_with_cache_entry_def rbind_Inl_iff [of "check_cached_limits _ _"] by (auto split: if_splits)
  have k1: "keeps ap ap1" using check_cached_limits_keeps [OF 1] by simp
  from 2 consider "(case ce_conn_track_key e of Some key \<Rightarrow> check_connection_state now key p ap1 | None \<Rightarrow> Inr ap1) = Inl err"
    | ap2 where "(case ce_conn_track_key e of Some key \<Rightarrow> check_connection_state now key p ap1 | None \<Rightarrow> Inr ap1) = Inr ap2"
        "inc_cache_entry_stats e p ap2 = Inl err"
    unfolding rbind_Inl_iff by auto
  then show ?thesis
  proof cases
    case 1
    then show ?thesis by (cases "ce_conn_track_key e") (auto dest: check_connection_state_panic)
  next
    case 2
    have "keeps ap1 ap2"
      using 2(1) by (cases "ce_conn_track_key e") (auto intro: check_connection_state_keeps keeps_refl)
    with k1 have "keeps ap ap2" by (rule keeps_trans)
    with inc_cache_entry_stats_panic [OF 2(2)] refs show ?thesis by (blast intro: keeps_stat)
  qed
qed

lemma process_packet_decides:
  assumes run: "process_packet lib now p ct ap = Inr (ap', r)" and inv: "acl_inv lib ap" and wp: "well_ported p"
  shows "acl_inv lib ap' \<and> decided lib ap p ct r"
proof (cases "dm_get (ap_rule_cache ap) (from_packet_info p ct)")
  case None
  show ?thesis
  proof (cases "rules_of ap ct")
    case None
    with \<open>dm_get _ _ = None\<close> run inv show ?thesis by (auto simp: process_packet_def decided_def acl_decide_def)
  next
    case (Some rules)
    with None run have "process_rules lib now ct p rules ap = Inr (ap', r)" by (simp add: process_packet_def)
    then show ?thesis using inv wp Some by (rule process_rules_decides)
  qed
next
  case (Some cached)
  let ?e = "cached\<lparr>ce_last_access := now\<rparr>"
  let ?ap0 = "ap\<lparr>ap_rule_cache := dm_insert (from_packet_info p ct) ?e (ap_rule_cache ap)\<rparr>"
  have ext: "extends ap ?ap0"
    by (simp add: extends_def rules_of_def default_action_of_def fun_eq_iff split: ChainType.split)
  have ok: "entry_ok lib ap (from_packet_info p ct) ?e"
    using inv Some by (auto simp: acl_inv_def entry_ok_def)
  have inv0: "acl_inv lib ?ap0"
    using inv extends_stats [OF ext] extends_entry [OF ext] ok by (auto simp: acl_inv_def)
  from run Some obtain ap1 where 1: "increment_stat CacheHits ?ap0 = Inr ap1"
    and 2: "process_packet_with_cache_entry now p ?e ap1 = Inr (ap', r)"
    by (auto simp: process_packet_def Let_def rbind_Inr_iff)
  have k1: "keeps ?ap0 ap1" by (rule increment_stat_keeps [OF 1])
  from cached_entry_decides [OF 2 keeps_entry [OF k1 extends_entry [OF ext ok]] wp]
  have "keeps ap1 ap'" "decided lib ap1 p ct r" by auto
  then show ?thesis
    using keeps_inv [OF keeps_trans [OF k1] inv0] keeps_decide [OF k1] extends_decide [OF ext]
    by (simp add: decided_def)
qed

lemma process_packet_panic:
  assumes run: "process_packet lib now p ct ap = Inl e" and inv: "acl_inv lib ap"
  shows "e = ArithOverflow"
proof (cases "dm_get (ap_rule_cache ap) (from_packet_info p ct)")
  case None
  with run inv show ?thesis
    by (auto simp: process_packet_def split: option.splits intro: process_rules_panic)
next
  case (Some cached)
  let ?e = "cached\<lparr>ce_last_access := now\<rparr>"
  let ?ap0 = "ap\<lparr>ap_rule_cache := dm_insert (from_packet_info p ct) ?e (ap_rule_cache ap)\<rparr>"
  have ext: "extends ap ?ap0"
    by (simp add: extends_def rules_of_def default_action_of_def fun_eq_iff split: ChainType.split)
  have ok: "entry_ok lib ap (from_packet_info p ct) ?e"
    using inv Some by (auto simp: acl_inv_def entry_ok_def)
  from run Some consider "increment_stat CacheHits ?ap0 = Inl e"
    | ap1 where "increment_stat CacheHits ?ap0 = Inr ap1" "process_packet_with_cache_entry now p ?e ap1 = Inl e"
    by (auto simp: process_packet_def Let_def rbind_Inl_iff)
  then show ?thesis
  proof cases
    case 1
    then show ?thesis by (rule increment_stat_panic)
  next
    case (2 ap1)
    from cached_entry_panic [OF 2(2) keeps_entry [OF increment_stat_keeps [OF 2(1)] extends_entry [OF ext ok]]]
    show ?thesis .
  qed
qed

section \<open>New processors\<close>

lemma stat_okI: "s \<in> fst ` set heap \<Longrightarrow> \<forall>x \<in> set heap. rst_stat (snd x) \<noteq> None \<Longrightarrow> stat_ok heap s"
proof -
  assume s: "s \<in> fst ` set heap" and ok: "\<forall>x \<in> set heap. rst_stat (snd x) \<noteq> None"
  then obtain rs where "dm_get heap s = Some rs" using dm_get_None_iff [of heap s] by auto
  with ok dm_get_SomeD [OF this] show ?thesis by (force simp: stat_ok_def)
qed

lemma allocated_stats_some: "x \<in> set (allocated_stats n cs) \<Longrightarrow> rst_stat (snd x) \<noteq> None"
  by (induction n cs rule: allocated_stats.induct) (auto simp: Let_def fresh_stats_def split: if_splits)

lemma chain_rules_refs:
  "fr_rule_stats ` set (chain_rules lib n chain) = (\<lambda>i. n + i) ` {0..<length (filter ru_enabled (ch_rules chain))}"
  "length (chain_rules lib n chain) = length (filter ru_enabled (ch_rules chain))"
proof -
  have "fr_rule_stats ` set (chain_rules lib n chain) =
      (\<lambda>x. n + fst x) ` set (enumerate 0 (filter ru_enabled (ch_rules chain)))"
    by (simp add: chain_rules_def sort_by_priority_def image_image Let_def convert_to_fast_lookup_rule_def split_beta)
  also have "\<dots> = (\<lambda>i. n + i) ` set (map fst (enumerate 0 (filter ru_enabled (ch_rules chain))))"
    by (simp only: set_map image_image)
  finally show "fr_rule_stats ` set (chain_rules lib n chain) =
      (\<lambda>i. n + i) ` {0..<length (filter ru_enabled (ch_rules chain))}" by simp
  show "length (chain_rules lib n chain) = length (filter ru_enabled (ch_rules chain))"
    by (simp add: chain_rules_def sort_by_priority_def Let_def)
qed

lemma allocated_stats_keys:
  "ch_enabled chain \<Longrightarrow> fst ` set (allocated_stats n (chain # cs)) =
     fr_rule_stats ` set (chain_rules lib n chain) \<union>
     fst ` set (allocated_stats (n + length (chain_rules lib n chain)) cs)"
proof -
  assume en: "ch_enabled chain"
  let ?rs = "filter ru_enabled (ch_rules chain)"
  have "fst ` (\<lambda>(i, r). (n + i, fresh_stats (Some r))) ` set (enumerate 0 ?rs) =
      (\<lambda>i. n + i) ` set (map fst (enumerate 0 ?rs))"
    by (simp only: image_image set_map split_beta fst_conv)
  with en show ?thesis by (simp add: image_Un chain_rules_refs Let_def)
qed

lemma build_rules_refs:
  "build_rules_loop lib n cs (i, ou, f) = (i', ou', f') \<Longrightarrow>
     fr_rule_stats ` (set i' \<union> set ou' \<union> set f') \<subseteq>
       fr_rule_stats ` (set i \<union> set ou \<union> set f) \<union> fst ` set (allocated_stats n cs)"
proof (induction cs arbitrary: n i ou f)
  case Nil
  then show ?case by simp
next
  case (Cons chain cs)
  show ?case
  proof (cases "ch_enabled chain")
    case False
    with Cons show ?thesis by auto
  next
    case True
    let ?rules = "chain_rules lib n chain"
    obtain i1 o1 f1 where acc: "(case chain_type_of (ch_chain_type chain) of
                 Inbound \<Rightarrow> (i @ ?rules, ou, f) | Outbound \<Rightarrow> (i, ou @ ?rules, f)
               | Forward \<Rightarrow> (i, ou, f @ ?rules) | UnspecifiedChain \<Rightarrow> (i, ou, f)) = (i1, o1, f1)"
      by (metis prod_cases3)
    then have "set i1 \<union> set o1 \<union> set f1 \<subseteq> set i \<union> set ou \<union> set f \<union> set ?rules"
      by (auto split: ChainType.splits)
    moreover from Cons.prems True acc have "build_rules_loop lib (n + length ?rules) cs (i1, o1, f1) = (i', ou', f')"
      by (simp add: Let_def)
    note Cons.IH [OF this]
    ultimately show ?thesis unfolding allocated_stats_keys [OF True, of n cs lib] by blast
  qed
qed

lemma acl_inv_new: "acl_inv lib (new_with_shared_state lib cfg a b c)"
proof -
  obtain i ou f where rules: "build_rules lib cfg = (i, ou, f)" by (metis prod_cases3)
  obtain x y z where acts: "build_default_actions cfg = (x, y, z)" by (metis prod_cases3)
  let ?cs = "case acl_v1 cfg of Some v1 \<Rightarrow> av_chains v1 | None \<Rightarrow> []"
  let ?heap = "(0, fresh_stats None) # allocated_stats 1 ?cs"
  have loop: "build_rules_loop lib 1 ?cs ([], [], []) = (i, ou, f)"
    using rules by (cases "acl_v1 cfg") (simp_all add: build_rules_def)
  have some: "\<forall>x \<in> set ?heap. rst_stat (snd x) \<noteq> None"
    using allocated_stats_some by (auto simp: fresh_stats_def)
  have "stat_ok ?heap (fr_rule_stats r)" if "r \<in> set (i @ ou @ f)" for r
    using build_rules_refs [OF loop] that by (intro stat_okI [OF _ some]) auto
  moreover have "stat_ok ?heap 0" by (rule stat_okI [OF _ some]) simp
  moreover have "(case acl_v1 cfg of Some v1 \<Rightarrow> allocated_stats 1 (av_chains v1) | None \<Rightarrow> []) = allocated_stats 1 ?cs"
    by (simp split: option.split)
  ultimately show ?thesis
    by (simp add: acl_inv_def stats_ok_def new_with_shared_state_def rules acts)
qed

section \<open>Every reachable processor\<close>

text \<open>
  What happens to the processor of a filter: packets, counter updates by the filter, the two cleanup tasks, the refill tasks of the
  rate limiters, and a reload that keeps the shared state.
\<close>

inductive acl_step :: "('c4, 'c6) CidrLib \<Rightarrow> ('c4, 'c6) AclProcessor \<Rightarrow> ('c4, 'c6) AclProcessor \<Rightarrow> bool" for lib where
  step_packet: "well_ported p \<Longrightarrow> process_packet lib now p ct ap = Inr (ap', r) \<Longrightarrow> acl_step lib ap ap'"
| step_stat: "increment_stat key ap = Inr ap' \<Longrightarrow> acl_step lib ap ap'"
| step_cache_cleanup: "acl_step lib ap (run_cache_cleanup ap)"
| step_conn_cleanup: "run_connection_cleanup now ap = Inr ap' \<Longrightarrow> acl_step lib ap ap'"
| step_refill: "dm_get (ap_rate_limiters ap) key = Some b \<Longrightarrow>
    acl_step lib ap (ap\<lparr>ap_rate_limiters := dm_insert key (refill t b) (ap_rate_limiters ap)\<rparr>)"
| step_reload: "get_shared_state ap = (conn_track, rate_limiters, stats) \<Longrightarrow>
    acl_step lib ap (new_with_shared_state lib cfg (Some conn_track) (Some rate_limiters) (Some stats))"

lemma acl_inv_step: "acl_step lib ap ap' \<Longrightarrow> acl_inv lib ap \<Longrightarrow> acl_inv lib ap'"
proof (induction rule: acl_step.induct)
  case (step_packet p now ct ap ap' r)
  then show ?case using process_packet_decides by blast
next
  case (step_stat key ap ap')
  then show ?case by (blast intro: keeps_inv increment_stat_keeps)
next
  case (step_cache_cleanup ap)
  have ext: "extends ap (run_cache_cleanup ap)"
    by (simp add: run_cache_cleanup_def extends_def rules_of_def default_action_of_def fun_eq_iff split: ChainType.split)
  have "entry_ok lib ap k w" if "dm_get (ap_rule_cache (run_cache_cleanup ap)) k = Some w" for k w
    using step_cache_cleanup acl_cache.evict_keeps [of ap "entry_ok lib ap", OF _ that] by (auto simp: acl_inv_def)
  with step_cache_cleanup extends_entry [OF ext] extends_stats [OF ext] show ?case by (auto simp: acl_inv_def)
next
  case (step_conn_cleanup now ap ap')
  then have "keeps ap ap'" by (auto simp: run_connection_cleanup_def rust_Inr)
  then show ?case using step_conn_cleanup(2) by (rule keeps_inv)
next
  case (step_refill ap key b t)
  have "keeps ap (ap\<lparr>ap_rate_limiters := dm_insert key (refill t b) (ap_rate_limiters ap)\<rparr>)"
    by (auto simp: keeps_def extends_def rules_of_def default_action_of_def fun_eq_iff split: ChainType.splits)
  then show ?case using step_refill(2) by (rule keeps_inv)
next
  case (step_reload ap conn_track rate_limiters stats cfg)
  show ?case by (rule acl_inv_new)
qed

lemma acl_inv_reachable: "(acl_step lib)\<^sup>*\<^sup>* ap ap' \<Longrightarrow> acl_inv lib ap \<Longrightarrow> acl_inv lib ap'"
  by (induction rule: rtranclp_induct) (auto intro: acl_inv_step)

text \<open>
  C30. The cache is transparent. In every state a processor can reach, through packets, cleanups, refills and
  reloads, a packet whose ports are present exactly for TCP and UDP gets the result of the first
  enabled rule that matches it, or the default, or it is dropped by the rate limit of that rule; and the only panic is
  the overflow of a counter, never a missing rate limiter, counter object or cached result.
\<close>

theorem acl_cache_transparent:
  assumes "(acl_step lib)\<^sup>*\<^sup>* (acl_processor_new lib cfg) ap" and "well_ported p"
  shows "case process_packet lib now p ct ap of
      Inr (ap', r) \<Rightarrow> r = acl_decide lib ap p ct \<or>
        rate_limited lib ap p ct \<and> ar_action r = Drop \<and> ar_log_context r = Some RateLimitDrop
    | Inl e \<Rightarrow> e = ArithOverflow"
proof -
  have inv: "acl_inv lib ap"
    using acl_inv_reachable [OF assms(1)] by (simp add: acl_processor_new_def acl_inv_new)
  show ?thesis
  proof (cases "process_packet lib now p ct ap")
    case (Inl e)
    then show ?thesis using process_packet_panic [OF Inl inv] by simp
  next
    case (Inr x)
    then show ?thesis using process_packet_decides [OF _ inv assms(2)] by (cases x) (simp add: decided_def)
  qed
qed

definition example_lib :: "(unit, unit) CidrLib" where
  "example_lib = \<lparr>cl_from_str = (\<lambda>_. None), cl_contains4 = (\<lambda>_ _. False), cl_contains6 = (\<lambda>_ _. False)\<rparr>"

definition example_rule :: Rule where
  "example_rule = whitelist_rule ''web'' [] Tcp False 10 [''80'']"

definition example_acl :: Acl where
  "example_acl = \<lparr>acl_v1 = Some \<lparr>av_chains = [whitelist_chain [example_rule]], av_group = None\<rparr>\<rparr>"

definition example_packet :: PacketInfo where
  "example_packet = \<lparr>pi_src_ip = V4 1, pi_dst_ip = V4 2, pi_src_port = Some 5000, pi_dst_port = Some 80,
     pi_protocol = Tcp, pi_packet_size = 60, pi_src_groups = [], pi_dst_groups = []\<rparr>"

lemma example_ports: "parse_port_range ''80'' = Some (80, 80)"
  by (simp add: parse_port_range_def split_once_def trim_def is_whitespace_def parse_u16_def parse_unsigned_def
      digit_value_def Let_def)

lemma example_rules:
  "build_rules example_lib example_acl = ([convert_to_fast_lookup_rule example_lib 1 example_rule], [], [])"
  by (simp add: build_rules_def example_acl_def whitelist_chain_def chain_type_of_def from_code_def chain_type_code_def
      chain_rules_def example_rule_def whitelist_rule_def sort_by_priority_def Let_def)

lemma example_defaults: "build_default_actions example_acl = (Drop, Allow, Allow)"
  by (simp add: build_default_actions_def default_action_for_def example_acl_def whitelist_chain_def chain_type_code_def
      action_of_def from_code_def action_code_def)

lemma example_chains: "acl_v1 example_acl = Some \<lparr>av_chains = [whitelist_chain [example_rule]], av_group = None\<rparr>"
  by (simp add: example_acl_def)

lemma example_compiled:
  "convert_to_fast_lookup_rule example_lib 1 example_rule =
     \<lparr>fr_priority = 10, fr_protocol = Tcp, fr_src_ip_ranges = [], fr_dst_ip_ranges = [], fr_src_port_ranges = [],
      fr_dst_port_ranges = [(80, 80)], fr_source_groups = [], fr_destination_groups = [], fr_action = Allow,
      fr_enabled = True, fr_stateful = False, fr_rate_limit = 0, fr_burst_limit = 0, fr_rule_stats = 1\<rparr>"
  by (simp add: convert_to_fast_lookup_rule_def example_rule_def whitelist_rule_def protocol_of_def from_code_def
      protocol_code_def map_filter_def example_ports action_of_def action_code_def)

lemma example_new:
  "acl_processor_new example_lib example_acl =
     \<lparr>ap_inbound_rules = [convert_to_fast_lookup_rule example_lib 1 example_rule], ap_outbound_rules = [],
      ap_forward_rules = [], ap_default_inbound_action = Drop, ap_default_outbound_action = Allow,
      ap_default_forward_action = Allow, ap_default_rule_stats = 0,
      ap_rule_stats = [(0, fresh_stats None), (1, fresh_stats (Some example_rule))], ap_conn_track = [],
      ap_rate_limiters = [], ap_rule_cache = [], ap_cache_max_size = 10000, ap_stats = []\<rparr>"
  by (simp add: acl_processor_new_def new_with_shared_state_def example_rules example_defaults example_chains
      whitelist_chain_def) (simp add: example_rule_def whitelist_rule_def)

lemma example_matches: "rule_matches example_lib (convert_to_fast_lookup_rule example_lib 1 example_rule) example_packet"
  by (simp add: example_compiled rule_matches_def example_packet_def port_matches_def del: One_nat_def)

lemmas example_eval = process_packet_def rules_of_def example_matches example_compiled apply_rule_def accept_rule_def Let_def
  rule_cache_entry_def new_cache_entry_def increment_stat_def inc_cache_entry_stats_def dm_get_def dm_insert_def
  fresh_stats_def checked_add_def cache_result_def process_packet_with_cache_entry_def

lemma example_run:
  "\<exists>ap r. process_packet example_lib 7 example_packet Inbound (acl_processor_new example_lib example_acl) = Inr (ap, r) \<and>
     ap_rule_cache ap \<noteq> [] \<and> (\<exists>ap' r'. process_packet example_lib 8 example_packet Inbound ap = Inr (ap', r'))"
  by (simp add: example_new example_eval example_matches [unfolded example_compiled] del: One_nat_def)
    (simp add: example_packet_def)

text \<open>The second packet of a flow is answered from the cache.\<close>

theorem acl_cache_transparent_witness:
  "\<exists>ap ap' r'. (acl_step example_lib)\<^sup>*\<^sup>* (acl_processor_new example_lib example_acl) ap \<and> ap_rule_cache ap \<noteq> [] \<and>
     process_packet example_lib 8 example_packet Inbound ap = Inr (ap', r') \<and>
     (r' = acl_decide example_lib ap example_packet Inbound \<or> ar_log_context r' = Some RateLimitDrop)"
proof -
  have wp: "well_ported example_packet" by (simp add: well_ported_def example_packet_def)
  obtain ap r ap' r' where
    1: "process_packet example_lib 7 example_packet Inbound (acl_processor_new example_lib example_acl) = Inr (ap, r)"
      "ap_rule_cache ap \<noteq> []" and 2: "process_packet example_lib 8 example_packet Inbound ap = Inr (ap', r')"
    using example_run by blast
  have reach: "(acl_step example_lib)\<^sup>*\<^sup>* (acl_processor_new example_lib example_acl) ap"
    using step_packet [OF wp 1(1)] by (rule r_into_rtranclp)
  have "r' = acl_decide example_lib ap example_packet Inbound \<or> ar_log_context r' = Some RateLimitDrop"
    using acl_cache_transparent [where now = 8 and ct = Inbound, OF reach wp] 2 by auto
  with reach 1(2) 2 show ?thesis by (intro exI conjI)
qed

end
