(* ===== verification/AclPolicy.thy ===== *)
theory AclPolicy
  imports AclDecision
begin

text \<open>
  What a configuration means once it is compiled: which of several matching rules decides, what a port
  whitelist adds to an existing configuration, what becomes of criteria that do not parse, and how packets are counted.
\<close>

section \<open>Priority\<close>

lemma first_match_sorted:
  assumes "sorted (map (\<lambda>r. - int (unat (fr_priority r))) rules)" and "first_match lib rules p = Some r"
    and "r' \<in> set rules" and "fr_enabled r' \<and> rule_matches lib r' p"
  shows "fr_priority r' \<le> fr_priority r"
  using assms
proof (induction rules)
  case (Cons x rules)
  show ?case
  proof (cases "fr_enabled x \<and> rule_matches lib x p")
    case True
    with Cons.prems(2) have "r = x" by (simp add: first_match_def)
    with Cons.prems(1,3) show ?thesis by (auto simp: word_le_def)
  next
    case False
    with Cons.prems show ?thesis by (intro Cons.IH) (auto simp: first_match_def)
  qed
qed (simp add: first_match_def)

text \<open>
  C31. Priority. Of the enabled rules of a chain that match a packet, the one that decides has the highest priority.
\<close>

theorem highest_priority_rule_decides:
  assumes "first_match lib (chain_rules lib n chain) p = Some r"
    and "r' \<in> set (chain_rules lib n chain)" and "rule_matches lib r' p"
  shows "fr_priority r' \<le> fr_priority r"
proof (rule first_match_sorted [OF _ assms(1,2)])
  show "sorted (map (\<lambda>r. - int (unat (fr_priority r))) (chain_rules lib n chain))"
    by (simp add: chain_rules_def sort_by_priority_def Let_def)
  have "fr_enabled r'"
    using assms(2) nth_mem
    by (fastforce simp: chain_rules_def sort_by_priority_def Let_def convert_to_fast_lookup_rule_def
        in_set_enumerate_eq)
  with assms(3) show "fr_enabled r' \<and> rule_matches lib r' p" by simp
qed

definition example_low :: Rule where
  "example_low = whitelist_rule ''low'' [] Tcp False 5 []"

definition example_chain :: Chain where
  "example_chain = whitelist_chain [example_low, example_rule]"

lemma example_low_matches: "rule_matches example_lib (convert_to_fast_lookup_rule example_lib k example_low) example_packet"
  by (simp add: rule_matches_def convert_to_fast_lookup_rule_def example_low_def whitelist_rule_def example_packet_def
      protocol_of_def from_code_def protocol_code_def map_filter_def port_matches_def)

theorem highest_priority_rule_decides_witness:
  "\<exists>r. first_match example_lib (chain_rules example_lib 1 example_chain) example_packet = Some r \<and>
     fr_priority (convert_to_fast_lookup_rule example_lib 1 example_low) \<le> fr_priority r"
proof -
  let ?low = "convert_to_fast_lookup_rule example_lib 1 example_low"
  have low: "?low \<in> set (chain_rules example_lib 1 example_chain)"
    by (simp add: chain_rules_def sort_by_priority_def example_chain_def whitelist_chain_def example_low_def
        example_rule_def whitelist_rule_def Let_def del: One_nat_def)
  have "fr_enabled ?low" by (simp add: convert_to_fast_lookup_rule_def example_low_def whitelist_rule_def)
  with low example_low_matches [of 1] obtain r
    where r: "first_match example_lib (chain_rules example_lib 1 example_chain) example_packet = Some r"
    by (cases "first_match example_lib (chain_rules example_lib 1 example_chain) example_packet")
      (auto simp: first_match_def find_None_iff)
  with highest_priority_rule_decides [OF r low example_low_matches] show ?thesis by blast
qed

section \<open>Whitelists\<close>

lemma find_append_None: "find P xs = None \<Longrightarrow> find P (xs @ ys) = find P ys"
  by (induction xs) (auto split: if_splits)

lemma find_append_Some: "find P xs = Some x \<Longrightarrow> find P (xs @ ys) = Some x"
  by (induction xs) (auto split: if_splits)

definition inbound_chain_of :: "Acl option \<Rightarrow> Chain option" where
  "inbound_chain_of acl =
     Option.bind (Option.bind acl acl_v1) (\<lambda>v1. find (\<lambda>c. ch_chain_type c = chain_type_code Inbound) (av_chains v1))"

lemma push_chain_default:
  "default_action_for (push_chain (whitelist_chain rules) acl) Inbound =
     (case inbound_chain_of acl of Some c \<Rightarrow> action_of (ch_default_action c) | None \<Rightarrow> Drop)"
proof (cases "Option.bind acl acl_v1")
  case None
  then show ?thesis
    by (simp add: default_action_for_def push_chain_def inbound_chain_of_def whitelist_chain_def action_of_def
        from_code_def action_code_def)
next
  case (Some v1)
  then show ?thesis
    by (cases "find (\<lambda>c. ch_chain_type c = chain_type_code Inbound) (av_chains v1)")
      (simp_all add: default_action_for_def push_chain_def inbound_chain_of_def find_append_None find_append_Some
        whitelist_chain_def action_of_def from_code_def action_code_def)
qed

lemma generate_acl_pushes:
  assumes "generate_acl_from_whitelists b = Inr (Inr b')" and "rb_tcp_whitelist b \<noteq> [] \<or> rb_udp_whitelist b \<noteq> []"
  shows "\<exists>rules. rb_acl b' = Some (push_chain (whitelist_chain rules) (rb_acl b))"
  using assms unfolding generate_acl_from_whitelists_def Let_def
  by (cases "parse_port_list (rb_tcp_whitelist b)"; cases "parse_port_list (rb_udp_whitelist b)")
    (auto simp: rust_Inr split: if_splits)

text \<open>
  C32. A whitelist does not deny by default. Building a configuration with a non-empty whitelist, a packet
  that no inbound rule matches is dropped only if the user's configuration has no inbound chain; if it has one, its
  default action decides, although the generated chain asks for a default of Drop.
\<close>

theorem whitelist_default_action:
  assumes "build_acl acl tcp udp = Inr (Inr (Some acl'))" and "tcp \<noteq> [] \<or> udp \<noteq> []"
    and "first_match lib (ap_inbound_rules (acl_processor_new lib acl')) p = None"
  shows "ar_action (acl_decide lib (acl_processor_new lib acl') p Inbound) =
    (case inbound_chain_of acl of Some c \<Rightarrow> action_of (ch_default_action c) | None \<Rightarrow> Drop)"
proof -
  let ?b = "\<lparr>rb_acl = acl, rb_tcp_whitelist = tcp, rb_udp_whitelist = udp, rb_whitelist_priority = None\<rparr>"
  from assms(1) obtain b' where "generate_acl_from_whitelists ?b = Inr (Inr b')" "rb_acl b' = Some acl'"
  proof -
    from assms(1) obtain res where "generate_acl_from_whitelists ?b = Inr res"
      and "(case res of Inl e \<Rightarrow> Inl e | Inr b' \<Rightarrow> Inr (rb_acl b')) = Inr (Some acl')"
      unfolding build_acl_def do_build_def rmap_Inr_iff by metis
    then show ?thesis using that by (cases res) auto
  qed
  with generate_acl_pushes [of ?b b'] assms(2) obtain rules where acl': "acl' = push_chain (whitelist_chain rules) acl"
    by auto
  have "ap_default_inbound_action (acl_processor_new lib acl') = default_action_for acl' Inbound"
    by (simp add: acl_processor_new_def new_with_shared_state_def build_default_actions_def split_beta)
  with assms(3) show ?thesis
    by (simp add: acl_decide_def rules_of_def default_action_of_def default_result_def acl' push_chain_default)
qed

definition example_open :: Acl where
  "example_open = \<lparr>acl_v1 = Some \<lparr>av_chains = [(whitelist_chain [])\<lparr>ch_default_action := action_code Allow\<rparr>], av_group = None\<rparr>\<rparr>"

definition example_ssh :: PacketInfo where
  "example_ssh = example_packet\<lparr>pi_dst_port := Some 22\<rparr>"

lemma example_show: "show_nat 80 = ''80''"
  by code_simp

lemma example_spec: "parse_port_list [''80''] = Inr [''80'']"
  by (simp add: parse_port_spec_def parse_u16_def parse_unsigned_def digit_value_def Let_def example_show)

lemma example_whitelisted:
  "build_acl (Some example_open) [''80''] [] = Inr (Inr (Some (push_chain (whitelist_chain
     [whitelist_rule ''tcp_whitelist'' ''Auto-generated TCP whitelist rule'' Tcp True 1000 [''80'']]) (Some example_open))))"
  by (simp add: build_acl_def do_build_def generate_acl_from_whitelists_def example_spec checked_pred_def Let_def
      del: parse_port_list.simps)

lemma example_whitelisted_rules:
  "ap_inbound_rules (acl_processor_new example_lib (push_chain (whitelist_chain
     [whitelist_rule ''tcp_whitelist'' ''Auto-generated TCP whitelist rule'' Tcp True 1000 [''80'']]) (Some example_open))) =
   [convert_to_fast_lookup_rule example_lib 1
      (whitelist_rule ''tcp_whitelist'' ''Auto-generated TCP whitelist rule'' Tcp True 1000 [''80''])]"
  by (simp add: acl_processor_new_def new_with_shared_state_def build_rules_def push_chain_def example_open_def
      whitelist_chain_def whitelist_rule_def chain_rules_def chain_type_of_def from_code_def chain_type_code_def
      sort_by_priority_def split_beta Let_def)

theorem whitelist_default_action_witness:
  "\<exists>acl'. build_acl (Some example_open) [''80''] [] = Inr (Inr (Some acl')) \<and>
     ar_action (acl_decide example_lib (acl_processor_new example_lib acl') example_ssh Inbound) = Allow"
proof -
  have "first_match example_lib [convert_to_fast_lookup_rule example_lib 1
      (whitelist_rule ''tcp_whitelist'' ''Auto-generated TCP whitelist rule'' Tcp True 1000 [''80''])] example_ssh = None"
    by (simp add: first_match_def convert_to_fast_lookup_rule_def whitelist_rule_def rule_matches_def map_filter_def
        example_ports port_matches_def example_ssh_def example_packet_def)
  from whitelist_default_action [OF example_whitelisted _ this [folded example_whitelisted_rules]] example_whitelisted
  show ?thesis
    by (auto simp: inbound_chain_of_def example_open_def whitelist_chain_def action_of_def from_code_def action_code_def)
qed

section \<open>Port specifications\<close>

text \<open>The range a whitelist entry stands for.\<close>

definition denotes :: "string \<Rightarrow> u16 \<times> u16 \<Rightarrow> bool" where
  "denotes spec r \<longleftrightarrow>
     (if CHR ''-'' \<in> set spec
      then \<exists>a b. split_at CHR ''-'' spec = [a, b] \<and> parse_u16 a = Some (fst r) \<and> parse_u16 b = Some (snd r)
      else parse_u16 spec = Some (fst r) \<and> fst r = snd r)"

lemma parse_digits_chars: "parse_digits bound acc s = Some n \<Longrightarrow> c \<in> set s \<Longrightarrow> digit_value c \<noteq> None"
  by (induction bound acc s rule: parse_digits.induct) (auto split: option.splits if_splits)

lemma digit_or_sign_not_whitespace: "digit_value c \<noteq> None \<or> c = CHR ''+'' \<Longrightarrow> \<not> is_whitespace c"
  by (auto simp: digit_value_def is_whitespace_def Let_def split: if_splits)

lemma parse_u16_trim: "parse_u16 s = Some n \<Longrightarrow> trim s = s"
proof (rule trim_id)
  assume "parse_u16 s = Some n"
  then obtain k where k: "parse_unsigned 65536 s = Some k" by (auto simp: parse_u16_def)
  show "\<forall>c \<in> set s. \<not> is_whitespace c"
  proof
    fix c
    assume c: "c \<in> set s"
    then obtain d ds where s: "s = d # ds" by (cases s) auto
    from k have "parse_digits 65536 0 (if d = CHR ''+'' then ds else s) = Some k"
      by (simp add: parse_unsigned_def s Let_def split: if_splits)
    with c s have "digit_value c \<noteq> None \<or> c = CHR ''+''"
      using parse_digits_chars [of 65536 0 "if d = CHR ''+'' then ds else s" k c] by (auto split: if_splits)
    then show "\<not> is_whitespace c" by (rule digit_or_sign_not_whitespace)
  qed
qed

lemma parse_port_range_show: "parse_port_range (show_nat (unat p)) = Some (p, p)"
  using show_nat_no_sign(2) [of "unat p"] by (simp add: parse_port_range_def split_once_def parse_u16_show)

lemma parse_port_spec_range:
  assumes "parse_port_spec spec = Inr out"
  shows "\<exists>a b. parse_port_range out = Some (a, b) \<and> a \<le> b \<and> denotes spec (a, b)"
proof (cases "CHR ''-'' \<in> set spec")
  case False
  with assms obtain port where "parse_u16 spec = Some port" "out = show_nat (unat port)"
    by (auto simp: parse_port_spec_def split: option.splits)
  with False show ?thesis by (simp add: parse_port_range_show denotes_def)
next
  case True
  with assms obtain x y a b where split: "split_at CHR ''-'' spec = [x, y]" and ab: "parse_u16 x = Some a" "parse_u16 y = Some b"
    and le: "\<not> a > b" and out: "out = spec"
    by (auto simp: parse_port_spec_def split: list.splits option.splits if_splits)
  from split_at_two [OF split] have spec: "spec = x @ CHR ''-'' # y" "CHR ''-'' \<notin> set x" by auto
  have "parse_port_range out = Some (a, b)"
    using ab by (simp add: parse_port_range_def out spec split_once_append parse_u16_trim)
  with le True split ab show ?thesis by (simp add: denotes_def not_less)
qed

text \<open>
  C33. Accepted port specifications are understood. Every entry of an accepted whitelist is passed on as a string that the rule
  compiler reads as a non-empty port range, the one its specification denotes; none is lost.
\<close>

theorem accepted_port_specs_compile:
  assumes "parse_port_list specs = Inr ports"
  shows "list_all2 (\<lambda>spec port. \<exists>a b. parse_port_range port = Some (a, b) \<and> a \<le> b \<and> denotes spec (a, b)) specs ports"
  using assms
proof (induction specs arbitrary: ports)
  case (Cons spec specs)
  then obtain p ps where "parse_port_spec spec = Inr p" "parse_port_list specs = Inr ps" "ports = p # ps"
    by (auto split: sum.splits)
  with Cons.IH [of ps] parse_port_spec_range show ?case by auto
qed simp

theorem accepted_port_specs_compile_witness:
  "list_all2 (\<lambda>spec port. \<exists>a b. parse_port_range port = Some (a, b) \<and> a \<le> b \<and> denotes spec (a, b)) [''80''] [''80'']"
  by (rule accepted_port_specs_compile) (rule example_spec)

section \<open>Criteria that do not parse\<close>

text \<open>
  A criterion none of whose entries parse is dropped. A rule whose source addresses, destination addresses or ports all fail
  to parse matches exactly the packets it would match without that criterion: the rule gets wider, not narrower.
\<close>

theorem unparsable_criteria_are_dropped:
  assumes "\<forall>s \<in> set (ru_source_ips rule). cl_from_str lib s = None"
    and "\<forall>s \<in> set (ru_destination_ips rule). cl_from_str lib s = None"
    and "\<forall>s \<in> set (ru_ports rule). parse_port_range s = None"
  shows "rule_matches lib (convert_to_fast_lookup_rule lib n rule) p =
    rule_matches lib (convert_to_fast_lookup_rule lib n
      (rule\<lparr>ru_source_ips := [], ru_destination_ips := [], ru_ports := []\<rparr>)) p"
proof -
  have drop: "List.map_filter f xs = []" if "\<forall>x \<in> set xs. f x = None" for f :: "string \<Rightarrow> 'x option" and xs
    using that by (auto simp: map_filter_def filter_empty_conv)
  have [simp]: "List.map_filter f [] = []" for f :: "string \<Rightarrow> 'x option" by (simp add: map_filter_def)
  show ?thesis
    by (simp add: convert_to_fast_lookup_rule_def rule_matches_def drop [OF assms(1)] drop [OF assms(2)] drop [OF assms(3)])
qed

definition example_typo :: Rule where
  "example_typo = example_rule\<lparr>ru_source_ips := [''10.0.0.0/33''], ru_ports := []\<rparr>"

theorem unparsable_criteria_are_dropped_witness:
  "rule_matches example_lib (convert_to_fast_lookup_rule example_lib 1 example_typo) example_packet"
proof -
  have "rule_matches example_lib (convert_to_fast_lookup_rule example_lib 1 example_typo) example_packet =
      rule_matches example_lib (convert_to_fast_lookup_rule example_lib 1
        (example_typo\<lparr>ru_source_ips := [], ru_destination_ips := [], ru_ports := []\<rparr>)) example_packet"
    by (rule unparsable_criteria_are_dropped)
      (simp_all add: example_lib_def example_typo_def example_rule_def whitelist_rule_def)
  also have "\<dots>"
    by (simp add: rule_matches_def convert_to_fast_lookup_rule_def example_typo_def example_rule_def whitelist_rule_def
        example_packet_def protocol_of_def from_code_def protocol_code_def map_filter_def port_matches_def)
  finally show ?thesis .
qed

section \<open>Counting\<close>

lemma checked_add_Inr: "checked_add a b = Inr c \<Longrightarrow> c = a + b"
  by (simp add: checked_add_def split: if_splits)

text \<open>
  Rate-limited packets are counted twice. When a rule with a rate limit lets a packet pass, the packet and byte counters of
  the rule advance by two packets and twice its size.
\<close>

theorem rate_limited_packets_counted_twice:
  assumes "accept_rule now ct p rule ap = Inr (ap', r)" and "fr_rate_limit rule > 0"
    and "dm_get (ap_rule_stats ap) (fr_rule_stats rule) = Some rs" and "rst_stat rs = Some item"
  shows "\<exists>rs' item'. dm_get (ap_rule_stats ap') (fr_rule_stats rule) = Some rs' \<and> rst_stat rs' = Some item' \<and>
    si_packet_count item' = si_packet_count item + 2 \<and>
    si_byte_count item' = si_byte_count item + 2 * of_nat (pi_packet_size p)"
proof -
  let ?e = "rule_cache_entry now ct p rule"
  from assms(1) obtain ap1 ap2 ap3 where
    1: "(case ce_conn_track_key ?e of Some key \<Rightarrow> check_connection_state now key p ap | None \<Rightarrow> Inr ap) = Inr ap1"
    and 2: "increment_stat RuleMatches ap1 = Inr ap2" and 3: "inc_cache_entry_stats ?e p ap2 = Inr ap3"
    and 4: "ap' = cache_result (from_packet_info p ct) ?e ap3"
    unfolding accept_rule_def Let_def rust_Inr by blast
  have "ap_rule_stats ap1 = ap_rule_stats ap"
    using 1 by (cases "ce_conn_track_key ?e") (auto simp: check_connection_state_def rust_Inr split: option.splits)
  with 2 have heap: "ap_rule_stats ap2 = ap_rule_stats ap"
    by (auto simp: increment_stat_def rust_Inr split: option.splits)
  have refs: "ce_rule_stats_vec ?e = [fr_rule_stats rule, fr_rule_stats rule]"
    using assms(2) by (simp add: rule_cache_entry_def Let_def)
  have "ap_rule_stats ap' = ap_rule_stats ap3" by (simp add: 4 cache_result_def Let_def)
  with 3 assms(3,4) show ?thesis
    by (auto simp: inc_cache_entry_stats_def rust_Inr refs heap dest!: checked_add_Inr)
qed

definition example_limited :: "(unit, unit) FastLookupRule" where
  "example_limited = (convert_to_fast_lookup_rule example_lib 1 example_rule)\<lparr>fr_rate_limit := 1000, fr_burst_limit := 5\<rparr>"

lemma example_accept:
  "\<exists>ap' r. accept_rule 7 Inbound example_packet example_limited (acl_processor_new example_lib example_acl) = Inr (ap', r)"
  by (simp add: example_new example_eval example_limited_def del: One_nat_def) (simp add: example_packet_def)

theorem rate_limited_packets_counted_twice_witness:
  "\<exists>ap' r rs' item'. accept_rule 7 Inbound example_packet example_limited (acl_processor_new example_lib example_acl) = Inr (ap', r) \<and>
     dm_get (ap_rule_stats ap') 1 = Some rs' \<and> rst_stat rs' = Some item' \<and> si_packet_count item' = 2"
proof -
  obtain ap' r where run:
    "accept_rule 7 Inbound example_packet example_limited (acl_processor_new example_lib example_acl) = Inr (ap', r)"
    using example_accept by blast
  have lim: "fr_rate_limit example_limited > 0" and ref: "fr_rule_stats example_limited = 1"
    by (simp_all add: example_limited_def convert_to_fast_lookup_rule_def word_gt_0)
  have rs: "dm_get (ap_rule_stats (acl_processor_new example_lib example_acl)) (fr_rule_stats example_limited) =
      Some (fresh_stats (Some example_rule))"
    by (simp add: example_new ref dm_get_def)
  from rate_limited_packets_counted_twice [OF run lim rs, of "\<lparr>si_packet_count = 0, si_byte_count = 0\<rparr>"] run ref
  show ?thesis by (auto simp: fresh_stats_def)
qed

end
