(* ===== verification/Contract.thy ===== *)
theory Contract
  imports Prelude
begin

text \<open>
  The on-chain network registry (\<open>src/contract/sui_move/peerlink/sources/peerlink.move\<close>): its structs as records, every
  entry function as a function from the registry to an abort or the updated registry with the events it emits, every query as a
  function to an abort or a value. The sender of a transaction and the timestamp of the clock object are arguments.

  A Sui \<open>Table\<close> is a map whose \<open>contains\<close>, \<open>borrow\<close>, \<open>add\<close> and \<open>remove\<close> are lookup, insertion and removal; borrowing a key
  that is absent aborts (\<open>EFieldDoesNotExist\<close>), as does borrowing a vector element out of range. The object ids of the structs,
  which no function reads, are left out. The text form of an address and the hash function are
  arguments, as they belong to the framework.
\<close>

section \<open>Data\<close>

datatype Abort =
    E_NETWORK_NOT_FOUND | E_NETWORK_ALREADY_EXISTS | E_UNAUTHORIZED | E_INVALID_NETWORK_NAME
  | E_NETWORK_EXPIRED | E_PEER_NOT_AUTHORIZED | E_PEER_NOT_FOUND
  | EFieldDoesNotExist | EINDEX_OUT_OF_BOUNDS

type_synonym address = "256 word"

record ExitNodeInfo =
  en_peer_id :: u32
  en_connector_uri_list :: "string list"
  en_hostname :: string
  en_is_active :: bool
  en_registered_at :: u64

record NetworkInfo =
  ni_network_name :: string
  ni_network_secret :: "byte list"
  ni_admin :: address
  ni_created_at :: u64
  ni_is_active :: bool
  ni_description :: string
  ni_max_peers :: u64
  ni_exit_nodes :: "(u32, ExitNodeInfo) dmap"
  ni_exit_node_peer_ids :: "u32 list"

record NetworkSummary =
  ns_network_name :: string
  ns_admin :: string
  ns_created_at :: u64
  ns_description :: string
  ns_max_peers :: u64

record NetworkRegistry =
  nr_networks :: "(string, NetworkInfo) dmap"
  nr_network_names :: "string list"
  nr_global_admin :: address

datatype Event =
    NetworkCreated string address u64
  | NetworkUpdated string address u64

type_synonym tx_result = "Abort + NetworkRegistry \<times> Event list"

section \<open>Entry functions\<close>

definition registry_init :: "address \<Rightarrow> NetworkRegistry" where
  "registry_init sender = \<lparr>nr_networks = [], nr_network_names = [], nr_global_admin = sender\<rparr>"

definition create_network ::
  "address \<Rightarrow> u64 \<Rightarrow> string \<Rightarrow> byte list \<Rightarrow> string \<Rightarrow> u64 \<Rightarrow> NetworkRegistry \<Rightarrow> tx_result" where
  "create_network sender now name secret descr max_peers reg =
     (if name = [] then Inl E_INVALID_NETWORK_NAME
      else if dm_contains (nr_networks reg) name then Inl E_NETWORK_ALREADY_EXISTS
      else let info = \<lparr>ni_network_name = name, ni_network_secret = secret, ni_admin = sender, ni_created_at = now,
                       ni_is_active = True, ni_description = descr, ni_max_peers = max_peers, ni_exit_nodes = [],
                       ni_exit_node_peer_ids = []\<rparr>
           in Inr (reg\<lparr>nr_networks := dm_insert name info (nr_networks reg),
                       nr_network_names := nr_network_names reg @ [name]\<rparr>,
                   [NetworkCreated name sender now]))"

text \<open>The guard and the mutable borrow that open every function of a network's admin.\<close>

definition borrow_as_admin :: "address \<Rightarrow> string \<Rightarrow> NetworkRegistry \<Rightarrow> Abort + NetworkInfo" where
  "borrow_as_admin sender name reg =
     (case dm_get (nr_networks reg) name of
        None \<Rightarrow> Inl E_NETWORK_NOT_FOUND
      | Some info \<Rightarrow> if ni_admin info \<noteq> sender then Inl E_UNAUTHORIZED else Inr info)"

definition store_network :: "string \<Rightarrow> NetworkInfo \<Rightarrow> NetworkRegistry \<Rightarrow> NetworkRegistry" where
  "store_network name info reg = reg\<lparr>nr_networks := dm_insert name info (nr_networks reg)\<rparr>"

definition update_network ::
  "address \<Rightarrow> u64 \<Rightarrow> string \<Rightarrow> byte list \<Rightarrow> string \<Rightarrow> u64 \<Rightarrow> NetworkRegistry \<Rightarrow> tx_result" where
  "update_network sender now name new_secret new_descr new_max_peers reg =
     (case borrow_as_admin sender name reg of
        Inl e \<Rightarrow> Inl e
      | Inr info \<Rightarrow>
          Inr (store_network name (info\<lparr>ni_network_secret := new_secret, ni_description := new_descr,
                                         ni_max_peers := new_max_peers\<rparr>) reg,
               [NetworkUpdated name sender now]))"

definition add_exit_node ::
  "address \<Rightarrow> u64 \<Rightarrow> string \<Rightarrow> u32 \<Rightarrow> string list \<Rightarrow> string \<Rightarrow> NetworkRegistry \<Rightarrow> tx_result" where
  "add_exit_node sender now name peer_id uris hostname reg =
     (case borrow_as_admin sender name reg of
        Inl e \<Rightarrow> Inl e
      | Inr info \<Rightarrow>
          (let node = \<lparr>en_peer_id = peer_id, en_connector_uri_list = uris, en_hostname = hostname,
                       en_is_active = True, en_registered_at = now\<rparr>;
               info' = (if dm_contains (ni_exit_nodes info) peer_id
                        then info\<lparr>ni_exit_nodes := dm_insert peer_id node (ni_exit_nodes info)\<rparr>
                        else info\<lparr>ni_exit_nodes := dm_insert peer_id node (ni_exit_nodes info),
                                  ni_exit_node_peer_ids := ni_exit_node_peer_ids info @ [peer_id]\<rparr>)
           in Inr (store_network name info' reg, [])))"

text \<open>\<open>vector::index_of\<close> and \<open>vector::remove\<close>.\<close>

fun index_of :: "'a list \<Rightarrow> 'a \<Rightarrow> bool \<times> nat" where
  "index_of [] x = (False, 0)"
| "index_of (y # ys) x = (if y = x then (True, 0) else (let (found, i) = index_of ys x in (found, if found then i + 1 else 0)))"

definition remove_at :: "'a list \<Rightarrow> nat \<Rightarrow> Abort + 'a list" where
  "remove_at xs i = (if i < length xs then Inr (take i xs @ drop (i + 1) xs) else Inl EINDEX_OUT_OF_BOUNDS)"

definition remove_peer_id :: "u32 \<Rightarrow> u32 list \<Rightarrow> Abort + u32 list" where
  "remove_peer_id peer_id ids =
     (let (found, index) = index_of ids peer_id in if found then remove_at ids index else Inr ids)"

definition remove_exit_node :: "address \<Rightarrow> string \<Rightarrow> u32 \<Rightarrow> NetworkRegistry \<Rightarrow> tx_result" where
  "remove_exit_node sender name peer_id reg =
     (case borrow_as_admin sender name reg of
        Inl e \<Rightarrow> Inl e
      | Inr info \<Rightarrow>
          if dm_contains (ni_exit_nodes info) peer_id
          then (case remove_peer_id peer_id (ni_exit_node_peer_ids info) of
                  Inl e \<Rightarrow> Inl e
                | Inr ids \<Rightarrow>
                    Inr (store_network name (info\<lparr>ni_exit_nodes := dm_remove peer_id (ni_exit_nodes info),
                                                  ni_exit_node_peer_ids := ids\<rparr>) reg, []))
          else Inr (reg, []))"

definition deactivate_network :: "address \<Rightarrow> string \<Rightarrow> NetworkRegistry \<Rightarrow> tx_result" where
  "deactivate_network sender name reg =
     (case borrow_as_admin sender name reg of
        Inl e \<Rightarrow> Inl e | Inr info \<Rightarrow> Inr (store_network name (info\<lparr>ni_is_active := False\<rparr>) reg, []))"

definition reactivate_network :: "address \<Rightarrow> string \<Rightarrow> NetworkRegistry \<Rightarrow> tx_result" where
  "reactivate_network sender name reg =
     (case borrow_as_admin sender name reg of
        Inl e \<Rightarrow> Inl e | Inr info \<Rightarrow> Inr (store_network name (info\<lparr>ni_is_active := True\<rparr>) reg, []))"

definition update_exit_node_status :: "address \<Rightarrow> string \<Rightarrow> u32 \<Rightarrow> bool \<Rightarrow> NetworkRegistry \<Rightarrow> tx_result" where
  "update_exit_node_status sender name peer_id is_active reg =
     (case dm_get (nr_networks reg) name of
        None \<Rightarrow> Inl E_NETWORK_NOT_FOUND
      | Some info \<Rightarrow>
          (case dm_get (ni_exit_nodes info) peer_id of
             None \<Rightarrow> Inl E_PEER_NOT_FOUND
           | Some node \<Rightarrow>
               Inr (store_network name
                      (info\<lparr>ni_exit_nodes := dm_insert peer_id (node\<lparr>en_is_active := is_active\<rparr>) (ni_exit_nodes info)\<rparr>) reg,
                    [])))"

section \<open>Queries\<close>

text \<open>
  The loop of the listings: an index runs over the vector of keys, each key is borrowed from the table, and what \<open>pick\<close> makes of
  the entry is appended to the result.
\<close>

function collect :: "'k list \<Rightarrow> ('k, 'v) dmap \<Rightarrow> ('v \<Rightarrow> 'b option) \<Rightarrow> nat \<Rightarrow> 'b list \<Rightarrow> Abort + 'b list" where
  "collect keys table pick i result =
     (if i < length keys
      then (case dm_get table (keys ! i) of
              None \<Rightarrow> Inl EFieldDoesNotExist
            | Some v \<Rightarrow>
                collect keys table pick (i + 1) (case pick v of Some x \<Rightarrow> result @ [x] | None \<Rightarrow> result))
      else Inr result)"
  by pat_completeness auto
termination
  by (relation "measure (\<lambda>(keys, table, pick, i, result). length keys - i)") auto

declare collect.simps [simp del]

definition active_exit_nodes :: "NetworkInfo \<Rightarrow> Abort + ExitNodeInfo list" where
  "active_exit_nodes info =
     collect (ni_exit_node_peer_ids info) (ni_exit_nodes info) (\<lambda>n. if en_is_active n then Some n else None) 0 []"

definition get_exit_nodes :: "NetworkRegistry \<Rightarrow> string \<Rightarrow> Abort + ExitNodeInfo list" where
  "get_exit_nodes reg name =
     (case dm_get (nr_networks reg) name of None \<Rightarrow> Inl E_NETWORK_NOT_FOUND | Some info \<Rightarrow> active_exit_nodes info)"

definition random_value :: "byte list \<Rightarrow> nat" where
  "random_value bs =
     (if length bs > 0
      then (let r0 = unat (bs ! 0);
                r1 = (if length bs > 1 then r0 * 256 + unat (bs ! 1) else r0)
            in if length bs > 2 then r1 * 256 + unat (bs ! 2) else r1)
      else 0)"

definition pick_exit_node ::
  "(byte list \<Rightarrow> byte list) \<Rightarrow> byte list \<Rightarrow> NetworkRegistry \<Rightarrow> string \<Rightarrow> Abort + ExitNodeInfo option" where
  "pick_exit_node sha3_256 digest reg name =
     (case dm_get (nr_networks reg) name of
        None \<Rightarrow> Inl E_NETWORK_NOT_FOUND
      | Some info \<Rightarrow>
          (case active_exit_nodes info of
             Inl e \<Rightarrow> Inl e
           | Inr nodes \<Rightarrow>
               if length nodes = 0 then Inr None
               else Inr (Some (nodes ! (random_value (sha3_256 digest) mod length nodes)))))"

definition network_summary :: "(address \<Rightarrow> string) \<Rightarrow> NetworkInfo \<Rightarrow> NetworkSummary" where
  "network_summary to_string info =
     \<lparr>ns_network_name = ni_network_name info, ns_admin = to_string (ni_admin info), ns_created_at = ni_created_at info,
      ns_description = ni_description info, ns_max_peers = ni_max_peers info\<rparr>"

definition get_active_networks :: "(address \<Rightarrow> string) \<Rightarrow> NetworkRegistry \<Rightarrow> Abort + NetworkSummary list" where
  "get_active_networks to_string reg =
     collect (nr_network_names reg) (nr_networks reg)
       (\<lambda>info. if ni_is_active info then Some (network_summary to_string info) else None) 0 []"

definition get_network_info ::
  "NetworkRegistry \<Rightarrow> string \<Rightarrow> Abort + string \<times> address \<times> u64 \<times> bool \<times> string \<times> u64 \<times> nat" where
  "get_network_info reg name =
     (case dm_get (nr_networks reg) name of
        None \<Rightarrow> Inl E_NETWORK_NOT_FOUND
      | Some info \<Rightarrow> Inr (ni_network_name info, ni_admin info, ni_created_at info, ni_is_active info, ni_description info,
                         ni_max_peers info, length (ni_exit_node_peer_ids info)))"

definition get_network_secret :: "NetworkRegistry \<Rightarrow> string \<Rightarrow> Abort + byte list" where
  "get_network_secret reg name =
     (case dm_get (nr_networks reg) name of
        None \<Rightarrow> Inl E_NETWORK_NOT_FOUND
      | Some info \<Rightarrow> if ni_is_active info then Inr (ni_network_secret info) else Inl E_NETWORK_EXPIRED)"

definition get_exit_node_by_peer_id :: "NetworkRegistry \<Rightarrow> string \<Rightarrow> u32 \<Rightarrow> ExitNodeInfo option" where
  "get_exit_node_by_peer_id reg name peer_id =
     (case dm_get (nr_networks reg) name of None \<Rightarrow> None | Some info \<Rightarrow> dm_get (ni_exit_nodes info) peer_id)"

definition get_exit_node_peer_ids :: "NetworkRegistry \<Rightarrow> string \<Rightarrow> Abort + u32 list" where
  "get_exit_node_peer_ids reg name =
     (case dm_get (nr_networks reg) name of
        None \<Rightarrow> Inl E_NETWORK_NOT_FOUND | Some info \<Rightarrow> Inr (ni_exit_node_peer_ids info))"

section \<open>Transactions\<close>

text \<open>A transaction calls one entry function; one that aborts leaves the registry as it was.\<close>

datatype Tx =
    CreateNetwork string "byte list" string u64
  | UpdateNetwork string "byte list" string u64
  | AddExitNode string u32 "string list" string
  | RemoveExitNode string u32
  | DeactivateNetwork string
  | ReactivateNetwork string
  | UpdateExitNodeStatus string u32 bool

fun call :: "address \<Rightarrow> u64 \<Rightarrow> Tx \<Rightarrow> NetworkRegistry \<Rightarrow> tx_result" where
  "call s now (CreateNetwork name secret descr mx) reg = create_network s now name secret descr mx reg"
| "call s now (UpdateNetwork name secret descr mx) reg = update_network s now name secret descr mx reg"
| "call s now (AddExitNode name p uris host) reg = add_exit_node s now name p uris host reg"
| "call s now (RemoveExitNode name p) reg = remove_exit_node s name p reg"
| "call s now (DeactivateNetwork name) reg = deactivate_network s name reg"
| "call s now (ReactivateNetwork name) reg = reactivate_network s name reg"
| "call s now (UpdateExitNodeStatus name p b) reg = update_exit_node_status s name p b reg"

definition transact :: "address \<Rightarrow> u64 \<Rightarrow> Tx \<Rightarrow> NetworkRegistry \<Rightarrow> NetworkRegistry" where
  "transact s now tx reg = (case call s now tx reg of Inl e \<Rightarrow> reg | Inr (reg', events) \<Rightarrow> reg')"

inductive registry_reachable :: "NetworkRegistry \<Rightarrow> bool" where
  reach_init: "registry_reachable (registry_init publisher)"
| reach_tx: "registry_reachable reg \<Longrightarrow> registry_reachable (transact s now tx reg)"

section \<open>A vector of keys beside a table\<close>

text \<open>
  The registry keeps a vector of names beside the table of networks, and a network a vector of peer ids beside its table of exit
  nodes, as a table cannot be iterated. \<open>indexed\<close> is what both rely on: the vector lists every key of the table once.
\<close>

definition indexed :: "'k list \<Rightarrow> ('k, 'v) dmap \<Rightarrow> bool" where
  "indexed keys table \<longleftrightarrow> distinct keys \<and> dm_inv table \<and> (\<forall>k. k \<in> set keys \<longleftrightarrow> dm_get table k \<noteq> None)"

lemma indexed_empty [simp]: "indexed [] []"
  by (simp add: indexed_def)

lemma indexed_add: "indexed keys table \<Longrightarrow> dm_get table k = None \<Longrightarrow> indexed (keys @ [k]) (dm_insert k v table)"
  by (auto simp: indexed_def)

lemma indexed_update: "indexed keys table \<Longrightarrow> dm_get table k \<noteq> None \<Longrightarrow> indexed keys (dm_insert k v table)"
  by (auto simp: indexed_def)

lemma index_of_found: "index_of xs x = (True, i) \<Longrightarrow> i < length xs \<and> xs ! i = x"
  by (induction xs arbitrary: i) (auto split: if_splits prod.splits)

lemma index_of_absent: "index_of xs x = (False, i) \<Longrightarrow> x \<notin> set xs"
  by (induction xs arbitrary: i) (auto split: if_splits prod.splits)

lemma remove_peer_id_removes:
  assumes "distinct ids"
  shows "remove_peer_id p ids = Inr (removeAll p ids)"
proof (cases "index_of ids p")
  case (Pair found i)
  show ?thesis
  proof (cases found)
    case True
    with Pair index_of_found [of ids p i] have i: "i < length ids" "ids ! i = p" by auto
    then have split: "ids = take i ids @ p # drop (Suc i) ids" using id_take_nth_drop by blast
    with assms have "p \<notin> set (take i ids)" "p \<notin> set (drop (Suc i) ids)"
      by (metis distinct_append distinct.simps(2) disjoint_iff list.set_intros(1))+
    then have "removeAll p ids = take i ids @ drop (Suc i) ids"
      by (subst split) (simp add: removeAll_id)
    with True Pair i show ?thesis by (simp add: remove_peer_id_def remove_at_def)
  next
    case False
    with Pair index_of_absent [of ids p i] show ?thesis by (simp add: remove_peer_id_def removeAll_id)
  qed
qed

lemma indexed_remove: "indexed keys table \<Longrightarrow> indexed (removeAll k keys) (dm_remove k table)"
  by (auto simp: indexed_def distinct_removeAll)

lemma collect_from:
  assumes "\<And>k. k \<in> set (drop i keys) \<Longrightarrow> dm_get table k \<noteq> None" and "i \<le> length keys"
  shows "collect keys table pick i result = Inr (result @ List.map_filter (\<lambda>k. Option.bind (dm_get table k) pick) (drop i keys))"
  using assms
proof (induction keys table pick i result rule: collect.induct)
  case (1 keys table pick i result)
  show ?case
  proof (cases "i < length keys")
    case True
    then have drop: "drop i keys = keys ! i # drop (i + 1) keys" by (simp add: Cons_nth_drop_Suc)
    with "1.prems"(1) obtain v where v: "dm_get table (keys ! i) = Some v" by fastforce
    from 1 True v drop show ?thesis
      by (subst collect.simps) (auto simp: map_filter_simps split: option.split)
  next
    case False
    then show ?thesis by (subst collect.simps) (simp add: map_filter_simps)
  qed
qed

lemma collect_indexed:
  "indexed keys table \<Longrightarrow> collect keys table pick 0 [] = Inr (List.map_filter (\<lambda>k. Option.bind (dm_get table k) pick) keys)"
  using collect_from [of 0 keys table pick "[]"] by (simp add: indexed_def)

lemma set_map_filter: "set (List.map_filter f xs) = {y. \<exists>x \<in> set xs. f x = Some y}"
  by (induction xs) (auto simp: map_filter_simps split: option.split)

lemma set_map_filter_indexed:
  "indexed keys table \<Longrightarrow>
     set (List.map_filter (\<lambda>k. Option.bind (dm_get table k) pick) keys) = {x. \<exists>k v. dm_get table k = Some v \<and> pick v = Some x}"
  by (auto simp: indexed_def set_map_filter bind_eq_Some_conv)

section \<open>Well-formed registries\<close>

definition network_ok :: "string \<Rightarrow> NetworkInfo \<Rightarrow> bool" where
  "network_ok name info \<longleftrightarrow>
     name \<noteq> [] \<and> ni_network_name info = name \<and> indexed (ni_exit_node_peer_ids info) (ni_exit_nodes info) \<and>
     (\<forall>p n. dm_get (ni_exit_nodes info) p = Some n \<longrightarrow> en_peer_id n = p)"

definition registry_inv :: "NetworkRegistry \<Rightarrow> bool" where
  "registry_inv reg \<longleftrightarrow>
     indexed (nr_network_names reg) (nr_networks reg) \<and>
     (\<forall>name info. dm_get (nr_networks reg) name = Some info \<longrightarrow> network_ok name info)"

lemma registry_inv_store:
  assumes "registry_inv reg" and "dm_get (nr_networks reg) name = Some old" and "network_ok name info"
  shows "registry_inv (store_network name info reg)"
  using assms by (auto simp: registry_inv_def store_network_def indexed_update)

lemma borrow_as_admin_Inr:
  "borrow_as_admin s name reg = Inr info \<longleftrightarrow> dm_get (nr_networks reg) name = Some info \<and> ni_admin info = s"
  by (auto simp: borrow_as_admin_def split: option.splits)

lemma network_okD: "registry_inv reg \<Longrightarrow> dm_get (nr_networks reg) name = Some info \<Longrightarrow> network_ok name info"
  by (simp add: registry_inv_def)

text \<open>
  The abstract specification of a transaction by \<open>s\<close>: nothing happens, or \<open>s\<close> founds a network of which it is the admin, or \<open>s\<close> changes
  a network it is the admin of, or an exit node is switched on or off. It does not say who may do the last.
\<close>

inductive registry_change :: "address \<Rightarrow> NetworkRegistry \<Rightarrow> NetworkRegistry \<Rightarrow> bool" where
  unchanged: "registry_change s reg reg"
| founded: "dm_get (nr_networks reg) name = None \<Longrightarrow> network_ok name info \<Longrightarrow> ni_admin info = s \<Longrightarrow>
    registry_change s reg
      (reg\<lparr>nr_networks := dm_insert name info (nr_networks reg), nr_network_names := nr_network_names reg @ [name]\<rparr>)"
| administered: "dm_get (nr_networks reg) name = Some old \<Longrightarrow> ni_admin old = s \<Longrightarrow> network_ok name info \<Longrightarrow>
    ni_admin info = s \<Longrightarrow> ni_created_at info = ni_created_at old \<Longrightarrow> registry_change s reg (store_network name info reg)"
| toggled: "dm_get (nr_networks reg) name = Some old \<Longrightarrow> dm_get (ni_exit_nodes old) p = Some n \<Longrightarrow> en_peer_id n = p \<Longrightarrow>
    info = old\<lparr>ni_exit_nodes := dm_insert p (n\<lparr>en_is_active := b\<rparr>) (ni_exit_nodes old)\<rparr> \<Longrightarrow>
    registry_change s reg (store_network name info reg)"

lemma admin_change:
  assumes "borrow_as_admin s name reg = Inr old" and "network_ok name info"
    and "ni_admin info = ni_admin old" and "ni_created_at info = ni_created_at old"
  shows "registry_change s reg (store_network name info reg)"
  using assms by (auto simp: borrow_as_admin_Inr intro: administered)

lemma borrowed_ok: "registry_inv reg \<Longrightarrow> borrow_as_admin s name reg = Inr info \<Longrightarrow> network_ok name info"
  by (simp add: borrow_as_admin_Inr network_okD)

lemma create_network_change:
  "create_network s now name secret descr mx reg = Inr (reg', events) \<Longrightarrow> registry_change s reg reg'"
  by (auto simp: create_network_def dm_contains_def Let_def network_ok_def split: if_splits intro!: founded)

lemma add_exit_node_change:
  assumes "registry_inv reg" and "add_exit_node s now name p uris host reg = Inr (reg', events)"
  shows "registry_change s reg reg'"
proof -
  from assms(2) obtain info where info: "borrow_as_admin s name reg = Inr info"
    by (auto simp: add_exit_node_def split: sum.splits)
  with borrowed_ok [OF assms(1)] have "network_ok name info" by simp
  with assms(2) info show ?thesis
    by (auto simp: add_exit_node_def Let_def dm_contains_def network_ok_def indexed_add indexed_update
        split: if_splits intro!: admin_change)
qed

lemma remove_exit_node_change:
  assumes "registry_inv reg" and "remove_exit_node s name p reg = Inr (reg', events)"
  shows "registry_change s reg reg'"
proof -
  from assms(2) obtain info where info: "borrow_as_admin s name reg = Inr info"
    by (auto simp: remove_exit_node_def split: sum.splits)
  with borrowed_ok [OF assms(1)] have ok: "network_ok name info" by simp
  then have "distinct (ni_exit_node_peer_ids info)" by (simp add: network_ok_def indexed_def)
  with assms(2) info ok show ?thesis
    by (auto simp: remove_exit_node_def remove_peer_id_removes network_ok_def indexed_remove
        split: if_splits intro!: admin_change unchanged)
qed

lemma update_exit_node_status_change:
  assumes "registry_inv reg" and "update_exit_node_status s name p b reg = Inr (reg', events)"
  shows "registry_change s reg reg'"
proof -
  from assms(2) obtain info node where info: "dm_get (nr_networks reg) name = Some info"
    and node: "dm_get (ni_exit_nodes info) p = Some node"
    and reg': "reg' = store_network name
      (info\<lparr>ni_exit_nodes := dm_insert p (node\<lparr>en_is_active := b\<rparr>) (ni_exit_nodes info)\<rparr>) reg"
    by (auto simp: update_exit_node_status_def split: option.splits)
  from network_okD [OF assms(1) info] node have "en_peer_id node = p" by (simp add: network_ok_def)
  with info node show ?thesis unfolding reg' by (auto intro: toggled)
qed

lemma admin_field_change:
  assumes "registry_inv reg"
    and "(case borrow_as_admin s name reg of Inl e \<Rightarrow> Inl e | Inr info \<Rightarrow> Inr (store_network name (f info) reg, ev)) = Inr (reg', events)"
    and "\<And>info. network_ok name info \<Longrightarrow> network_ok name (f info)" and "\<And>info. ni_admin (f info) = ni_admin info"
    and "\<And>info. ni_created_at (f info) = ni_created_at info"
  shows "registry_change s reg reg'"
  using assms(2) borrowed_ok [OF assms(1)] by (auto split: sum.splits intro!: admin_change assms(3-5))

lemma call_change:
  assumes "registry_inv reg" and "call s now tx reg = Inr (reg', events)"
  shows "registry_change s reg reg'"
proof (cases tx)
  case (UpdateNetwork name secret descr mx)
  show ?thesis
    by (rule admin_field_change [OF assms(1) assms(2) [unfolded UpdateNetwork call.simps update_network_def]])
      (simp_all add: network_ok_def)
next
  case (DeactivateNetwork name)
  show ?thesis
    by (rule admin_field_change [OF assms(1) assms(2) [unfolded DeactivateNetwork call.simps deactivate_network_def]])
      (simp_all add: network_ok_def)
next
  case (ReactivateNetwork name)
  show ?thesis
    by (rule admin_field_change [OF assms(1) assms(2) [unfolded ReactivateNetwork call.simps reactivate_network_def]])
      (simp_all add: network_ok_def)
qed (use assms in \<open>auto intro: create_network_change add_exit_node_change remove_exit_node_change update_exit_node_status_change\<close>)

lemma transact_change: "registry_inv reg \<Longrightarrow> registry_change s reg (transact s now tx reg)"
  by (auto simp: transact_def intro: unchanged call_change split: sum.split)

lemma registry_change_inv: "registry_change s reg reg' \<Longrightarrow> registry_inv reg \<Longrightarrow> registry_inv reg'"
proof (induction rule: registry_change.induct)
  case (founded reg name info s)
  then show ?case by (auto simp: registry_inv_def indexed_add)
next
  case (toggled reg name old p n info b s)
  then have "network_ok name old" by (simp add: network_okD)
  with toggled have "network_ok name info" by (auto simp: network_ok_def indexed_update)
  with toggled show ?case by (blast intro: registry_inv_store)
qed (auto intro: registry_inv_store)

lemma reachable_inv: "registry_reachable reg \<Longrightarrow> registry_inv reg"
proof (induction rule: registry_reachable.induct)
  case (reach_init publisher)
  then show ?case by (simp add: registry_init_def registry_inv_def)
next
  case (reach_tx reg s now tx)
  then show ?case by (blast intro: registry_change_inv transact_change)
qed

end
