(* ===== verification/ContractProps.thy ===== *)
theory ContractProps
  imports Contract
begin

text \<open>
  What the network registry contract promises, over every sequence of transactions: queries never run into a dangling key,
  a network is changed by its admin alone up to the state of its exit nodes, and exit nodes are picked among the active ones.
\<close>

lemma active_exit_nodes_ok:
  assumes "network_ok name info"
  obtains nodes where "active_exit_nodes info = Inr nodes"
    and "set nodes = {n. en_is_active n \<and> dm_get (ni_exit_nodes info) (en_peer_id n) = Some n}"
proof -
  let ?pick = "\<lambda>n. if en_is_active n then Some n else None"
  from assms have idx: "indexed (ni_exit_node_peer_ids info) (ni_exit_nodes info)" by (simp add: network_ok_def)
  have "{x. \<exists>k v. dm_get (ni_exit_nodes info) k = Some v \<and> ?pick v = Some x} =
      {n. en_is_active n \<and> dm_get (ni_exit_nodes info) (en_peer_id n) = Some n}"
    using assms by (auto simp: network_ok_def split: if_splits)
  with that show ?thesis
    by (simp add: active_exit_nodes_def collect_indexed [OF idx] set_map_filter_indexed [OF idx])
qed

lemma call_abort:
  assumes "registry_inv reg" and "call s now tx reg = Inl e"
  shows "e \<in> {E_NETWORK_NOT_FOUND, E_NETWORK_ALREADY_EXISTS, E_UNAUTHORIZED, E_INVALID_NETWORK_NAME, E_PEER_NOT_FOUND}"
proof -
  have borrow: "e' \<in> {E_NETWORK_NOT_FOUND, E_UNAUTHORIZED}" if "borrow_as_admin s name reg = Inl e'" for name e'
    using that by (auto simp: borrow_as_admin_def split: option.splits if_splits)
  have ids: "distinct (ni_exit_node_peer_ids info)" if "borrow_as_admin s name reg = Inr info" for name info
    using borrowed_ok [OF assms(1) that] by (simp add: network_ok_def indexed_def)
  show ?thesis
    using assms(2)
    by (cases tx)
      (auto simp: create_network_def update_network_def add_exit_node_def remove_exit_node_def deactivate_network_def
        reactivate_network_def update_exit_node_status_def Let_def remove_peer_id_removes ids
        dest: borrow split: sum.splits if_splits option.splits)
qed

text \<open>
  C6. Well-formedness. In every registry that transactions can reach, the vector of names lists every network once, every network
  is stored under its own non-empty name, its vector of peer ids lists its exit nodes once, and each exit
  node is stored under its own peer id. So no listing aborts on a dangling key, and an entry function aborts only with an error code of
  the contract.
\<close>

theorem registry_well_formed:
  assumes "registry_reachable reg"
  shows "registry_inv reg \<and>
    (\<exists>nets. get_active_networks to_string reg = Inr nets) \<and>
    (case get_exit_nodes reg name of Inl e \<Rightarrow> e = E_NETWORK_NOT_FOUND | Inr nodes \<Rightarrow> True) \<and>
    (case call s now tx reg of
       Inl e \<Rightarrow> e \<in> {E_NETWORK_NOT_FOUND, E_NETWORK_ALREADY_EXISTS, E_UNAUTHORIZED, E_INVALID_NETWORK_NAME, E_PEER_NOT_FOUND}
     | Inr x \<Rightarrow> registry_inv (fst x))"
proof (intro conjI)
  show inv: "registry_inv reg" by (rule reachable_inv [OF assms])
  then show "\<exists>nets. get_active_networks to_string reg = Inr nets"
    by (simp add: get_active_networks_def registry_inv_def collect_indexed)
  show "case get_exit_nodes reg name of Inl e \<Rightarrow> e = E_NETWORK_NOT_FOUND | Inr nodes \<Rightarrow> True"
  proof (cases "dm_get (nr_networks reg) name")
    case (Some info)
    obtain nodes where "active_exit_nodes info = Inr nodes"
      using active_exit_nodes_ok [OF network_okD [OF inv Some]] by blast
    then show ?thesis by (simp add: get_exit_nodes_def Some)
  qed (simp add: get_exit_nodes_def)
  show "case call s now tx reg of
       Inl e \<Rightarrow> e \<in> {E_NETWORK_NOT_FOUND, E_NETWORK_ALREADY_EXISTS, E_UNAUTHORIZED, E_INVALID_NETWORK_NAME, E_PEER_NOT_FOUND}
     | Inr x \<Rightarrow> registry_inv (fst x)"
    using call_abort [OF inv] registry_change_inv [OF call_change [OF inv] inv]
    by (cases "call s now tx reg") (auto simp del: call.simps)
qed

definition example_registry :: NetworkRegistry where
  "example_registry =
     transact 5 20 (AddExitNode ''home'' 7 [''tcp://1.2.3.4:1''] ''gw'')
       (transact 5 10 (CreateNetwork ''home'' [1, 2] ''mine'' 8) (registry_init 1))"

lemma example_registry_reachable: "registry_reachable example_registry"
  unfolding example_registry_def by (intro reach_tx reach_init)

definition example_node :: ExitNodeInfo where
  "example_node = \<lparr>en_peer_id = 7, en_connector_uri_list = [''tcp://1.2.3.4:1''], en_hostname = ''gw'', en_is_active = True,
     en_registered_at = 20\<rparr>"

lemma example_registry_eq:
  "example_registry = \<lparr>nr_networks = [(''home'', \<lparr>ni_network_name = ''home'', ni_network_secret = [1, 2], ni_admin = 5,
      ni_created_at = 10, ni_is_active = True, ni_description = ''mine'', ni_max_peers = 8, ni_exit_nodes = [(7, example_node)],
      ni_exit_node_peer_ids = [7]\<rparr>)], nr_network_names = [''home''], nr_global_admin = 1\<rparr>"
  by (simp add: example_registry_def transact_def registry_init_def create_network_def add_exit_node_def borrow_as_admin_def
      store_network_def dm_contains_def dm_get_def dm_insert_def example_node_def)

theorem registry_well_formed_witness:
  "registry_inv example_registry \<and> call 6 30 (DeactivateNetwork ''home'') example_registry = Inl E_UNAUTHORIZED \<and>
   get_exit_nodes example_registry ''none'' = Inl E_NETWORK_NOT_FOUND"
proof -
  have "call 6 30 (DeactivateNetwork ''home'') example_registry = Inl E_UNAUTHORIZED"
    by (simp add: example_registry_eq deactivate_network_def borrow_as_admin_def dm_get_def)
  moreover have "get_exit_nodes example_registry ''none'' = Inl E_NETWORK_NOT_FOUND"
    by (simp add: example_registry_eq get_exit_nodes_def dm_get_def)
  ultimately show ?thesis using registry_well_formed [OF example_registry_reachable, of "\<lambda>_. []" "[]" 0 0 "DeactivateNetwork []"] by simp
qed

text \<open>
  C5. Only its admin changes a network. Whatever a transaction of another sender does, a network keeps its
  name, secret, admin, creation time, activity, description, peer limit and exit node ids, and its exit nodes differ
  at most in their activity; and no transaction changes the admin or the creation time of a network or removes it.
\<close>

theorem only_admin_changes_network:
  assumes "registry_reachable reg" and "dm_get (nr_networks reg) name = Some info"
  shows "\<exists>info'. dm_get (nr_networks (transact s now tx reg)) name = Some info' \<and>
    ni_admin info' = ni_admin info \<and> ni_created_at info' = ni_created_at info \<and>
    (s \<noteq> ni_admin info \<longrightarrow>
      (\<exists>nodes. info' = info\<lparr>ni_exit_nodes := nodes\<rparr> \<and>
        (\<forall>p. map_option (en_is_active_update (\<lambda>_. True)) (dm_get nodes p) =
             map_option (en_is_active_update (\<lambda>_. True)) (dm_get (ni_exit_nodes info) p))))"
proof -
  have "registry_change s reg (transact s now tx reg)"
    by (rule transact_change [OF reachable_inv [OF assms(1)]])
  then show ?thesis
  proof cases
    case unchanged
    then show ?thesis using assms(2) by (intro exI [of _ info]) (auto intro!: exI [of _ "ni_exit_nodes info"])
  next
    case (founded name' info')
    then show ?thesis using assms(2) by (intro exI [of _ info]) (auto intro!: exI [of _ "ni_exit_nodes info"])
  next
    case (administered name' old info')
    then show ?thesis
      using assms(2)
      by (cases "name' = name") (auto simp: store_network_def intro!: exI [of _ "ni_exit_nodes info"])
  next
    case (toggled name' old p n info' b)
    show ?thesis
    proof (cases "name' = name")
      case True
      then show ?thesis
        using toggled assms(2)
        by (auto simp: store_network_def intro!: exI [of _ "dm_insert p (n\<lparr>en_is_active := b\<rparr>) (ni_exit_nodes info)"])
    next
      case False
      then show ?thesis
        using toggled assms(2) by (auto simp: store_network_def intro!: exI [of _ "ni_exit_nodes info"])
    qed
  qed
qed

theorem only_admin_changes_network_witness:
  "\<exists>info'. dm_get (nr_networks (transact 6 30 (UpdateNetwork ''home'' [] [] 0) example_registry)) ''home'' = Some info' \<and>
     ni_admin info' = 5 \<and> ni_network_secret info' = [1, 2]"
proof -
  let ?info = "\<lparr>ni_network_name = ''home'', ni_network_secret = [1, 2], ni_admin = 5,
      ni_created_at = 10, ni_is_active = True, ni_description = ''mine'', ni_max_peers = 8, ni_exit_nodes = [(7, example_node)],
      ni_exit_node_peer_ids = [7]\<rparr>"
  have "dm_get (nr_networks example_registry) ''home'' = Some ?info"
    by (simp add: example_registry_eq dm_get_def)
  from only_admin_changes_network [OF example_registry_reachable this, of 6 30 "UpdateNetwork ''home'' [] [] 0"]
  show ?thesis by auto
qed

text \<open>
  C38. Picking an exit node. In every reachable registry, picking an exit node of a network returns a registered, active exit node of that
  network whenever it has one, and nothing otherwise; it aborts only for a name that is not registered.
\<close>

theorem pick_exit_node_active:
  assumes "registry_reachable reg"
  shows "case pick_exit_node hash digest reg name of
      Inl e \<Rightarrow> e = E_NETWORK_NOT_FOUND \<and> dm_get (nr_networks reg) name = None
    | Inr (Some n) \<Rightarrow> en_is_active n \<and> get_exit_node_by_peer_id reg name (en_peer_id n) = Some n
    | Inr None \<Rightarrow> \<forall>p n. get_exit_node_by_peer_id reg name p = Some n \<longrightarrow> \<not> en_is_active n"
proof (cases "dm_get (nr_networks reg) name")
  case None
  then show ?thesis by (simp add: pick_exit_node_def)
next
  case (Some info)
  have ok: "network_ok name info" by (rule network_okD [OF reachable_inv [OF assms] Some])
  then obtain nodes where nodes: "active_exit_nodes info = Inr nodes"
    and set: "set nodes = {n. en_is_active n \<and> dm_get (ni_exit_nodes info) (en_peer_id n) = Some n}"
    by (rule active_exit_nodes_ok)
  show ?thesis
  proof (cases "nodes = []")
    case True
    with set ok show ?thesis
      by (auto simp: pick_exit_node_def get_exit_node_by_peer_id_def Some nodes network_ok_def)
  next
    case False
    then have "nodes ! (random_value (hash digest) mod length nodes) \<in> set nodes" by simp
    with False set show ?thesis by (simp add: pick_exit_node_def get_exit_node_by_peer_id_def Some nodes)
  qed
qed

theorem pick_exit_node_active_witness:
  "pick_exit_node (\<lambda>d. d) [9] example_registry ''home'' = Inr (Some example_node) \<and> en_is_active example_node"
proof -
  have pick: "pick_exit_node (\<lambda>d. d) [9] example_registry ''home'' = Inr (Some example_node)"
    by (simp add: pick_exit_node_def example_registry_eq dm_get_def active_exit_nodes_def collect.simps example_node_def)
  with pick_exit_node_active [where hash = "\<lambda>d. d" and digest = "[9]" and name = "''home''", OF example_registry_reachable] show ?thesis by simp
qed



end
