(* ===== verification/PacketView.thy ===== *)
theory PacketView
  imports PacketDef
begin

text \<open>
  A packet as its users see it: tunnel type, peer manager header and payload. The compressor and the encryptors rewrite header
  flags and payload in place; the lemmas here say what such a rewrite does to the three parts.
\<close>

definition shows_as :: "ZCPacket \<Rightarrow> ZCPacketType \<Rightarrow> PeerManagerHeader \<Rightarrow> byte list \<Rightarrow> bool" where
  "shows_as p t h pl \<longleftrightarrow>
     payload_offset p \<le> length (zc_bytes p) \<and> zc_type p = t \<and> peer_manager_header p = Inr (Some h) \<and> payload p = Inr pl"

text \<open>\<open>peer_manager_header().unwrap()\<close>, \<open>mut_peer_manager_header().unwrap()\<close>, \<open>mut_payload()\<close> and
  \<open>mut_inner().truncate(n)\<close>, \<open>mut_inner().extend_from_slice(xs)\<close>.\<close>

definition pm_header_unwrap :: "ZCPacket \<Rightarrow> PeerManagerHeader rust" where
  "pm_header_unwrap p = rbind (peer_manager_header p) unwrap"

definition with_pm_header :: "(PeerManagerHeader \<Rightarrow> PeerManagerHeader) \<Rightarrow> ZCPacket \<Rightarrow> ZCPacket rust" where
  "with_pm_header f p = rbind (mut_peer_manager_header f p) unwrap"

definition mut_payload :: "(byte list \<Rightarrow> byte list) \<Rightarrow> ZCPacket \<Rightarrow> ZCPacket rust" where
  "mut_payload f p = rmap (\<lambda>pl. set_bytes (take (payload_offset p) (zc_bytes p) @ f pl) p) (payload p)"

definition truncate_inner :: "nat \<Rightarrow> ZCPacket \<Rightarrow> ZCPacket" where
  "truncate_inner n p = set_bytes (take n (zc_bytes p)) p"

definition extend_inner :: "byte list \<Rightarrow> ZCPacket \<Rightarrow> ZCPacket" where
  "extend_inner xs p = p\<lparr>zc_inner := bm_extend xs (zc_inner p)\<rparr>"

lemma shows_as_header: "shows_as p t h pl \<Longrightarrow> pm_header_unwrap p = Inr h"
  by (simp add: shows_as_def pm_header_unwrap_def)

lemma shows_as_payload: "shows_as p t h pl \<Longrightarrow> payload p = Inr pl"
  by (simp add: shows_as_def)

lemma shows_as_bytes:
  "shows_as p t h pl \<longleftrightarrow>
     payload_offset p \<le> length (zc_bytes p) \<and> zc_type p = t \<and>
     h = pm_hdr_of (take PEER_MANAGER_HEADER_SIZE (drop (peer_manager_header_offset (get_packet_offsets t)) (zc_bytes p))) \<and>
     pl = drop (payload_offset p) (zc_bytes p)"
  by (auto simp: shows_as_def peer_manager_header_ok payload_ok)

lemma shows_as_exists: "payload_offset p \<le> length (zc_bytes p) \<Longrightarrow> \<exists>h pl. shows_as p (zc_type p) h pl"
  by (simp add: shows_as_bytes)

lemma shows_as_with_header:
  assumes "shows_as p t h pl"
  shows "\<exists>p'. with_pm_header f p = Inr p' \<and> shows_as p' t (f h) pl \<and> length (zc_bytes p') = length (zc_bytes p)"
proof -
  from assms have len: "payload_offset p \<le> length (zc_bytes p)" and t: "zc_type p = t"
    and h: "h = pm_hdr_of (take PEER_MANAGER_HEADER_SIZE (drop (peer_manager_header_offset (get_packet_offsets t)) (zc_bytes p)))"
    by (simp_all add: shows_as_bytes)
  show ?thesis
    by (rule mut_peer_manager_header_effect [OF len, of f])
      (use assms len t h in \<open>simp add: with_pm_header_def shows_as_def payload_offset_def\<close>)
qed

lemma shows_as_new_payload:
  assumes "shows_as p t h pl" and "zc_type q = t" and "zc_bytes q = take (payload_offset p) (zc_bytes p) @ pl'"
  shows "shows_as q t h pl'"
proof -
  from assms(1) have len: "payload_offset p \<le> length (zc_bytes p)" and t: "zc_type p = t" by (simp_all add: shows_as_def)
  have off: "payload_offset p = peer_manager_header_offset (get_packet_offsets t) + PEER_MANAGER_HEADER_SIZE"
    by (simp add: payload_offset_def t payload_after_header)
  have "payload_offset q = payload_offset p" using assms(2) t by (simp add: payload_offset_def)
  with assms len t off show ?thesis by (simp add: shows_as_bytes drop_take)
qed

lemma shows_as_mut_payload:
  assumes "shows_as p t h pl"
  shows "\<exists>p'. mut_payload f p = Inr p' \<and> shows_as p' t h (f pl)"
proof -
  let ?p = "set_bytes (take (payload_offset p) (zc_bytes p) @ f pl) p"
  have "zc_type p = t" using assms by (simp add: shows_as_def)
  then have "shows_as ?p t h (f pl)" by (intro shows_as_new_payload [OF assms]) (simp_all add: set_bytes_def)
  moreover have "mut_payload f p = Inr ?p" by (simp add: mut_payload_def shows_as_payload [OF assms])
  ultimately show ?thesis by blast
qed

lemma shows_as_extend:
  "shows_as p t h pl \<Longrightarrow> shows_as (extend_inner xs p) t h (pl @ xs)"
  by (rule shows_as_new_payload) (auto simp: extend_inner_def bm_extend_def shows_as_bytes)

lemma shows_as_truncate:
  assumes "shows_as p t h pl" and "n = payload_offset p + k" and "k \<le> length pl"
  shows "shows_as (truncate_inner n p) t h (take k pl)"
  by (rule shows_as_new_payload [OF assms(1)]) (use assms in \<open>auto simp: truncate_inner_def set_bytes_def shows_as_bytes take_add\<close>)

lemma shows_as_buf_len: "shows_as p t h pl \<Longrightarrow> buf_len p = payload_offset p + length pl"
  by (simp add: shows_as_bytes buf_len_def)

end
