(* ===== verification/PeerMap.thy ===== *)
theory PeerMap
  imports OspfService PacketView
begin

text \<open>
  Connected peers and the choice of the connection and the gateway for a packet (\<open>src/app/src/peers/peer.rs\<close>,
  \<open>src/app/src/peers/peer_map.rs\<close>, \<open>src/app/src/peers/foreign_network_client.rs\<close>).

  A connection is what these files read of it: its id, its measured latency and two flags. A route (the trait \<open>Route\<close>) is the record of
  its queries; \<open>ospf_route\<close> makes one of the state of the route service. What a node sends is a list of effects.
\<close>

section \<open>Peers\<close>

type_synonym PeerConnId = nat

record PeerConn =
  pc_conn_id :: PeerConnId
  pc_latency_us :: u64
  pc_is_closed :: bool
  pc_is_hole_punched :: bool

text \<open>The ids of connections to close wait in a channel for the listener task.\<close>

record Peer =
  peer_node_id :: PeerId
  peer_conns :: "(PeerConnId, PeerConn) dmap"
  peer_default_conn_id :: PeerConnId
  peer_close_events :: "PeerConnId list"

definition peer_new :: "PeerId \<Rightarrow> Peer" where
  "peer_new p = \<lparr>peer_node_id = p, peer_conns = [], peer_default_conn_id = 0, peer_close_events = []\<rparr>"

definition close_event_round :: "Peer \<Rightarrow> Peer" where
  "close_event_round peer =
     (case peer_close_events peer of
        [] \<Rightarrow> peer
      | c # cs \<Rightarrow> peer\<lparr>peer_conns := dm_remove c (peer_conns peer), peer_close_events := cs\<rparr>)"

definition default_conn_clear_round :: "Peer \<Rightarrow> Peer" where
  "default_conn_clear_round peer = (if length (peer_conns peer) > 1 then peer\<lparr>peer_default_conn_id := 0\<rparr> else peer)"

definition add_peer_conn :: "PeerConn \<Rightarrow> Peer \<Rightarrow> Peer" where
  "add_peer_conn conn peer = peer\<lparr>peer_conns := dm_insert (pc_conn_id conn) conn (peer_conns peer)\<rparr>"

text \<open>The scan for the smallest latency, which stores the id of each new minimum.\<close>

fun scan_latency :: "(PeerConnId, PeerConn) dmap \<Rightarrow> u64 \<Rightarrow> PeerConnId \<Rightarrow> PeerConnId" where
  "scan_latency [] min_latency default_id = default_id"
| "scan_latency ((_, conn) # conns) min_latency default_id =
     (if pc_latency_us conn < min_latency then scan_latency conns (pc_latency_us conn) (pc_conn_id conn)
      else scan_latency conns min_latency default_id)"

definition select_conn :: "Peer \<Rightarrow> Peer \<times> PeerConn option" where
  "select_conn peer =
     (case dm_get (peer_conns peer) (peer_default_conn_id peer) of
        Some conn \<Rightarrow> (peer, Some conn)
      | None \<Rightarrow>
          (let d = scan_latency (peer_conns peer) (- 1) (peer_default_conn_id peer)
           in (peer\<lparr>peer_default_conn_id := d\<rparr>, dm_get (peer_conns peer) d)))"

definition close_peer_conn :: "PeerConnId \<Rightarrow> Peer \<Rightarrow> Peer option" where
  "close_peer_conn c peer =
     (if dm_contains (peer_conns peer) c then Some (peer\<lparr>peer_close_events := peer_close_events peer @ [c]\<rparr>) else None)"

definition list_peer_conns :: "Peer \<Rightarrow> Peer \<times> PeerConn list" where
  "list_peer_conns peer =
     (fold (\<lambda>(_, conn) p. if pc_is_closed conn then (case close_peer_conn (pc_conn_id conn) p of Some p' \<Rightarrow> p' | None \<Rightarrow> p) else p)
        (peer_conns peer) peer,
      filter (\<lambda>conn. \<not> pc_is_closed conn) (map snd (peer_conns peer)))"

definition has_directly_connected_conn :: "Peer \<Rightarrow> bool" where
  "has_directly_connected_conn peer \<longleftrightarrow> list_ex (\<lambda>(_, conn). \<not> pc_is_hole_punched conn) (peer_conns peer)"

definition get_directly_connections :: "Peer \<Rightarrow> PeerConnId list" where
  "get_directly_connections peer =
     map (\<lambda>(_, conn). pc_conn_id conn) (filter (\<lambda>(_, conn). \<not> pc_is_hole_punched conn) (peer_conns peer))"

section \<open>Routes\<close>

record RouteView =
  rv_get_next_hop_with_policy :: "PeerId \<Rightarrow> NextHopPolicy \<Rightarrow> PeerId option"
  rv_list_routes :: "(PeerId \<times> PeerId) list"
  rv_get_peer_id_by_ipv4 :: "u32 \<Rightarrow> PeerId option"
  rv_get_peer_id_by_ipv6 :: "128 word \<Rightarrow> PeerId option"
  rv_get_peer_info :: "PeerId \<Rightarrow> RoutePeerInfo option"
  rv_get_peer_groups :: "PeerId \<Rightarrow> string list"
  rv_get_origin_my_peer_id :: "string \<Rightarrow> PeerId \<Rightarrow> PeerId option"
  rv_list_peers_own_foreign_network :: "NetworkIdentity \<Rightarrow> PeerId list"

definition ospf_route :: "('raw, 'cidr) RouteEnv \<Rightarrow> ('raw, 'cidr) PeerRouteServiceImpl \<Rightarrow> RouteView" where
  "ospf_route env srv =
     \<lparr>rv_get_next_hop_with_policy = get_next_hop_with_policy srv,
      rv_list_routes = map (\<lambda>r. (route_peer_id r, route_next_hop_peer_id r)) (list_routes srv),
      rv_get_peer_id_by_ipv4 = get_peer_id_by_ipv4 env srv,
      rv_get_peer_id_by_ipv6 = get_peer_id_by_ipv6 srv,
      rv_get_peer_info = get_peer_info srv,
      rv_get_peer_groups = get_peer_groups srv,
      rv_get_origin_my_peer_id = get_origin_my_peer_id srv,
      rv_list_peers_own_foreign_network = list_peers_own_foreign_network srv\<rparr>"

section \<open>The peer map\<close>

record PeerMapState =
  pm_my_peer_id :: PeerId
  pm_peer_map :: "(PeerId, Peer) dmap"
  pm_routes :: "RouteView list"
  pm_alive_conns :: "(PeerId \<times> PeerConnId, PeerConn) dmap"

text \<open>What sending does: a packet goes to a connection of a peer, or back into the node's own receive loop.\<close>

datatype Effect =
    SendOnConn PeerId ZCPacket
  | SendToSelf ZCPacket
  | ToForeignManager "byte list" PeerId ZCPacket
  | ToNic ZCPacket
  | ToRpc ZCPacket

datatype SendError = RouteError | PeerNoConnectionError PeerId | NotFound | SealFailed | SendHadErrors

definition add_new_peer_conn :: "PeerId \<Rightarrow> PeerConn \<Rightarrow> PeerMapState \<Rightarrow> PeerMapState" where
  "add_new_peer_conn peer_id conn pm =
     (let pm1 = pm\<lparr>pm_alive_conns := dm_insert (peer_id, pc_conn_id conn) conn (pm_alive_conns pm)\<rparr>
      in case dm_get (pm_peer_map pm1) peer_id of
           None \<Rightarrow> pm1\<lparr>pm_peer_map := dm_insert peer_id (add_peer_conn conn (peer_new peer_id)) (pm_peer_map pm1)\<rparr>
         | Some peer \<Rightarrow> pm1\<lparr>pm_peer_map := dm_insert peer_id (add_peer_conn conn peer) (pm_peer_map pm1)\<rparr>)"

definition conn_closed :: "PeerId \<Rightarrow> PeerConnId \<Rightarrow> PeerMapState \<Rightarrow> PeerMapState rust" where
  "conn_closed peer_id c pm =
     rmap (\<lambda>_. pm\<lparr>pm_alive_conns := dm_remove (peer_id, c) (pm_alive_conns pm)\<rparr>)
       (unwrap (dm_get (pm_alive_conns pm) (peer_id, c)))"

definition has_peer :: "PeerMapState \<Rightarrow> PeerId \<Rightarrow> bool" where
  "has_peer pm p \<longleftrightarrow> p = pm_my_peer_id pm \<or> dm_contains (pm_peer_map pm) p"

definition send_msg_directly :: "ZCPacket \<Rightarrow> PeerId \<Rightarrow> PeerMapState \<Rightarrow> PeerMapState \<times> (SendError + Effect)" where
  "send_msg_directly msg dst pm =
     (if dst = pm_my_peer_id pm then (pm, Inr (SendToSelf msg))
      else case dm_get (pm_peer_map pm) dst of
             None \<Rightarrow> (pm, Inl RouteError)
           | Some peer \<Rightarrow>
               (let (peer', conn) = select_conn peer
                in (pm\<lparr>pm_peer_map := dm_insert dst peer' (pm_peer_map pm)\<rparr>,
                    case conn of Some _ \<Rightarrow> Inr (SendOnConn dst msg) | None \<Rightarrow> Inl (PeerNoConnectionError dst))))"

text \<open>The first route that answers, in the order of the list.\<close>

fun first_answer :: "(RouteView \<Rightarrow> 'a option) \<Rightarrow> RouteView list \<Rightarrow> 'a option" where
  "first_answer query [] = None"
| "first_answer query (r # rs) = (case query r of Some x \<Rightarrow> Some x | None \<Rightarrow> first_answer query rs)"

definition get_gateway_peer_id :: "PeerMapState \<Rightarrow> PeerId \<Rightarrow> NextHopPolicy \<Rightarrow> PeerId option" where
  "get_gateway_peer_id pm dst policy =
     (if dst = pm_my_peer_id pm then Some dst
      else if has_peer pm dst \<and> policy = LeastHop then Some dst
      else first_answer (\<lambda>r. rv_get_next_hop_with_policy r dst policy) (pm_routes pm))"

definition pm_send_msg :: "ZCPacket \<Rightarrow> PeerId \<Rightarrow> NextHopPolicy \<Rightarrow> PeerMapState \<Rightarrow> PeerMapState \<times> (SendError + Effect)" where
  "pm_send_msg msg dst policy pm =
     (case get_gateway_peer_id pm dst policy of
        None \<Rightarrow> (pm, Inl RouteError)
      | Some gateway \<Rightarrow> send_msg_directly msg gateway pm)"

definition pm_get_peer_id_by_ipv4 :: "PeerMapState \<Rightarrow> u32 \<Rightarrow> PeerId option" where
  "pm_get_peer_id_by_ipv4 pm a = first_answer (\<lambda>r. rv_get_peer_id_by_ipv4 r a) (pm_routes pm)"

definition pm_get_peer_id_by_ipv6 :: "PeerMapState \<Rightarrow> 128 word \<Rightarrow> PeerId option" where
  "pm_get_peer_id_by_ipv6 pm a = first_answer (\<lambda>r. rv_get_peer_id_by_ipv6 r a) (pm_routes pm)"

definition get_route_peer_info :: "PeerMapState \<Rightarrow> PeerId \<Rightarrow> RoutePeerInfo option" where
  "get_route_peer_info pm p = first_answer (\<lambda>r. rv_get_peer_info r p) (pm_routes pm)"

definition pm_get_origin_my_peer_id :: "PeerMapState \<Rightarrow> string \<Rightarrow> PeerId \<Rightarrow> PeerId option" where
  "pm_get_origin_my_peer_id pm name p = first_answer (\<lambda>r. rv_get_origin_my_peer_id r name p) (pm_routes pm)"

definition pm_list_peers_own_foreign_network :: "PeerMapState \<Rightarrow> NetworkIdentity \<Rightarrow> PeerId list" where
  "pm_list_peers_own_foreign_network pm nid = concat (map (\<lambda>r. rv_list_peers_own_foreign_network r nid) (pm_routes pm))"

definition list_peers :: "PeerMapState \<Rightarrow> PeerId list" where
  "list_peers pm = map fst (pm_peer_map pm)"

text \<open>\<open>list_peers_with_conn\<close> and the round of the cleaning task; listing the connections of a peer queues its closed ones for removal.\<close>

definition list_all_conns :: "PeerMapState \<Rightarrow> PeerMapState" where
  "list_all_conns pm = pm\<lparr>pm_peer_map := map (\<lambda>(p, peer). (p, fst (list_peer_conns peer))) (pm_peer_map pm)\<rparr>"

definition list_peers_with_conn :: "PeerMapState \<Rightarrow> PeerMapState \<times> PeerId list" where
  "list_peers_with_conn pm =
     (list_all_conns pm, map fst (filter (\<lambda>(_, peer). snd (list_peer_conns peer) \<noteq> []) (pm_peer_map pm)))"

definition clean_peer_without_conn :: "PeerMapState \<Rightarrow> PeerMapState" where
  "clean_peer_without_conn pm =
     (let to_remove = map fst (filter (\<lambda>(_, peer). snd (list_peer_conns peer) = []) (pm_peer_map pm));
          pm1 = list_all_conns pm
      in pm1\<lparr>pm_peer_map := fold dm_remove to_remove (pm_peer_map pm1)\<rparr>)"

definition close_peer :: "PeerId \<Rightarrow> PeerMapState \<Rightarrow> PeerMapState" where
  "close_peer p pm = pm\<lparr>pm_peer_map := dm_remove p (pm_peer_map pm)\<rparr>"

definition pm_close_peer_conn :: "PeerId \<Rightarrow> PeerConnId \<Rightarrow> PeerMapState \<Rightarrow> SendError + PeerMapState" where
  "pm_close_peer_conn p c pm =
     (case dm_get (pm_peer_map pm) p of
        None \<Rightarrow> Inl NotFound
      | Some peer \<Rightarrow>
          (case close_peer_conn c peer of
             None \<Rightarrow> Inl NotFound
           | Some peer' \<Rightarrow> Inr (pm\<lparr>pm_peer_map := dm_insert p peer' (pm_peer_map pm)\<rparr>)))"

definition pm_add_route :: "RouteView \<Rightarrow> PeerMapState \<Rightarrow> PeerMapState" where
  "pm_add_route r pm = pm\<lparr>pm_routes := r # pm_routes pm\<rparr>"

definition pm_list_routes :: "PeerMapState \<Rightarrow> (PeerId, PeerId) dmap" where
  "pm_list_routes pm = fold (\<lambda>(p, n). dm_insert p n) (concat (map rv_list_routes (pm_routes pm))) []"

definition need_relay_by_foreign_network :: "PeerMapState \<Rightarrow> PeerId \<Rightarrow> SendError + bool" where
  "need_relay_by_foreign_network pm dst =
     (case get_gateway_peer_id pm dst LeastHop of None \<Rightarrow> Inl RouteError | Some g \<Rightarrow> Inr (\<not> has_peer pm g))"

section \<open>The foreign network client\<close>

definition client_get_next_hop :: "PeerMapState \<Rightarrow> PeerId \<Rightarrow> PeerId option" where
  "client_get_next_hop pm p = (if has_peer pm p then Some p else None)"

definition has_next_hop :: "PeerMapState \<Rightarrow> PeerId \<Rightarrow> bool" where
  "has_next_hop pm p \<longleftrightarrow> client_get_next_hop pm p \<noteq> None"

definition client_send_msg :: "ZCPacket \<Rightarrow> PeerId \<Rightarrow> PeerMapState \<Rightarrow> PeerMapState \<times> (SendError + Effect)" where
  "client_send_msg msg p pm =
     (case client_get_next_hop pm p of
        Some next_hop \<Rightarrow> send_msg_directly msg next_hop pm
      | None \<Rightarrow> (pm, Inl RouteError))"

section \<open>The fastest connection\<close>

definition peer_ok :: "Peer \<Rightarrow> bool" where
  "peer_ok peer \<longleftrightarrow> dm_inv (peer_conns peer) \<and> (\<forall>c conn. dm_get (peer_conns peer) c = Some conn \<longrightarrow> pc_conn_id conn = c)"

lemma scan_latency_min:
  "(scan_latency conns m d = d \<and> (\<forall>(c, conn) \<in> set conns. m \<le> pc_latency_us conn)) \<or>
   (\<exists>(c, conn) \<in> set conns. scan_latency conns m d = pc_conn_id conn \<and> pc_latency_us conn < m \<and>
      (\<forall>(c', conn') \<in> set conns. pc_latency_us conn \<le> pc_latency_us conn'))"
proof (induction conns arbitrary: m d)
  case (Cons x conns)
  obtain c conn where x: "x = (c, conn)" by (cases x)
  show ?case
  proof (cases "pc_latency_us conn < m")
    case True
    from Cons [of "pc_latency_us conn" "pc_conn_id conn"] show ?thesis
    proof
      assume "scan_latency conns (pc_latency_us conn) (pc_conn_id conn) = pc_conn_id conn \<and>
        (\<forall>(c', conn') \<in> set conns. pc_latency_us conn \<le> pc_latency_us conn')"
      with True show ?thesis by (intro disjI2 bexI [of _ "(c, conn)"]) (auto simp: x)
    next
      assume "\<exists>(c', conn') \<in> set conns. scan_latency conns (pc_latency_us conn) (pc_conn_id conn) = pc_conn_id conn' \<and>
        pc_latency_us conn' < pc_latency_us conn \<and> (\<forall>(c'', conn'') \<in> set conns. pc_latency_us conn' \<le> pc_latency_us conn'')"
      then obtain c' conn' where *: "(c', conn') \<in> set conns"
        "scan_latency conns (pc_latency_us conn) (pc_conn_id conn) = pc_conn_id conn'" "pc_latency_us conn' < pc_latency_us conn"
        "\<forall>(c'', conn'') \<in> set conns. pc_latency_us conn' \<le> pc_latency_us conn''" by blast
      with True show ?thesis by (intro disjI2 bexI [of _ "(c', conn')"]) (auto simp: x)
    qed
  next
    case False
    then have le: "m \<le> pc_latency_us conn" by simp
    from Cons [of m d] show ?thesis
    proof
      assume "scan_latency conns m d = d \<and> (\<forall>(c', conn') \<in> set conns. m \<le> pc_latency_us conn')"
      with False le show ?thesis by (simp add: x)
    next
      assume "\<exists>(c', conn') \<in> set conns. scan_latency conns m d = pc_conn_id conn' \<and> pc_latency_us conn' < m \<and>
        (\<forall>(c'', conn'') \<in> set conns. pc_latency_us conn' \<le> pc_latency_us conn'')"
      then obtain c' conn' where *: "(c', conn') \<in> set conns" "scan_latency conns m d = pc_conn_id conn'" "pc_latency_us conn' < m"
        "\<forall>(c'', conn'') \<in> set conns. pc_latency_us conn' \<le> pc_latency_us conn''" by blast
      then have "pc_latency_us conn' \<le> pc_latency_us conn" using le by simp
      with * False show ?thesis by (intro disjI2 bexI [of _ "(c', conn')"]) (auto simp: x)
    qed
  qed
qed simp

lemma select_conn_fastest:
  assumes "peer_ok peer" and "dm_get (peer_conns peer) (peer_default_conn_id peer) = None"
    and "dm_get (peer_conns peer) c = Some conn" and "pc_latency_us conn \<noteq> - 1"
  shows "\<exists>best. snd (select_conn peer) = Some best \<and> peer_default_conn_id (fst (select_conn peer)) = pc_conn_id best \<and>
    (\<forall>c' conn'. dm_get (peer_conns peer) c' = Some conn' \<longrightarrow> pc_latency_us best \<le> pc_latency_us conn')"
proof -
  let ?d = "scan_latency (peer_conns peer) (- 1) (peer_default_conn_id peer)"
  have inv: "dm_inv (peer_conns peer)" using assms(1) by (simp add: peer_ok_def)
  have "pc_latency_us conn < - 1" using assms(4) by (simp add: word_order.not_eq_extremum)
  then have "\<not> - 1 \<le> pc_latency_us conn" by (simp add: not_le)
  with scan_latency_min [of "peer_conns peer" "- 1" "peer_default_conn_id peer"] dm_get_SomeD [OF assms(3)]
  obtain c' best where best: "(c', best) \<in> set (peer_conns peer)" "?d = pc_conn_id best"
    "\<forall>(c'', conn'') \<in> set (peer_conns peer). pc_latency_us best \<le> pc_latency_us conn''" by fastforce
  then have get: "dm_get (peer_conns peer) c' = Some best" using dm_get_in_set [OF inv] by simp
  then have "dm_get (peer_conns peer) ?d = Some best" using assms(1) best(2) by (auto simp: peer_ok_def)
  with best assms(2) show ?thesis by (auto simp: select_conn_def Let_def dest!: dm_get_SomeD)
qed

lemma clean_keeps_live:
  assumes "dm_inv (pm_peer_map pm)"
  shows "dm_get (pm_peer_map (clean_peer_without_conn pm)) p \<noteq> None \<longleftrightarrow>
    (\<exists>peer. dm_get (pm_peer_map pm) p = Some peer \<and> list_ex (\<lambda>(_, conn). \<not> pc_is_closed conn) (peer_conns peer))"
proof -
  let ?dead = "map fst (filter (\<lambda>(_, peer). snd (list_peer_conns peer) = []) (pm_peer_map pm))"
  have live: "snd (list_peer_conns peer) = [] \<longleftrightarrow> \<not> list_ex (\<lambda>(_, conn). \<not> pc_is_closed conn) (peer_conns peer)" for peer
    by (auto simp: list_peer_conns_def filter_empty_conv list_ex_iff)
  have map_get: "dm_get (map (\<lambda>(p, peer). (p, f peer)) m) k = map_option f (dm_get m k)" for f :: "Peer \<Rightarrow> Peer" and m and k :: PeerId
    by (simp add: dm_get_def map_of_map)
  have dead: "p \<in> set ?dead \<longleftrightarrow> (\<exists>peer. dm_get (pm_peer_map pm) p = Some peer \<and> snd (list_peer_conns peer) = [])"
    using dm_get_in_set [OF assms] by force
  show ?thesis
    unfolding clean_peer_without_conn_def Let_def list_all_conns_def
    using dead by (auto simp: dm.get_fold_del map_get live simp del: set_map)
qed

end
