(* ===== verification/AclFilter.thy ===== *)
theory AclFilter
  imports AclDecision PacketView
begin

text \<open>
  The access control filter of the packet pipeline (\<open>src/app/src/peers/acl_filter.rs\<close>): it reads addresses, protocol and
  ports out of a packet, picks the chain, asks the processor and counts the outcome.

  The packet views of the \<open>pnet\<close> library are the parameter \<open>PnetLib\<close>: what its IPv4, IPv6, TCP and UDP views return
  for a byte string, nothing if it is too short for the fixed header. \<open>groups\<close> are the groups the route knows for a peer.
\<close>

record Ipv4View =
  v4_version :: nat
  v4_source :: u32
  v4_destination :: u32
  v4_next_level_protocol :: u8
  v4_payload :: "byte list"

record Ipv6View =
  v6_source :: "128 word"
  v6_destination :: "128 word"
  v6_next_header :: u8
  v6_payload :: "byte list"

record PnetLib =
  pn_ipv4 :: "byte list \<Rightarrow> Ipv4View option"
  pn_ipv6 :: "byte list \<Rightarrow> Ipv6View option"
  pn_tcp_ports :: "byte list \<Rightarrow> (u16 \<times> u16) option"
  pn_udp_ports :: "byte list \<Rightarrow> (u16 \<times> u16) option"

record ('c4, 'c6) AclFilter =
  af_processor :: "('c4, 'c6) AclProcessor"
  af_enabled :: bool
  af_quic_udp_port :: u16

section \<open>Construction and reload\<close>

definition acl_filter_new :: "('c4, 'c6) CidrLib \<Rightarrow> ('c4, 'c6) AclFilter" where
  "acl_filter_new lib =
     \<lparr>af_processor = acl_processor_new lib \<lparr>acl_v1 = None\<rparr>, af_enabled = False, af_quic_udp_port = 0\<rparr>"

definition reload_rules :: "('c4, 'c6) CidrLib \<Rightarrow> Acl option \<Rightarrow> ('c4, 'c6) AclFilter \<Rightarrow> ('c4, 'c6) AclFilter" where
  "reload_rules lib acl_config af =
     (case acl_config of
        None \<Rightarrow> af\<lparr>af_enabled := False\<rparr>
      | Some cfg \<Rightarrow>
          (let (conn_track, rate_limiters, stats) = get_shared_state (af_processor af)
           in af\<lparr>af_processor := new_with_shared_state lib cfg (Some conn_track) (Some rate_limiters) (Some stats),
                 af_enabled := True\<rparr>))"

definition set_quic_udp_port :: "u16 \<Rightarrow> ('c4, 'c6) AclFilter \<Rightarrow> ('c4, 'c6) AclFilter" where
  "set_quic_udp_port port af = af\<lparr>af_quic_udp_port := port\<rparr>"

record AclStats =
  as_global :: "(AclStatKey, u64) dmap"
  as_conn_track :: "ConnTrackEntry list"
  as_rules :: "RuleStats option list"

definition filter_get_stats :: "('c4, 'c6) AclFilter \<Rightarrow> AclStats" where
  "filter_get_stats af =
     (let (conn_track, _, _) = get_shared_state (af_processor af)
      in \<lparr>as_global = get_stats (af_processor af), as_conn_track = map snd conn_track,
          as_rules = get_rules_stats (af_processor af)\<rparr>)"

section \<open>Reading a packet\<close>

definition transport_ports :: "PnetLib \<Rightarrow> u8 \<Rightarrow> byte list \<Rightarrow> (u16 option \<times> u16 option) option" where
  "transport_ports pn proto pl =
     (if proto = 6 then map_option (\<lambda>(s, d). (Some s, Some d)) (pn_tcp_ports pn pl)
      else if proto = 17 then map_option (\<lambda>(s, d). (Some s, Some d)) (pn_udp_ports pn pl)
      else Some (None, None))"

definition acl_protocol :: "u8 \<Rightarrow> Protocol" where
  "acl_protocol proto =
     (if proto = 6 then Tcp else if proto = 17 then Udp else if proto = 1 then Icmp
      else if proto = 58 then IcmPv6 else ProtoUnspecified)"

definition ip_fields :: "PnetLib \<Rightarrow> byte list \<Rightarrow> (IpAddr \<times> IpAddr \<times> u8 \<times> u16 option \<times> u16 option) option" where
  "ip_fields pn pl =
     (case pn_ipv4 pn pl of
        None \<Rightarrow> None
      | Some v4 \<Rightarrow>
          if v4_version v4 = 4
          then map_option (\<lambda>(s, d). (V4 (v4_source v4), V4 (v4_destination v4), v4_next_level_protocol v4, s, d))
                 (transport_ports pn (v4_next_level_protocol v4) (v4_payload v4))
          else if v4_version v4 = 6
          then (case pn_ipv6 pn pl of
                  None \<Rightarrow> None
                | Some v6 \<Rightarrow>
                    map_option (\<lambda>(s, d). (V6 (v6_source v6), V6 (v6_destination v6), v6_next_header v6, s, d))
                      (transport_ports pn (v6_next_header v6) (v6_payload v6)))
          else None)"

definition peer_groups_of :: "(u32 \<Rightarrow> string list) \<Rightarrow> u32 option \<Rightarrow> string list" where
  "peer_groups_of groups peer = (case peer of Some p \<Rightarrow> groups p | None \<Rightarrow> [])"

definition extract_packet_info :: "PnetLib \<Rightarrow> (u32 \<Rightarrow> string list) \<Rightarrow> ZCPacket \<Rightarrow> PacketInfo option rust" where
  "extract_packet_info pn groups packet =
     rbind (payload packet) (\<lambda>pl.
       case ip_fields pn pl of
         None \<Rightarrow> Inr None
       | Some (src, dst, proto, sport, dport) \<Rightarrow>
           rbind (get_src_peer_id packet) (\<lambda>from.
           rmap (\<lambda>to. Some \<lparr>pi_src_ip = src, pi_dst_ip = dst, pi_src_port = sport, pi_dst_port = dport,
                    pi_protocol = acl_protocol proto, pi_packet_size = length pl,
                    pi_src_groups = peer_groups_of groups from, pi_dst_groups = peer_groups_of groups to\<rparr>)
             (get_dst_peer_id_of packet)))"

section \<open>Processing\<close>

definition bump_all :: "AclStatKey list \<Rightarrow> ('c4, 'c6) AclProcessor \<Rightarrow> ('c4, 'c6) AclProcessor rust" where
  "bump_all keys ap = fold (\<lambda>k m. rbind m (increment_stat k)) keys (Inr ap)"

definition handle_acl_result :: "AclResult \<Rightarrow> ChainType \<Rightarrow> ('c4, 'c6) AclProcessor \<Rightarrow> ('c4, 'c6) AclProcessor rust" where
  "handle_acl_result r ct ap =
     (let outcome = (case ar_action r of
                       Allow \<Rightarrow> [PacketsAllowed, from_chain_and_action ct Allowed]
                     | Drop \<Rightarrow> [PacketsDropped, from_chain_and_action ct Dropped]
                     | Noop \<Rightarrow> [PacketsNoop, from_chain_and_action ct NoopStat])
      in bump_all (outcome @ [from_chain_and_action ct Total, PacketsTotal]) ap)"

definition is_my_address :: "u32 option \<Rightarrow> (128 word) option \<Rightarrow> IpAddr \<Rightarrow> bool" where
  "is_my_address my_ipv4 my_ipv6 ip \<longleftrightarrow>
     ip = V4 (case my_ipv4 of Some a \<Rightarrow> a | None \<Rightarrow> 0) \<or> ip = V6 (case my_ipv6 of Some a \<Rightarrow> a | None \<Rightarrow> 0)"

definition check_is_quic_packet ::
  "('c4, 'c6) AclFilter \<Rightarrow> PacketInfo \<Rightarrow> u32 option \<Rightarrow> (128 word) option \<Rightarrow> bool" where
  "check_is_quic_packet af p my_ipv4 my_ipv6 \<longleftrightarrow>
     pi_protocol p = Udp \<and> af_quic_udp_port af \<noteq> 0 \<and>
     (pi_dst_port p = Some (af_quic_udp_port af) \<and> is_my_address my_ipv4 my_ipv6 (pi_dst_ip p) \<or>
      pi_src_port p = Some (af_quic_udp_port af) \<and> is_my_address my_ipv4 my_ipv6 (pi_src_ip p))"

definition chain_of :: "bool \<Rightarrow> u32 option \<Rightarrow> (128 word) option \<Rightarrow> PacketInfo \<Rightarrow> ChainType" where
  "chain_of is_in my_ipv4 my_ipv6 p =
     (if is_in then (if is_my_address my_ipv4 my_ipv6 (pi_dst_ip p) then Inbound else Forward) else Outbound)"

text \<open>The rules are asked and the outcome is counted.\<close>

definition ask_rules ::
  "('c4, 'c6) CidrLib \<Rightarrow> nat \<Rightarrow> ChainType \<Rightarrow> PacketInfo \<Rightarrow> ('c4, 'c6) AclFilter \<Rightarrow> (('c4, 'c6) AclFilter \<times> bool) rust" where
  "ask_rules lib now ct p af =
     rbind (process_packet lib now p ct (af_processor af)) (\<lambda>(ap1, r).
       rmap (\<lambda>ap2. (af\<lparr>af_processor := ap2\<rparr>, ar_action r \<noteq> Drop)) (handle_acl_result r ct ap1))"

definition process_packet_with_acl ::
  "('c4, 'c6) CidrLib \<Rightarrow> PnetLib \<Rightarrow> (u32 \<Rightarrow> string list) \<Rightarrow> nat \<Rightarrow> ZCPacket \<Rightarrow> bool \<Rightarrow> u32 option \<Rightarrow> (128 word) option
    \<Rightarrow> ('c4, 'c6) AclFilter \<Rightarrow> (('c4, 'c6) AclFilter \<times> bool) rust" where
  "process_packet_with_acl lib pn groups now packet is_in my_ipv4 my_ipv6 af =
     (if \<not> af_enabled af then Inr (af, True)
      else rbind (pm_header_unwrap packet) (\<lambda>h.
        if packet_type h \<noteq> packet_type_u8 PData then Inr (af, True)
        else rbind (extract_packet_info pn groups packet) (\<lambda>info.
          case info of
            None \<Rightarrow> Inr (af, True)
          | Some p \<Rightarrow>
              if check_is_quic_packet af p my_ipv4 my_ipv6 then Inr (af, True)
              else ask_rules lib now (chain_of is_in my_ipv4 my_ipv6 p) p af)))"

section \<open>What the filter enforces\<close>

lemma transport_ports_some:
  "transport_ports pn proto pl = Some (s, d) \<Longrightarrow> (s \<noteq> None) = (proto = 6 \<or> proto = 17) \<and> (d \<noteq> None) = (proto = 6 \<or> proto = 17)"
  by (auto simp: transport_ports_def split: if_splits)

lemma acl_protocol_ports: "acl_protocol proto \<in> {Tcp, Udp} \<longleftrightarrow> proto = 6 \<or> proto = 17"
  by (simp add: acl_protocol_def)

lemma ip_fields_ports:
  "ip_fields pn pl = Some (src, dst, proto, s, d) \<Longrightarrow> (s \<noteq> None) = (proto = 6 \<or> proto = 17) \<and> (d \<noteq> None) = (proto = 6 \<or> proto = 17)"
  by (auto simp: ip_fields_def split: option.splits if_splits dest!: transport_ports_some)

lemma extracted_well_ported:
  assumes "extract_packet_info pn groups packet = Inr (Some p)"
  shows "well_ported p"
proof -
  from assms obtain pl src dst proto s d where "ip_fields pn pl = Some (src, dst, proto, s, d)"
    and "pi_src_port p = s" "pi_dst_port p = d" "pi_protocol p = acl_protocol proto"
    by (auto simp: extract_packet_info_def rust_Inr split: option.splits)
  then show ?thesis unfolding well_ported_def using ip_fields_ports acl_protocol_ports by metis
qed

lemma bump_all_Cons: "bump_all (k # ks) ap = rbind (increment_stat k ap) (bump_all ks)"
proof -
  have "fold (\<lambda>k m. rbind m (increment_stat k)) ks (Inl e) = Inl e" for e by (induction ks) simp_all
  then show ?thesis by (cases "increment_stat k ap") (simp_all add: bump_all_def)
qed

lemma bump_all_Nil: "bump_all [] ap = Inr ap"
  by (simp add: bump_all_def)

lemma bump_all_steps: "bump_all ks ap = Inr ap' \<Longrightarrow> (acl_step lib)\<^sup>*\<^sup>* ap ap'"
proof (induction ks arbitrary: ap)
  case (Cons k ks)
  then obtain ap1 where "increment_stat k ap = Inr ap1" "bump_all ks ap1 = Inr ap'" by (auto simp: bump_all_Cons rust_Inr)
  with Cons.IH show ?case by (meson converse_rtranclp_into_rtranclp step_stat)
qed (simp add: bump_all_Nil)

text \<open>The states a filter can reach.\<close>

inductive filter_reachable ::
  "('c4, 'c6) CidrLib \<Rightarrow> PnetLib \<Rightarrow> ('c4, 'c6) AclFilter \<Rightarrow> bool" for lib pn where
  filter_start: "filter_reachable lib pn (acl_filter_new lib)"
| filter_reload: "filter_reachable lib pn af \<Longrightarrow> filter_reachable lib pn (reload_rules lib cfg af)"
| filter_quic: "filter_reachable lib pn af \<Longrightarrow> filter_reachable lib pn (set_quic_udp_port port af)"
| filter_packet: "filter_reachable lib pn af \<Longrightarrow>
    process_packet_with_acl lib pn groups now packet is_in my_ipv4 my_ipv6 af = Inr (af', ok) \<Longrightarrow> filter_reachable lib pn af'"
| filter_task: "filter_reachable lib pn af \<Longrightarrow> acl_step lib (af_processor af) ap \<Longrightarrow>
    filter_reachable lib pn (af\<lparr>af_processor := ap\<rparr>)"

lemma ask_rules_steps:
  assumes "well_ported p" and "ask_rules lib now ct p af = Inr (af', ok)"
  shows "(acl_step lib)\<^sup>*\<^sup>* (af_processor af) (af_processor af')"
proof -
  from assms(2) obtain ap1 r ap2 where 1: "process_packet lib now p ct (af_processor af) = Inr (ap1, r)"
    and 2: "handle_acl_result r ct ap1 = Inr ap2" and 3: "af' = af\<lparr>af_processor := ap2\<rparr>"
    by (auto simp: ask_rules_def rust_Inr)
  have "acl_step lib (af_processor af) ap1" using assms(1) 1 by (rule step_packet)
  moreover have "(acl_step lib)\<^sup>*\<^sup>* ap1 ap2" using 2 by (auto simp: handle_acl_result_def Let_def intro: bump_all_steps)
  ultimately show ?thesis by (simp add: 3)
qed

lemma processed_cases:
  assumes "process_packet_with_acl lib pn groups now packet is_in my_ipv4 my_ipv6 af = Inr (af', ok)"
  obtains "af' = af" "ok"
  | p where "extract_packet_info pn groups packet = Inr (Some p)"
      and "ask_rules lib now (chain_of is_in my_ipv4 my_ipv6 p) p af = Inr (af', ok)"
  using assms unfolding process_packet_with_acl_def rust_Inr
  by (auto simp: rust_Inr split: if_splits option.splits)

lemma processed_steps:
  assumes "process_packet_with_acl lib pn groups now packet is_in my_ipv4 my_ipv6 af = Inr (af', ok)"
  shows "(acl_step lib)\<^sup>*\<^sup>* (af_processor af) (af_processor af')"
  by (rule processed_cases [OF assms]) (auto intro: ask_rules_steps extracted_well_ported)

lemma filter_reachable_inv: "filter_reachable lib pn af \<Longrightarrow> acl_inv lib (af_processor af)"
proof (induction rule: filter_reachable.induct)
  case filter_start
  then show ?case by (simp add: acl_filter_new_def acl_processor_new_def acl_inv_new)
next
  case (filter_reload af cfg)
  then show ?case
    by (auto simp: reload_rules_def split: option.split prod.split intro: acl_inv_step [OF step_reload])
next
  case (filter_packet af groups now packet is_in my_ipv4 my_ipv6 af' ok)
  then show ?case using acl_inv_reachable processed_steps by blast
qed (auto simp: set_quic_udp_port_def intro: acl_inv_step)


definition example_pnet :: PnetLib where
  "example_pnet = \<lparr>
     pn_ipv4 = (\<lambda>pl. Some \<lparr>v4_version = 4, v4_source = 1, v4_destination = 2, v4_next_level_protocol = 6, v4_payload = drop 20 pl\<rparr>),
     pn_ipv6 = (\<lambda>_. None), pn_tcp_ports = (\<lambda>_. Some (5000, 80)), pn_udp_ports = (\<lambda>_. None)\<rparr>"

definition example_data_hdr :: PeerManagerHeader where
  "example_data_hdr = (pm_hdr_of (replicate 16 0))\<lparr>packet_type := 1\<rparr>"

definition example_data_packet :: ZCPacket where
  "example_data_packet = new_from_buf \<lparr>bm_data = pm_hdr_bytes example_data_hdr @ replicate 60 0, bm_cap = 76\<rparr> DummyTunnel"

lemma example_data_shows: "shows_as example_data_packet DummyTunnel example_data_hdr (replicate 60 0)"
proof -
  have len: "length (pm_hdr_bytes example_data_hdr) = PEER_MANAGER_HEADER_SIZE" by (rule pm_hdr.enc_length) simp
  have "pm_hdr_of (pm_hdr_bytes example_data_hdr) = example_data_hdr" by (rule pm_hdr.dec_enc) simp
  with len show ?thesis by (simp add: shows_as_bytes example_data_packet_def new_from_buf_def payload_offset_def)
qed

lemma example_extract: "extract_packet_info example_pnet (\<lambda>_. []) example_data_packet = Inr (Some example_packet)"
proof -
  have "peer_manager_header example_data_packet = Inr (Some example_data_hdr)" using example_data_shows by (simp add: shows_as_def)
  then show ?thesis
    by (simp add: extract_packet_info_def shows_as_payload [OF example_data_shows] ip_fields_def example_pnet_def
        transport_ports_def get_src_peer_id_def get_dst_peer_id_of_def peer_groups_of_def acl_protocol_def example_packet_def)
qed

definition example_filter :: "(unit, unit) AclFilter" where
  "example_filter = reload_rules example_lib (Some example_acl) (acl_filter_new example_lib)"

lemma example_filter_state:
  "af_processor example_filter = acl_processor_new example_lib example_acl" "af_enabled example_filter" "af_quic_udp_port example_filter = 0"
  by (simp_all add: example_filter_def reload_rules_def get_shared_state_def acl_filter_new_def acl_processor_new_def
      new_with_shared_state_def split_beta)

lemma example_decides:
  "ar_action (acl_decide example_lib (acl_processor_new example_lib example_acl) example_packet Inbound) = Allow"
  "\<not> rate_limited example_lib (acl_processor_new example_lib example_acl) example_packet Inbound"
  by (simp_all add: acl_decide_def rate_limited_def example_new rules_of_def first_match_def example_matches del: One_nat_def)
    (simp_all add: example_compiled rule_result_def del: One_nat_def)


end
