(* ===== verification/Compressor.thy ===== *)
theory Compressor
  imports PacketView
begin

text \<open>
  Compression of packets and of messages (\<open>src/app/src/common/compressor.rs\<close>, the algorithm conversions of
  \<open>src/app/src/proto/common.rs\<close>). The \<open>zstd\<close> library is the parameter \<open>ZstdLib\<close>: one-shot compression, and decompression into
  a buffer of a given capacity. What the code relies on is \<open>zstd_ok\<close>: what was compressed is decompressed when the buffer can hold
  it, and otherwise the library reports that the buffer is too small.
\<close>

datatype ZstdError = BufferTooSmall | OtherZstdError

record ZstdLib =
  zs_compress :: "byte list \<Rightarrow> byte list option"
  zs_decompress :: "byte list \<Rightarrow> nat \<Rightarrow> ZstdError + byte list"

definition zstd_ok :: "ZstdLib \<Rightarrow> bool" where
  "zstd_ok lib \<longleftrightarrow>
     (\<forall>x c cap. zs_compress lib x = Some c \<longrightarrow>
        zs_decompress lib c cap = (if length x \<le> cap then Inr x else Inl BufferTooSmall))"

datatype CompressError =
    CompressFailed | DecompressFailed | AttemptsExhausted | PacketTooShort | UnknownAlgo | LengthMismatch | InvalidAlgoPb

section \<open>Raw data\<close>

definition compress_raw :: "ZstdLib \<Rightarrow> byte list \<Rightarrow> CompressorAlgo \<Rightarrow> CompressError + byte list" where
  "compress_raw lib data algo =
     (case algo of
        ZstdDefault \<Rightarrow> (case zs_compress lib data of Some c \<Rightarrow> Inr c | None \<Rightarrow> Inl CompressFailed)
      | CNone \<Rightarrow> Inr data)"

definition attempt_len :: "byte list \<Rightarrow> nat \<Rightarrow> nat" where
  "attempt_len data i =
     (let len = length data * 2 ^ i in if i = 5 \<and> len < 64 * 1024 then 64 * 1024 else len)"

text \<open>The loop \<open>for i in 1..=5\<close>.\<close>

fun decompress_attempts :: "ZstdLib \<Rightarrow> byte list \<Rightarrow> nat list \<Rightarrow> CompressError + byte list" where
  "decompress_attempts lib data [] = Inl AttemptsExhausted"
| "decompress_attempts lib data (i # is) =
     (case zs_decompress lib data (attempt_len data i) of
        Inr buf \<Rightarrow> Inr buf
      | Inl BufferTooSmall \<Rightarrow> decompress_attempts lib data is
      | Inl OtherZstdError \<Rightarrow> Inl DecompressFailed)"

definition decompress_raw :: "ZstdLib \<Rightarrow> byte list \<Rightarrow> CompressorAlgo \<Rightarrow> CompressError + byte list" where
  "decompress_raw lib data algo =
     (case algo of ZstdDefault \<Rightarrow> decompress_attempts lib data [1..<6] | CNone \<Rightarrow> Inr data)"

text \<open>The largest message the five attempts can restore.\<close>

definition max_restored :: "byte list \<Rightarrow> nat" where
  "max_restored data = max (length data * 32) 65536"

lemma attempts_restore:
  assumes "zstd_ok lib" and "zs_compress lib x = Some c"
  shows "decompress_attempts lib c is = (if \<exists>i \<in> set is. length x \<le> attempt_len c i then Inr x else Inl AttemptsExhausted)"
proof (induction "is")
  case (Cons i "is")
  from assms have "zs_decompress lib c (attempt_len c i) = (if length x \<le> attempt_len c i then Inr x else Inl BufferTooSmall)"
    by (simp add: zstd_ok_def)
  with Cons show ?case by simp
qed simp

lemma attempts_reach: "(\<exists>i \<in> set [1..<6]. n \<le> attempt_len c i) \<longleftrightarrow> n \<le> max_restored c"
proof -
  have "attempt_len c i \<le> max_restored c" if "i \<in> set [1..<6]" for i
  proof -
    from that have "i \<in> {1, 2, 3, 4, 5}" by auto
    then show ?thesis by (auto simp: attempt_len_def max_restored_def Let_def)
  qed
  moreover have "attempt_len c 5 = max_restored c" by (simp add: attempt_len_def max_restored_def Let_def)
  moreover have "5 \<in> set [1..<6]" by simp
  ultimately show ?thesis by (metis order_trans)
qed

lemma decompress_compressed:
  assumes "zstd_ok lib" and "zs_compress lib x = Some c"
  shows "decompress_raw lib c ZstdDefault = (if length x \<le> max_restored c then Inr x else Inl AttemptsExhausted)"
  using attempts_restore [OF assms, of "[1..<6]"] attempts_reach [of "length x" c] by (simp add: decompress_raw_def)

section \<open>Packets\<close>

definition tail_bytes :: "CompressorTail \<Rightarrow> byte list" where
  "tail_bytes t = [tail_algo t]"

definition tail_of_suffix :: "byte list \<Rightarrow> CompressorTail" where
  "tail_of_suffix pl = \<lparr>tail_algo = last pl\<rparr>"

definition compress_zc :: "ZstdLib \<Rightarrow> CompressorAlgo \<Rightarrow> ZCPacket \<Rightarrow> (CompressError + ZCPacket) rust" where
  "compress_zc lib algo p =
     (if algo = CNone then Inr (Inr p)
      else rbind (pm_header_unwrap p) (\<lambda>h.
        if is_compressed h then Inr (Inr p)
        else rbind (payload p) (\<lambda>pl.
          case compress_raw lib pl algo of
            Inl e \<Rightarrow> Inr (Inl e)
          | Inr buf \<Rightarrow>
              if length buf + COMPRESSOR_TAIL_SIZE > unat (hdr_len h) then Inr (Inr p)
              else rmap (\<lambda>p1. Inr (extend_inner (tail_bytes (compressor_tail_new algo))
                                     (extend_inner buf (truncate_inner (payload_offset p1) p1))))
                     (with_pm_header (set_compressed True) p))))"

definition decompress_zc :: "ZstdLib \<Rightarrow> ZCPacket \<Rightarrow> (CompressError + ZCPacket) rust" where
  "decompress_zc lib p =
     rbind (pm_header_unwrap p) (\<lambda>h.
       if \<not> is_compressed h then Inr (Inr p)
       else rbind (payload p) (\<lambda>pl.
         if length pl < COMPRESSOR_TAIL_SIZE then Inr (Inl PacketTooShort)
         else (case compressor_tail_get_algo (tail_of_suffix pl) of
                 None \<Rightarrow> Inr (Inl UnknownAlgo)
               | Some algo \<Rightarrow>
                   (case decompress_raw lib (take (length pl - COMPRESSOR_TAIL_SIZE) pl) algo of
                      Inl e \<Rightarrow> Inr (Inl e)
                    | Inr buf \<Rightarrow>
                        if length buf \<noteq> unat (hdr_len h) then Inr (Inl LengthMismatch)
                        else rmap (\<lambda>p1. Inr (extend_inner buf (truncate_inner (payload_offset p1) p1)))
                               (with_pm_header (set_compressed False) p)))))"

lemma replace_payload:
  assumes "shows_as p t h pl"
  shows "shows_as (extend_inner buf (truncate_inner (payload_offset p) p)) t h buf"
  using shows_as_extend [OF shows_as_truncate [OF assms, of "payload_offset p" 0]] by simp

lemma is_compressed_set: "is_compressed (set_compressed b h) = b"
  using flag_contains_put [of COMPRESSED COMPRESSED b "flags h"]
  by (simp add: flag_op_defs flag_defs)

lemma bit_exp_u8: "k < 8 \<Longrightarrow> bit ((2 :: u8) ^ k) n \<longleftrightarrow> n = k"
  by (auto simp: bit_exp_iff possible_bit_def)

text \<open>Setting a flag that was clear and clearing it again restores the flag byte.\<close>

lemma flag_put_undo:
  assumes "m = (2 :: u8) ^ k" and "k < 8" and "\<not> flag_contains bits m"
  shows "flag_put m False (flag_put m True bits) = bits"
proof -
  have m: "bit m n \<longleftrightarrow> n = k" for n by (simp only: assms(1) bit_exp_u8 [OF assms(2)])
  have "\<not> bit bits k"
  proof
    assume "bit bits k"
    then have "bits AND m = m" by (intro bit_word_eqI) (auto simp: bit_simps m)
    with assms(3) show False by (simp add: flag_contains_def)
  qed
  then show ?thesis by (intro bit_word_eqI) (auto simp: flag_put_def bit_simps m)
qed

lemma flag_put_clear: "\<not> flag_contains bits m \<Longrightarrow> m = (2 :: u8) ^ k \<Longrightarrow> k < 8 \<Longrightarrow> flag_put m False bits = bits"
proof -
  assume *: "\<not> flag_contains bits m" "m = 2 ^ k" "k < 8"
  have m: "bit m n \<longleftrightarrow> n = k" for n by (simp only: *(2) bit_exp_u8 [OF *(3)])
  have "\<not> bit bits k"
  proof
    assume "bit bits k"
    then have "bits AND m = m" by (intro bit_word_eqI) (auto simp: bit_simps m)
    with *(1) show False by (simp add: flag_contains_def)
  qed
  then show ?thesis by (intro bit_word_eqI) (auto simp: flag_put_def bit_simps m)
qed

lemma set_compressed_clear: "\<not> is_compressed h \<Longrightarrow> set_compressed False h = h"
  by (simp add: set_compressed_def is_compressed_def flag_put_clear [of _ _ 4] COMPRESSED_def)

text \<open>
  \<open>restores\<close>: every packet with the payload \<open>pl1\<close> and the given state of the compressed flag is decompressed to the payload \<open>pl\<close>, with the flag
  cleared. It speaks of the payload and two header fields alone, so it covers packets that were encrypted, relayed and converted on
  the way.
\<close>

definition restores :: "ZstdLib \<Rightarrow> u32 \<Rightarrow> bool \<Rightarrow> byte list \<Rightarrow> byte list \<Rightarrow> bool" where
  "restores lib len compressed pl1 pl \<longleftrightarrow>
     (\<forall>q t h. shows_as q t h pl1 \<longrightarrow> is_compressed h = compressed \<longrightarrow> hdr_len h = len \<longrightarrow>
        (\<exists>p. decompress_zc lib q = Inr (Inr p) \<and> shows_as p t (set_compressed False h) pl))"

lemma restoresD:
  "restores lib len b pl1 pl \<Longrightarrow> shows_as q t h pl1 \<Longrightarrow> is_compressed h = b \<Longrightarrow> hdr_len h = len \<Longrightarrow>
     \<exists>p. decompress_zc lib q = Inr (Inr p) \<and> shows_as p t (set_compressed False h) pl"
  by (simp add: restores_def)

lemma hdr_len_set_compressed [simp]: "hdr_len (set_compressed b h) = hdr_len h"
  by (simp add: set_compressed_def)

lemma restores_plain: "restores lib len False pl pl"
  by (auto simp: restores_def decompress_zc_def shows_as_header set_compressed_clear)

lemma restores_compressed:
  assumes "zstd_ok lib" and "zs_compress lib pl = Some c" and "length pl \<le> 65536" and "unat len = length pl"
  shows "restores lib len True (c @ [1]) pl"
  unfolding restores_def
proof (intro allI impI)
  fix q t h
  assume q: "shows_as q t h (c @ [1])" and h: "is_compressed h = True" "hdr_len h = len"
  obtain p2 where p2: "with_pm_header (set_compressed False) q = Inr p2" "shows_as p2 t (set_compressed False h) (c @ [1])"
    using shows_as_with_header [OF q, of "set_compressed False"] by blast
  have "decompress_raw lib c ZstdDefault = Inr pl"
    using decompress_compressed [OF assms(1,2)] assms(3) by (simp add: max_restored_def)
  then have "decompress_zc lib q = Inr (Inr (extend_inner pl (truncate_inner (payload_offset p2) p2)))"
    using assms(4) p2(1) h
    by (simp add: decompress_zc_def shows_as_header [OF q] shows_as_payload [OF q]
        COMPRESSOR_TAIL_SIZE_def tail_of_suffix_def compressor_tail_get_algo_def)
  then show "\<exists>p. decompress_zc lib q = Inr (Inr p) \<and> shows_as p t (set_compressed False h) pl"
    using replace_payload [OF p2(2)] by blast
qed

lemma compress_zc_undone:
  assumes "zstd_ok lib" and "shows_as p t h pl" and "\<not> is_compressed h" and "unat (hdr_len h) = length pl"
    and "length pl \<le> 65536"
  shows "(\<exists>e. compress_zc lib algo p = Inr (Inl e)) \<or>
    (\<exists>q b pl1. compress_zc lib algo p = Inr (Inr q) \<and> shows_as q t (set_compressed b h) pl1 \<and>
       restores lib (hdr_len h) b pl1 pl)"
proof -
  note run = compress_zc_def shows_as_header [OF assms(2)] shows_as_payload [OF assms(2)]
  have kept: ?thesis if "compress_zc lib algo p = Inr (Inr p)"
    using that assms(2,3) restores_plain set_compressed_clear by metis
  show ?thesis
  proof (cases "algo = CNone")
    case True
    then show ?thesis by (intro kept) (simp add: compress_zc_def)
  next
    case False
    then have algo: "algo = ZstdDefault" by (cases algo) simp_all
    show ?thesis
    proof (cases "zs_compress lib pl")
      case None
      then show ?thesis using assms(3) algo by (simp add: run compress_raw_def)
    next
      case (Some c)
      show ?thesis
      proof (cases "length c + COMPRESSOR_TAIL_SIZE > unat (hdr_len h)")
        case True
        with Some algo assms(3) show ?thesis by (intro kept) (simp add: run compress_raw_def)
      next
        case False
        obtain p1 where p1: "with_pm_header (set_compressed True) p = Inr p1" "shows_as p1 t (set_compressed True h) pl"
          using shows_as_with_header [OF assms(2)] by blast
        let ?q = "extend_inner (tail_bytes (compressor_tail_new algo)) (extend_inner c (truncate_inner (payload_offset p1) p1))"
        have "shows_as ?q t (set_compressed True h) (c @ [1])"
          using shows_as_extend [OF replace_payload [OF p1(2)]] by (simp add: algo tail_bytes_def compressor_tail_new_def)
        moreover have "compress_zc lib algo p = Inr (Inr ?q)"
          using assms(3) False Some algo p1(1) by (simp add: run compress_raw_def)
        ultimately show ?thesis using restores_compressed [OF assms(1) Some assms(5,4)] by blast
      qed
    qed
  qed
qed

lemma set_compressed_undo: "\<not> is_compressed h \<Longrightarrow> set_compressed False (set_compressed b h) = h"
  by (cases b) (simp_all add: set_compressed_clear set_compressed_def is_compressed_def flag_put_undo [of _ 4] flag_put_clear [of _ _ 4] COMPRESSED_def)

text \<open>
  Packet compression loses nothing. A packet whose header carries the length of its payload, compressed by one node and
  decompressed by another, comes back with the same header and payload, whether or not the compressor
  found it worth compressing, provided its payload is at most 64 KiB.
\<close>

theorem packet_compression_roundtrip:
  assumes "zstd_ok lib" and "shows_as p t h pl" and "\<not> is_compressed h" and "unat (hdr_len h) = length pl"
    and "length pl \<le> 65536"
  shows "(\<exists>e. compress_zc lib algo p = Inr (Inl e)) \<or>
    (\<exists>q p'. compress_zc lib algo p = Inr (Inr q) \<and> decompress_zc lib q = Inr (Inr p') \<and> shows_as p' t h pl)"
  using compress_zc_undone [OF assms, of algo]
proof
  assume "\<exists>q b pl1. compress_zc lib algo p = Inr (Inr q) \<and> shows_as q t (set_compressed b h) pl1 \<and> restores lib (hdr_len h) b pl1 pl"
  then obtain q b pl1 where q: "compress_zc lib algo p = Inr (Inr q)" "shows_as q t (set_compressed b h) pl1"
    and "restores lib (hdr_len h) b pl1 pl" by blast
  then have "\<exists>p'. decompress_zc lib q = Inr (Inr p') \<and> shows_as p' t (set_compressed False (set_compressed b h)) pl"
    by (intro restoresD) (simp_all add: is_compressed_set)
  with q assms(3) show ?thesis by (auto simp: set_compressed_undo)
qed blast

text \<open>A library that packs runs of zeros, for the examples.\<close>

definition example_zstd :: ZstdLib where
  "example_zstd = \<lparr>
     zs_compress = (\<lambda>x. Some (if length x < 256 \<and> (\<forall>b \<in> set x. b = 0) then [0, of_nat (length x)] else 1 # x)),
     zs_decompress = (\<lambda>c cap.
       let x = (if hd c = 0 then replicate (unat (c ! 1)) 0 else tl c)
       in if length x \<le> cap then Inr x else Inl BufferTooSmall)\<rparr>"

lemma example_zstd_ok: "zstd_ok example_zstd"
  by (auto simp: zstd_ok_def example_zstd_def Let_def unat_of_nat replicate_length_same)

definition example_zeros :: ZCPacket where
  "example_zeros = new_from_buf \<lparr>bm_data = pm_hdr_bytes ((pm_hdr_of (replicate 16 0))\<lparr>hdr_len := 9\<rparr>) @ replicate 9 0, bm_cap = 25\<rparr> DummyTunnel"

lemma example_zeros_shows:
  "shows_as example_zeros DummyTunnel ((pm_hdr_of (replicate 16 0))\<lparr>hdr_len := 9\<rparr>) (replicate 9 0)"
proof -
  let ?h = "(pm_hdr_of (replicate 16 0))\<lparr>hdr_len := 9\<rparr>"
  have len: "length (pm_hdr_bytes ?h) = PEER_MANAGER_HEADER_SIZE" by (rule pm_hdr.enc_length) simp
  have "pm_hdr_of (pm_hdr_bytes ?h) = ?h" by (rule pm_hdr.dec_enc) simp
  with len show ?thesis by (simp add: shows_as_bytes example_zeros_def new_from_buf_def payload_offset_def)
qed

theorem packet_compression_roundtrip_witness:
  "\<exists>q p'. compress_zc example_zstd ZstdDefault example_zeros = Inr (Inr q) \<and> decompress_zc example_zstd q = Inr (Inr p') \<and>
     payload p' = Inr (replicate 9 0)"
proof -
  let ?h = "(pm_hdr_of (replicate 16 0))\<lparr>hdr_len := 9\<rparr>"
  have flags: "flags ?h = 0" by (simp add: pm_hdr_of_def)
  have "\<not> is_compressed ?h" using flags by (simp add: is_compressed_def flag_contains_def COMPRESSED_def)
  from packet_compression_roundtrip [OF example_zstd_ok example_zeros_shows this, of ZstdDefault]
  have "(\<exists>e. compress_zc example_zstd ZstdDefault example_zeros = Inr (Inl e)) \<or>
    (\<exists>q p'. compress_zc example_zstd ZstdDefault example_zeros = Inr (Inr q) \<and> decompress_zc example_zstd q = Inr (Inr p') \<and>
       shows_as p' DummyTunnel ?h (replicate 9 0))" by simp
  moreover have "compress_zc example_zstd ZstdDefault example_zeros \<noteq> Inr (Inl e)" for e
    using shows_as_with_header [OF example_zeros_shows, of "set_compressed True"]
    by (auto simp: compress_zc_def shows_as_header [OF example_zeros_shows] shows_as_payload [OF example_zeros_shows]
        compress_raw_def example_zstd_def)
  ultimately show ?thesis by (auto dest: shows_as_payload)
qed

end
