(* ===== verification/Encrypt.thy ===== *)
theory Encrypt
  imports Compressor
begin

text \<open>
  The packet encryptors (\<open>src/app/src/peers/encrypt\<close>): the null and the XOR cipher, the three ciphers that append a tag and a nonce
  (\<open>aes_gcm.rs\<close>, \<open>ring_aes_gcm.rs\<close>, \<open>ring_chacha20.rs\<close>), and the OpenSSL cipher, and the order in which the peer manager composes
  them with the compressor.

  The authenticated ciphers themselves are the parameter \<open>Aead\<close>, for one key: sealing a text under a nonce gives a text of the same
  length and a tag, opening gives the text back or fails. What the code relies on is \<open>aead_ok\<close>. The random nonce is an argument. An
  encryptor that fails leaves the packet to be dropped by its caller, so the error value carries no packet.
\<close>

datatype EncryptError = EncPacketTooShort nat | DecryptionFailed | EncryptionFailed | InvalidTag "byte list"

type_synonym packet_op = "ZCPacket \<Rightarrow> (EncryptError + ZCPacket) rust"

record Aead =
  ae_seal :: "byte list \<Rightarrow> byte list \<Rightarrow> (byte list \<times> byte list) option"
  ae_open :: "byte list \<Rightarrow> byte list \<Rightarrow> byte list \<Rightarrow> byte list option"

definition aead_ok :: "Aead \<Rightarrow> bool" where
  "aead_ok lib \<longleftrightarrow>
     (\<forall>nonce text c tag. ae_seal lib nonce text = Some (c, tag) \<longrightarrow>
        length c = length text \<and> length tag = 16 \<and> ae_open lib nonce c tag = Some text)"

section \<open>Null and XOR ciphers\<close>

definition null_encrypt :: packet_op where
  "null_encrypt p = Inr (Inr p)"

definition null_decrypt :: packet_op where
  "null_decrypt p =
     rmap (\<lambda>h. if is_encrypted h then Inl DecryptionFailed else Inr p) (pm_header_unwrap p)"

definition xor_cipher_new :: "byte list \<Rightarrow> byte list rust" where
  "xor_cipher_new key = (if key = [] then Inl ExplicitPanic else Inr key)"

definition xor_data :: "byte list \<Rightarrow> byte list \<Rightarrow> byte list" where
  "xor_data key data = map (\<lambda>(i, b). b XOR (key ! (i mod length key))) (List.enumerate 0 data)"

definition xor_decrypt :: "byte list \<Rightarrow> packet_op" where
  "xor_decrypt key p =
     rbind (pm_header_unwrap p) (\<lambda>h.
       if \<not> is_encrypted h then Inr (Inr p)
       else rbind (mut_payload (xor_data key) p) (\<lambda>p1. rmap Inr (with_pm_header (set_encrypted False) p1)))"

definition xor_encrypt :: "byte list \<Rightarrow> packet_op" where
  "xor_encrypt key p =
     rbind (pm_header_unwrap p) (\<lambda>h.
       if is_encrypted h then Inr (Inr p)
       else rbind (mut_payload (xor_data key) p) (\<lambda>p1. rmap Inr (with_pm_header (set_encrypted True) p1)))"

section \<open>Ciphers with a tag and a nonce\<close>

text \<open>
  \<open>AesGcmTail\<close> and \<open>ChaCha20Poly1305Tail\<close> have the same layout: sixteen bytes of tag, twelve of nonce. Opening in place leaves the
  text in front of the bytes of the tag.
\<close>

definition aead_decrypt :: "Aead \<Rightarrow> packet_op" where
  "aead_decrypt lib p =
     rbind (pm_header_unwrap p) (\<lambda>h.
       if \<not> is_encrypted h then Inr (Inr p)
       else rbind (payload p) (\<lambda>pl.
         if length pl < AES_GCM_ENCRYPTION_RESERVED then Inr (Inl (EncPacketTooShort (length pl)))
         else let text_len = length pl - AES_GCM_ENCRYPTION_RESERVED;
                  tag = take 16 (drop text_len pl);
                  nonce = drop (text_len + 16) pl
              in case ae_open lib nonce (take text_len pl) tag of
                   None \<Rightarrow> Inr (Inl DecryptionFailed)
                 | Some text \<Rightarrow>
                     rbind (mut_payload (\<lambda>pl. text @ drop text_len pl) p) (\<lambda>p1.
                     rbind (with_pm_header (set_encrypted False) p1) (\<lambda>p2.
                     rmap (\<lambda>n. Inr (truncate_inner n p2)) (checked_sub (buf_len p2) AES_GCM_ENCRYPTION_RESERVED)))))"

definition aead_encrypt :: "Aead \<Rightarrow> byte list \<Rightarrow> packet_op" where
  "aead_encrypt lib nonce p =
     rbind (pm_header_unwrap p) (\<lambda>h.
       if is_encrypted h then Inr (Inr p)
       else rbind (payload p) (\<lambda>pl.
         case ae_seal lib nonce pl of
           None \<Rightarrow> Inr (Inl EncryptionFailed)
         | Some (c, tag) \<Rightarrow>
             rbind (mut_payload (\<lambda>_. c) p) (\<lambda>p1.
             rmap (\<lambda>p2. Inr (extend_inner (tag @ nonce) p2)) (with_pm_header (set_encrypted True) p1))))"

definition aes_gcm_encrypt :: "Aead \<Rightarrow> byte list \<Rightarrow> packet_op" where
  "aes_gcm_encrypt = aead_encrypt"

definition aes_gcm_decrypt :: "Aead \<Rightarrow> packet_op" where
  "aes_gcm_decrypt = aead_decrypt"

definition ring_aes_gcm_encrypt :: "Aead \<Rightarrow> byte list \<Rightarrow> packet_op" where
  "ring_aes_gcm_encrypt = aead_encrypt"

definition ring_aes_gcm_decrypt :: "Aead \<Rightarrow> packet_op" where
  "ring_aes_gcm_decrypt = aead_decrypt"

definition ring_chacha20_encrypt :: "Aead \<Rightarrow> byte list \<Rightarrow> packet_op" where
  "ring_chacha20_encrypt = aead_encrypt"

definition ring_chacha20_decrypt :: "Aead \<Rightarrow> packet_op" where
  "ring_chacha20_decrypt = aead_decrypt"

section \<open>The OpenSSL cipher\<close>

text \<open>
  The tail is a nonce field of sixteen bytes of which twelve are used; the tag stands before it. All three ciphers are
  authenticated, so \<open>is_aead\<close> is true. The unused bytes of the nonce field are zero.
\<close>

definition OPENSSL_ENCRYPTION_RESERVED :: nat where
  "OPENSSL_ENCRYPTION_RESERVED = 16"

definition openssl_decrypt :: "Aead \<Rightarrow> packet_op" where
  "openssl_decrypt lib p =
     rbind (pm_header_unwrap p) (\<lambda>h.
       if \<not> is_encrypted h then Inr (Inr p)
       else rbind (payload p) (\<lambda>pl.
         if length pl < OPENSSL_ENCRYPTION_RESERVED then Inr (Inl (EncPacketTooShort (length pl)))
         else let nonce = take 12 (drop (length pl - OPENSSL_ENCRYPTION_RESERVED) pl)
              in rbind (checked_sub (length pl - OPENSSL_ENCRYPTION_RESERVED) 16) (\<lambda>text_len.
                   let tag = take 16 (drop text_len pl)
                   in case ae_open lib nonce (take text_len pl) tag of
                        None \<Rightarrow> Inr (Inl DecryptionFailed)
                      | Some text \<Rightarrow>
                          if length text > length pl then Inl IndexOutOfRange
                          else rbind (mut_payload (\<lambda>pl. text @ drop (length text) pl) p) (\<lambda>p1.
                               rmap (\<lambda>p2. Inr (truncate_inner (buf_len p2 - (length pl - length text)) p2))
                                 (with_pm_header (set_encrypted False) p1)))))"

definition openssl_encrypt :: "Aead \<Rightarrow> byte list \<Rightarrow> packet_op" where
  "openssl_encrypt lib nonce p =
     rbind (pm_header_unwrap p) (\<lambda>h.
       if is_encrypted h then Inr (Inr p)
       else rbind (payload p) (\<lambda>pl.
         case ae_seal lib nonce pl of
           None \<Rightarrow> Inr (Inl EncryptionFailed)
         | Some (c, tag) \<Rightarrow>
             if length c > length pl then Inl IndexOutOfRange
             else rbind (mut_payload (\<lambda>pl. c @ drop (length c) pl) p) (\<lambda>p1.
                  rmap Inr (with_pm_header (set_encrypted True)
                              (extend_inner (nonce @ replicate 4 0) (extend_inner tag p1))))))"

section \<open>The peer manager's composition\<close>

text \<open>\<open>PeerManager::try_compress_and_encrypt\<close>, and the two steps with which the receive loop undoes it.\<close>

datatype SealError = SealCompress CompressError | SealEncrypt EncryptError

definition try_compress_and_encrypt ::
  "ZstdLib \<Rightarrow> CompressorAlgo \<Rightarrow> packet_op \<Rightarrow> ZCPacket \<Rightarrow> (SealError + ZCPacket) rust" where
  "try_compress_and_encrypt zstd algo enc p =
     rbind (compress_zc zstd algo p) (\<lambda>r.
       case r of
         Inl e \<Rightarrow> Inr (Inl (SealCompress e))
       | Inr p1 \<Rightarrow> rmap (map_sum SealEncrypt id) (enc p1))"

definition decrypt_and_decompress :: "ZstdLib \<Rightarrow> packet_op \<Rightarrow> ZCPacket \<Rightarrow> (SealError + ZCPacket) rust" where
  "decrypt_and_decompress zstd dec p =
     rbind (dec p) (\<lambda>r.
       case r of
         Inl e \<Rightarrow> Inr (Inl (SealEncrypt e))
       | Inr p1 \<Rightarrow> rmap (map_sum SealCompress id) (decompress_zc zstd p1))"

section \<open>The encryptor interface\<close>

lemma is_encrypted_set: "is_encrypted (set_encrypted b h) = b"
  using flag_contains_put [of ENCRYPTED ENCRYPTED b "flags h"] by (simp add: flag_op_defs flag_defs)

lemma set_encrypted_clear: "\<not> is_encrypted h \<Longrightarrow> set_encrypted False h = h"
  by (simp add: set_encrypted_def is_encrypted_def flag_put_clear [of _ _ 0] ENCRYPTED_def)

lemma set_encrypted_undo: "\<not> is_encrypted h \<Longrightarrow> set_encrypted False (set_encrypted b h) = h"
  by (cases b)
    (simp_all add: set_encrypted_clear set_encrypted_def is_encrypted_def flag_put_undo [of _ 0] flag_put_clear [of _ _ 0] ENCRYPTED_def)

lemma is_encrypted_set_compressed [simp]: "is_encrypted (set_compressed b h) = is_encrypted h"
  using flag_contains_put [of COMPRESSED ENCRYPTED b "flags h"] by (simp add: flag_op_defs flag_defs)

lemma is_compressed_set_encrypted [simp]: "is_compressed (set_encrypted b h) = is_compressed h"
  using flag_contains_put [of ENCRYPTED COMPRESSED b "flags h"] by (simp add: flag_op_defs flag_defs)

lemma hdr_len_set_encrypted [simp]: "hdr_len (set_encrypted b h) = hdr_len h"
  by (simp add: set_encrypted_def)

text \<open>Every packet with the payload \<open>pl1\<close> and the given state of the encrypted flag is decrypted to the payload \<open>pl\<close>.\<close>

definition opens :: "packet_op \<Rightarrow> bool \<Rightarrow> byte list \<Rightarrow> byte list \<Rightarrow> bool" where
  "opens dec encrypted pl1 pl \<longleftrightarrow>
     (\<forall>q t h. shows_as q t h pl1 \<longrightarrow> is_encrypted h = encrypted \<longrightarrow>
        (\<exists>p. dec q = Inr (Inr p) \<and> shows_as p t (set_encrypted False h) pl))"

lemma opensD:
  "opens dec b pl1 pl \<Longrightarrow> shows_as q t h pl1 \<Longrightarrow> is_encrypted h = b \<Longrightarrow>
     \<exists>p. dec q = Inr (Inr p) \<and> shows_as p t (set_encrypted False h) pl"
  by (simp add: opens_def)

text \<open>
  What the peer manager relies on: encrypting never panics, and what one end encrypts the other decrypts to the same payload,
  whatever happened to the rest of the header on the way.
\<close>

locale encryptor =
  fixes enc :: packet_op
    and dec :: packet_op
  assumes enc_returns: "shows_as p t h pl \<Longrightarrow> \<exists>r. enc p = Inr r"
    and enc_opens: "shows_as p t h pl \<Longrightarrow> \<not> is_encrypted h \<Longrightarrow> enc p = Inr (Inr q) \<Longrightarrow>
      \<exists>b pl1. shows_as q t (set_encrypted b h) pl1 \<and> opens dec b pl1 pl"
begin

text \<open>Compression and encryption together: the flags and the payload that travel, and how they are opened.\<close>

lemma seal_cases:
  assumes "zstd_ok zstd" and "shows_as p t h pl" and "\<not> is_compressed h" and "\<not> is_encrypted h"
    and "unat (hdr_len h) = length pl" and "length pl \<le> 65536"
  shows "(\<exists>e. try_compress_and_encrypt zstd algo enc p = Inr (Inl e)) \<or>
    (\<exists>q b c pl1 pl2. try_compress_and_encrypt zstd algo enc p = Inr (Inr q) \<and>
       shows_as q t (set_encrypted b (set_compressed c h)) pl1 \<and> opens dec b pl1 pl2 \<and> restores zstd (hdr_len h) c pl2 pl)"
  using compress_zc_undone [OF assms(1,2,3,5,6), of algo]
proof
  assume "\<exists>e. compress_zc zstd algo p = Inr (Inl e)"
  then show ?thesis by (auto simp: try_compress_and_encrypt_def)
next
  assume "\<exists>q c pl2. compress_zc zstd algo p = Inr (Inr q) \<and> shows_as q t (set_compressed c h) pl2 \<and>
      restores zstd (hdr_len h) c pl2 pl"
  then obtain q c pl2 where q: "compress_zc zstd algo p = Inr (Inr q)" "shows_as q t (set_compressed c h) pl2"
    "restores zstd (hdr_len h) c pl2 pl" by blast
  obtain r where r: "enc q = Inr r" using enc_returns [OF q(2)] by blast
  show ?thesis
  proof (cases r)
    case (Inl e)
    then show ?thesis by (simp add: try_compress_and_encrypt_def q(1) r)
  next
    case (Inr s)
    then obtain b pl1 where "shows_as s t (set_encrypted b (set_compressed c h)) pl1" "opens dec b pl1 pl2"
      using enc_opens [OF q(2)] assms(4) r by auto
    with q Inr show ?thesis by (auto simp: try_compress_and_encrypt_def r)
  qed
qed

lemma open_sealed:
  assumes "opens dec b pl1 pl2" and "restores zstd len c pl2 pl" and "shows_as q t h pl1"
    and "is_encrypted h = b" and "is_compressed h = c" and "hdr_len h = len"
  shows "\<exists>p. decrypt_and_decompress zstd dec q = Inr (Inr p) \<and>
    shows_as p t (set_compressed False (set_encrypted False h)) pl"
proof -
  obtain p1 where p1: "dec q = Inr (Inr p1)" "shows_as p1 t (set_encrypted False h) pl2"
    using opensD [OF assms(1,3,4)] by blast
  obtain p where "decompress_zc zstd p1 = Inr (Inr p)" "shows_as p t (set_compressed False (set_encrypted False h)) pl"
    using restoresD [OF assms(2) p1(2)] assms(5,6) by auto
  with p1(1) show ?thesis by (simp add: decrypt_and_decompress_def)
qed

lemma seal_open:
  assumes "zstd_ok zstd" and "shows_as p t h pl" and "\<not> is_compressed h" and "\<not> is_encrypted h"
    and "unat (hdr_len h) = length pl" and "length pl \<le> 65536"
  shows "case try_compress_and_encrypt zstd algo enc p of
      Inl panic \<Rightarrow> False
    | Inr (Inl e) \<Rightarrow> True
    | Inr (Inr q) \<Rightarrow> \<exists>p'. decrypt_and_decompress zstd dec q = Inr (Inr p') \<and> shows_as p' t h pl"
  using seal_cases [OF assms, of algo]
proof
  assume "\<exists>q b c pl1 pl2. try_compress_and_encrypt zstd algo enc p = Inr (Inr q) \<and>
       shows_as q t (set_encrypted b (set_compressed c h)) pl1 \<and> opens dec b pl1 pl2 \<and> restores zstd (hdr_len h) c pl2 pl"
  then obtain q b c pl1 pl2 where q: "try_compress_and_encrypt zstd algo enc p = Inr (Inr q)"
    "shows_as q t (set_encrypted b (set_compressed c h)) pl1" and op: "opens dec b pl1 pl2" "restores zstd (hdr_len h) c pl2 pl"
    by blast
  from open_sealed [OF op q(2)] assms(3,4) show ?thesis
    by (simp add: q(1) is_encrypted_set is_compressed_set set_encrypted_undo set_compressed_undo)
qed auto

end

subsection \<open>The ciphers are encryptors\<close>

interpretation null_cipher: encryptor null_encrypt null_decrypt
proof unfold_locales
  fix p q t h pl
  assume "shows_as p t h pl" "\<not> is_encrypted h" "null_encrypt p = Inr (Inr q)"
  then have "shows_as q t (set_encrypted False h) pl" by (simp add: null_encrypt_def set_encrypted_clear)
  moreover have "opens null_decrypt False pl pl"
    by (auto simp: opens_def null_decrypt_def shows_as_header set_encrypted_clear)
  ultimately show "\<exists>b pl1. shows_as q t (set_encrypted b h) pl1 \<and> opens null_decrypt b pl1 pl" by blast
qed (simp add: null_encrypt_def)

lemma xor_data_twice: "xor_data key (xor_data key data) = data"
proof (rule nth_equalityI)
  fix i
  assume "i < length (xor_data key (xor_data key data))"
  then show "xor_data key (xor_data key data) ! i = data ! i"
    by (simp add: xor_data_def nth_enumerate_eq xor.assoc)
qed (simp add: xor_data_def)

lemma flagged_payload:
  assumes "shows_as p t h pl"
  obtains q where "rbind (mut_payload f p) (\<lambda>p1. rmap g (with_pm_header u p1)) = Inr (g q)" and "shows_as q t (u h) (f pl)"
proof -
  obtain p1 where p1: "mut_payload f p = Inr p1" "shows_as p1 t h (f pl)" using shows_as_mut_payload [OF assms] by blast
  obtain q where "with_pm_header u p1 = Inr q" "shows_as q t (u h) (f pl)" using shows_as_with_header [OF p1(2)] by blast
  with p1(1) that show ?thesis by simp
qed

interpretation xor_cipher: encryptor "xor_encrypt key" "xor_decrypt key" for key
proof unfold_locales
  fix p q t h pl
  assume p: "shows_as p t h pl"
  obtain q' where q': "rbind (mut_payload (xor_data key) p) (\<lambda>p1. rmap (Inr :: ZCPacket \<Rightarrow> EncryptError + ZCPacket) (with_pm_header (set_encrypted True) p1)) = Inr (Inr q')"
    "shows_as q' t (set_encrypted True h) (xor_data key pl)"
    using flagged_payload [OF p] by blast
  then show "\<exists>r. xor_encrypt key p = Inr r" by (simp add: xor_encrypt_def shows_as_header [OF p])
  assume h: "\<not> is_encrypted h" and "xor_encrypt key p = Inr (Inr q)"
  with q' have q: "shows_as q t (set_encrypted True h) (xor_data key pl)" by (simp add: xor_encrypt_def shows_as_header [OF p])
  have "opens (xor_decrypt key) True (xor_data key pl) pl"
    unfolding opens_def
  proof (intro allI impI)
    fix q t h
    assume q: "shows_as q t h (xor_data key pl)" and h: "is_encrypted h = True"
    obtain p' where "rbind (mut_payload (xor_data key) q) (\<lambda>p1.
        rmap (Inr :: ZCPacket \<Rightarrow> EncryptError + ZCPacket) (with_pm_header (set_encrypted False) p1)) = Inr (Inr p')"
      "shows_as p' t (set_encrypted False h) (xor_data key (xor_data key pl))"
      using flagged_payload [OF q] by blast
    then show "\<exists>p. xor_decrypt key q = Inr (Inr p) \<and> shows_as p t (set_encrypted False h) pl"
      using h by (simp add: xor_decrypt_def shows_as_header [OF q] xor_data_twice)
  qed
  with q show "\<exists>b pl1. shows_as q t (set_encrypted b h) pl1 \<and> opens (xor_decrypt key) b pl1 pl" by blast
qed

lemma aead_encryptor:
  assumes "aead_ok lib" and "length nonce = 12"
  shows "encryptor (aead_encrypt lib nonce) (aead_decrypt lib)"
proof unfold_locales
  fix p q t h pl
  assume p: "shows_as p t h pl"
  have sealed: "\<exists>q. aead_encrypt lib nonce p = Inr (Inr q) \<and> shows_as q t (set_encrypted True h) (c @ tag @ nonce)"
    if "\<not> is_encrypted h" "ae_seal lib nonce pl = Some (c, tag)" for c tag
  proof -
    obtain p2 where p2: "rbind (mut_payload (\<lambda>_. c) p) (\<lambda>p1.
        rmap (\<lambda>p2. (Inr (extend_inner (tag @ nonce) p2) :: EncryptError + ZCPacket)) (with_pm_header (set_encrypted True) p1)) =
        Inr (Inr (extend_inner (tag @ nonce) p2))" "shows_as p2 t (set_encrypted True h) c"
      using flagged_payload [OF p, of "\<lambda>_. c" "\<lambda>p2. Inr (extend_inner (tag @ nonce) p2)" "set_encrypted True"] by blast
    with that shows_as_extend [OF p2(2), of "tag @ nonce"] show ?thesis
      by (simp add: aead_encrypt_def shows_as_header [OF p] shows_as_payload [OF p])
  qed
  show "\<exists>r. aead_encrypt lib nonce p = Inr r"
    using sealed
    by (cases "is_encrypted h"; cases "ae_seal lib nonce pl")
      (auto simp: aead_encrypt_def shows_as_header [OF p] shows_as_payload [OF p])
  assume h: "\<not> is_encrypted h" and enc: "aead_encrypt lib nonce p = Inr (Inr q)"
  then obtain c tag where seal: "ae_seal lib nonce pl = Some (c, tag)"
    by (cases "ae_seal lib nonce pl") (auto simp: aead_encrypt_def shows_as_header [OF p] shows_as_payload [OF p])
  with sealed [OF h] enc have q: "shows_as q t (set_encrypted True h) (c @ tag @ nonce)" by fastforce
  from assms(1) seal have lib: "length c = length pl" "length tag = 16" "ae_open lib nonce c tag = Some pl"
    by (auto simp: aead_ok_def)
  have "opens (aead_decrypt lib) True (c @ tag @ nonce) pl"
    unfolding opens_def
  proof (intro allI impI)
    fix q t h
    assume q: "shows_as q t h (c @ tag @ nonce)" and h: "is_encrypted h = True"
    obtain p1 where p1: "mut_payload (\<lambda>pl'. pl @ drop (length c) pl') q = Inr p1" "shows_as p1 t h (pl @ tag @ nonce)"
      using shows_as_mut_payload [OF q, of "\<lambda>pl'. pl @ drop (length c) pl'"] by auto
    obtain p2 where p2: "with_pm_header (set_encrypted False) p1 = Inr p2" "shows_as p2 t (set_encrypted False h) (pl @ tag @ nonce)"
      using shows_as_with_header [OF p1(2), of "set_encrypted False"] by auto
    have len: "buf_len p2 = payload_offset p2 + length pl + 28"
      using shows_as_buf_len [OF p2(2)] lib(2) assms(2) by simp
    have "aead_decrypt lib q = Inr (Inr (truncate_inner (payload_offset p2 + length pl) p2))"
      using lib assms(2) p1(1) p2(1) len h
      by (simp add: aead_decrypt_def shows_as_header [OF q] shows_as_payload [OF q]
          AES_GCM_ENCRYPTION_RESERVED_def checked_sub_def)
    moreover have "shows_as (truncate_inner (payload_offset p2 + length pl) p2) t (set_encrypted False h) pl"
      using shows_as_truncate [OF p2(2) refl, of "length pl"] by simp
    ultimately show "\<exists>p. aead_decrypt lib q = Inr (Inr p) \<and> shows_as p t (set_encrypted False h) pl" by blast
  qed
  with q show "\<exists>b pl1. shows_as q t (set_encrypted b h) pl1 \<and> opens (aead_decrypt lib) b pl1 pl" by blast
qed

lemma openssl_encryptor:
  assumes "aead_ok lib" and "length nonce = 12"
  shows "encryptor (openssl_encrypt lib nonce) (openssl_decrypt lib)"
proof unfold_locales
  fix p q t h pl
  assume p: "shows_as p t h pl"
  have sealed: "\<exists>q. openssl_encrypt lib nonce p = Inr (Inr q) \<and>
      shows_as q t (set_encrypted True h) (c @ tag @ nonce @ replicate 4 0)"
    if "\<not> is_encrypted h" "ae_seal lib nonce pl = Some (c, tag)" for c tag
  proof -
    have len: "length c = length pl" using assms(1) that by (auto simp: aead_ok_def)
    obtain p1 where p1: "mut_payload (\<lambda>pl. c @ drop (length c) pl) p = Inr p1" "shows_as p1 t h c"
      using shows_as_mut_payload [OF p, of "\<lambda>pl. c @ drop (length c) pl"] len by auto
    have ext: "shows_as (extend_inner (nonce @ replicate 4 0) (extend_inner tag p1)) t h ((c @ tag) @ nonce @ replicate 4 0)"
      by (intro shows_as_extend p1(2))
    obtain q where "with_pm_header (set_encrypted True) (extend_inner (nonce @ replicate 4 0) (extend_inner tag p1)) = Inr q"
      "shows_as q t (set_encrypted True h) ((c @ tag) @ nonce @ replicate 4 0)"
      using shows_as_with_header [OF ext, of "set_encrypted True"] by blast
    with that p1(1) len show ?thesis by (simp add: openssl_encrypt_def shows_as_header [OF p] shows_as_payload [OF p])
  qed
  show "\<exists>r. openssl_encrypt lib nonce p = Inr r"
    using sealed
    by (cases "is_encrypted h"; cases "ae_seal lib nonce pl")
      (auto simp: openssl_encrypt_def shows_as_header [OF p] shows_as_payload [OF p])
  assume h: "\<not> is_encrypted h" and enc: "openssl_encrypt lib nonce p = Inr (Inr q)"
  then obtain c tag where seal: "ae_seal lib nonce pl = Some (c, tag)"
    by (cases "ae_seal lib nonce pl") (auto simp: openssl_encrypt_def shows_as_header [OF p] shows_as_payload [OF p])
  with sealed [OF h] enc have q: "shows_as q t (set_encrypted True h) (c @ tag @ nonce @ replicate 4 0)" by fastforce
  from assms(1) seal have lib: "length c = length pl" "length tag = 16" "ae_open lib nonce c tag = Some pl"
    by (auto simp: aead_ok_def)
  have "opens (openssl_decrypt lib) True (c @ tag @ nonce @ replicate 4 0) pl"
    unfolding opens_def
  proof (intro allI impI)
    fix q t h
    assume q: "shows_as q t h (c @ tag @ nonce @ replicate 4 0)" and h: "is_encrypted h = True"
    obtain p1 where p1: "mut_payload (\<lambda>pl'. pl @ drop (length pl) pl') q = Inr p1"
      "shows_as p1 t h (pl @ tag @ nonce @ replicate 4 0)"
      using shows_as_mut_payload [OF q, of "\<lambda>pl'. pl @ drop (length pl) pl'"] lib(1) by auto
    obtain p2 where p2: "with_pm_header (set_encrypted False) p1 = Inr p2"
      "shows_as p2 t (set_encrypted False h) (pl @ tag @ nonce @ replicate 4 0)"
      using shows_as_with_header [OF p1(2), of "set_encrypted False"] by auto
    have len: "buf_len p2 - 32 = payload_offset p2 + length pl"
      using shows_as_buf_len [OF p2(2)] lib(2) assms(2) by simp
    have "openssl_decrypt lib q = Inr (Inr (truncate_inner (payload_offset p2 + length pl) p2))"
      using lib assms(2) p1(1) p2(1) len h
      by (simp add: openssl_decrypt_def shows_as_header [OF q] shows_as_payload [OF q]
          OPENSSL_ENCRYPTION_RESERVED_def checked_sub_def)
    moreover have "shows_as (truncate_inner (payload_offset p2 + length pl) p2) t (set_encrypted False h) pl"
      using shows_as_truncate [OF p2(2) refl, of "length pl"] by simp
    ultimately show "\<exists>p. openssl_decrypt lib q = Inr (Inr p) \<and> shows_as p t (set_encrypted False h) pl" by blast
  qed
  with q show "\<exists>b pl1. shows_as q t (set_encrypted b h) pl1 \<and> opens (openssl_decrypt lib) b pl1 pl" by blast
qed

section \<open>Choosing a cipher\<close>

text \<open>
  The algorithms of a build with the features \<open>wireguard\<close> and \<open>openssl-crypto\<close>, and the ciphers \<open>create_encryptor\<close> makes of
  them. \<open>AeadLibs\<close> gives the authenticated ciphers of the libraries for a key.
\<close>

datatype EncryptionAlgorithm =
    AlgAesGcm | AlgAes256Gcm | AlgXor | AlgChaCha20 | AlgOpensslAesGcm | AlgOpensslChacha20 | AlgOpensslAes256Gcm

definition algorithm_to_string :: "EncryptionAlgorithm \<Rightarrow> string" where
  "algorithm_to_string a =
     (case a of
        AlgAesGcm \<Rightarrow> ''aes-gcm'' | AlgAes256Gcm \<Rightarrow> ''aes-256-gcm'' | AlgXor \<Rightarrow> ''xor'' | AlgChaCha20 \<Rightarrow> ''chacha20''
      | AlgOpensslAesGcm \<Rightarrow> ''openssl-aes-gcm'' | AlgOpensslChacha20 \<Rightarrow> ''openssl-chacha20''
      | AlgOpensslAes256Gcm \<Rightarrow> ''openssl-aes-256-gcm'')"

definition algorithm_try_from :: "string \<Rightarrow> EncryptionAlgorithm option" where
  "algorithm_try_from s =
     (if s = ''aes-gcm'' then Some AlgAesGcm
      else if s = ''aes-256-gcm'' then Some AlgAes256Gcm
      else if s = ''xor'' then Some AlgXor
      else if s = ''chacha20'' then Some AlgChaCha20
      else if s = ''openssl-aes-gcm'' then Some AlgOpensslAesGcm
      else if s = ''openssl-chacha20'' then Some AlgOpensslChacha20
      else if s = ''openssl-aes-256-gcm'' then Some AlgOpensslAes256Gcm
      else None)"

definition get_avaliable_encrypt_methods :: "string list" where
  "get_avaliable_encrypt_methods =
     [''aes-gcm'', ''aes-256-gcm'', ''xor'', ''chacha20'', ''openssl-aes-gcm'', ''openssl-chacha20'', ''openssl-aes-256-gcm'']"

datatype Cipher =
    NullCipher
  | XorCipher "byte list"
  | AesGcmCipher Aead
  | RingChaCha20Cipher Aead
  | OpenSslCipher Aead

record AeadLibs =
  al_ring_aes :: "byte list \<Rightarrow> Aead"
  al_ring_chacha20 :: "byte list \<Rightarrow> Aead"
  al_openssl_aes :: "byte list \<Rightarrow> Aead"
  al_openssl_chacha20 :: "byte list \<Rightarrow> Aead"

definition create_encryptor :: "AeadLibs \<Rightarrow> string \<Rightarrow> byte list \<Rightarrow> byte list \<Rightarrow> Cipher" where
  "create_encryptor libs algorithm key_128 key_256 =
     (case (case algorithm_try_from algorithm of Some a \<Rightarrow> a | None \<Rightarrow> AlgAesGcm) of
        AlgAesGcm \<Rightarrow> AesGcmCipher (al_ring_aes libs key_128)
      | AlgAes256Gcm \<Rightarrow> AesGcmCipher (al_ring_aes libs key_256)
      | AlgXor \<Rightarrow> XorCipher key_128
      | AlgChaCha20 \<Rightarrow> RingChaCha20Cipher (al_ring_chacha20 libs key_256)
      | AlgOpensslAesGcm \<Rightarrow> OpenSslCipher (al_openssl_aes libs key_128)
      | AlgOpensslAes256Gcm \<Rightarrow> OpenSslCipher (al_openssl_aes libs key_256)
      | AlgOpensslChacha20 \<Rightarrow> OpenSslCipher (al_openssl_chacha20 libs key_256))"

text \<open>The trait \<open>Encryptor\<close>.\<close>

fun encrypt :: "Cipher \<Rightarrow> byte list \<Rightarrow> packet_op" where
  "encrypt NullCipher nonce = null_encrypt"
| "encrypt (XorCipher key) nonce = xor_encrypt key"
| "encrypt (AesGcmCipher lib) nonce = ring_aes_gcm_encrypt lib nonce"
| "encrypt (RingChaCha20Cipher lib) nonce = ring_chacha20_encrypt lib nonce"
| "encrypt (OpenSslCipher lib) nonce = openssl_encrypt lib nonce"

fun decrypt :: "Cipher \<Rightarrow> packet_op" where
  "decrypt NullCipher = null_decrypt"
| "decrypt (XorCipher key) = xor_decrypt key"
| "decrypt (AesGcmCipher lib) = ring_aes_gcm_decrypt lib"
| "decrypt (RingChaCha20Cipher lib) = ring_chacha20_decrypt lib"
| "decrypt (OpenSslCipher lib) = openssl_decrypt lib"

fun cipher_ok :: "Cipher \<Rightarrow> bool" where
  "cipher_ok (AesGcmCipher lib) = aead_ok lib"
| "cipher_ok (RingChaCha20Cipher lib) = aead_ok lib"
| "cipher_ok (OpenSslCipher lib) = aead_ok lib"
| "cipher_ok _ = True"

lemma cipher_encryptor: "cipher_ok c \<Longrightarrow> length nonce = 12 \<Longrightarrow> encryptor (encrypt c nonce) (decrypt c)"
  by (cases c)
    (simp_all add: null_cipher.encryptor_axioms xor_cipher.encryptor_axioms aead_encryptor openssl_encryptor
      ring_aes_gcm_encrypt_def ring_aes_gcm_decrypt_def ring_chacha20_encrypt_def ring_chacha20_decrypt_def)

text \<open>
  C7. What one node seals another opens. For every cipher the node can be configured with and every compression algorithm, a plain
  packet whose header carries the length of its payload is sealed without a panic, and what was sealed is
  opened, by a node with the same cipher, to the same header and payload. The authenticated ciphers and the compression library are only
  required to invert what they produced.
\<close>

theorem sealed_packet_roundtrip:
  assumes "zstd_ok zstd" and "cipher_ok c" and "length nonce = 12"
    and "shows_as p t h pl" and "\<not> is_compressed h" and "\<not> is_encrypted h"
    and "unat (hdr_len h) = length pl" and "length pl \<le> 65536"
  shows "case try_compress_and_encrypt zstd algo (encrypt c nonce) p of
      Inl panic \<Rightarrow> False
    | Inr (Inl e) \<Rightarrow> True
    | Inr (Inr q) \<Rightarrow> \<exists>p'. decrypt_and_decompress zstd (decrypt c) q = Inr (Inr p') \<and> shows_as p' t h pl"
  by (rule encryptor.seal_open [OF cipher_encryptor]) (use assms in simp_all)

definition example_aead :: Aead where
  "example_aead = \<lparr>ae_seal = (\<lambda>nonce text. Some (xor_data [7] text, replicate 16 1)),
     ae_open = (\<lambda>nonce c tag. if tag = replicate 16 1 then Some (xor_data [7] c) else None)\<rparr>"

lemma example_aead_ok: "aead_ok example_aead"
  by (simp add: aead_ok_def example_aead_def xor_data_twice) (simp add: xor_data_def)

theorem sealed_packet_roundtrip_witness:
  "\<exists>q p'. try_compress_and_encrypt example_zstd CNone (encrypt (OpenSslCipher example_aead) (replicate 12 3)) example_zeros = Inr (Inr q) \<and>
     decrypt_and_decompress example_zstd (decrypt (OpenSslCipher example_aead)) q = Inr (Inr p') \<and> payload p' = Inr (replicate 9 0)"
proof -
  let ?h = "(pm_hdr_of (replicate 16 0))\<lparr>hdr_len := 9\<rparr>"
  have flags: "flags ?h = 0" by (simp add: pm_hdr_of_def)
  have plain: "\<not> is_compressed ?h" "\<not> is_encrypted ?h"
    using flags by (simp_all add: is_compressed_def is_encrypted_def flag_contains_def COMPRESSED_def ENCRYPTED_def)
  have "case try_compress_and_encrypt example_zstd CNone (encrypt (OpenSslCipher example_aead) (replicate 12 3)) example_zeros of
      Inl panic \<Rightarrow> False
    | Inr (Inl e) \<Rightarrow> True
    | Inr (Inr q) \<Rightarrow> \<exists>p'. decrypt_and_decompress example_zstd (decrypt (OpenSslCipher example_aead)) q = Inr (Inr p') \<and>
        shows_as p' DummyTunnel ?h (replicate 9 0)"
    by (rule sealed_packet_roundtrip)
      (simp_all add: example_zstd_ok example_aead_ok example_zeros_shows plain)
  moreover have "try_compress_and_encrypt example_zstd CNone (encrypt (OpenSslCipher example_aead) (replicate 12 3)) example_zeros \<noteq> Inr (Inl e)" for e
    using plain(2)
    by (auto simp: try_compress_and_encrypt_def compress_zc_def openssl_encrypt_def shows_as_header [OF example_zeros_shows]
        shows_as_payload [OF example_zeros_shows] example_aead_def rust_Inr split: if_splits)
  ultimately show ?thesis by (fastforce split: sum.splits dest: shows_as_payload)
qed

text \<open>
  Short packets stop an OpenSSL node. Decrypting a packet that is marked as encrypted panics exactly when its payload is at least
  16 and less than 32 bytes long; the length check accounts for the nonce but not for the tag.
\<close>

theorem openssl_short_packet_panics:
  assumes "shows_as p t h pl" and "is_encrypted h" and "\<And>nonce c tag text. ae_open lib nonce c tag = Some text \<Longrightarrow> length text = length c"
  shows "(\<exists>panic. openssl_decrypt lib p = Inl panic) \<longleftrightarrow> 16 \<le> length pl \<and> length pl < 32"
proof -
  note run = openssl_decrypt_def shows_as_header [OF assms(1)] shows_as_payload [OF assms(1)] OPENSSL_ENCRYPTION_RESERVED_def
    checked_sub_def
  show ?thesis
  proof (cases "length pl < 32")
    case True
    then have "\<not> 16 \<le> length pl - 16" by arith
    with True assms(2) show ?thesis by (auto simp: run Let_def)
  next
    case False
    let ?nonce = "take 12 (drop (length pl - 16) pl)" and ?tag = "take 16 (drop (length pl - 32) pl)"
    have "\<exists>r. openssl_decrypt lib p = Inr r"
    proof (cases "ae_open lib ?nonce (take (length pl - 32) pl) ?tag")
      case None
      with False assms(2) show ?thesis by (simp add: run)
    next
      case (Some plain)
      then have "length plain \<le> length pl" using assms(3) by fastforce
      moreover have "16 \<le> length pl - 16" using False by arith
      moreover obtain q where "rbind (mut_payload (\<lambda>pl. plain @ drop (length plain) pl) p)
          (\<lambda>p1. rmap (\<lambda>p2. (Inr (truncate_inner (buf_len p2 - (length pl - length plain)) p2) :: EncryptError + ZCPacket))
             (with_pm_header (set_encrypted False) p1)) = Inr q"
        using flagged_payload [OF assms(1)] by blast
      ultimately show ?thesis using False Some assms(2) by (simp add: run)
    qed
    with False show ?thesis by auto
  qed
qed


definition example_short :: ZCPacket where
  "example_short = new_from_buf \<lparr>bm_data = pm_hdr_bytes (set_encrypted True (pm_hdr_of (replicate 16 0))) @ replicate 20 0, bm_cap = 36\<rparr> DummyTunnel"

lemma example_short_shows:
  "shows_as example_short DummyTunnel (set_encrypted True (pm_hdr_of (replicate 16 0))) (replicate 20 0)"
proof -
  let ?h = "set_encrypted True (pm_hdr_of (replicate 16 0))"
  have len: "length (pm_hdr_bytes ?h) = PEER_MANAGER_HEADER_SIZE" by (rule pm_hdr.enc_length) simp
  have "pm_hdr_of (pm_hdr_bytes ?h) = ?h" by (rule pm_hdr.dec_enc) simp
  with len show ?thesis by (simp add: shows_as_bytes example_short_def new_from_buf_def payload_offset_def)
qed

theorem openssl_short_packet_panics_witness: "\<exists>panic. openssl_decrypt example_aead example_short = Inl panic"
proof -
  have "length x = length c" if "ae_open example_aead nonce c tag = Some x" for nonce c tag x
    using that by (auto simp: example_aead_def xor_data_def split: if_splits)
  from openssl_short_packet_panics [OF example_short_shows _ this] show ?thesis by (simp add: is_encrypted_set)
qed

end
