(* ===== verification/PeerManager.thy ===== *)
theory PeerManager
  imports PeerMap AclFilter Encrypt
begin

text \<open>
  The data path of the peer manager (\<open>src/app/src/peers/peer_manager.rs\<close>): the receive loop (foreign network packets, forwarding,
  delivery through decryption, decompression, access control and the packet filters), sending to a peer and sending by address.

  The state is the record \<open>PeerManager\<close>; a handler returns the new state and the effects it has. \<open>Libs\<close> collects the third-party code it
  reaches. Traffic counters and log messages are left out. \<open>now\<close> is the clock, \<open>nonce\<close> the random nonce of an encryption.
\<close>

record ('c4, 'c6) Libs =
  lb_zstd :: ZstdLib
  lb_cidr :: "('c4, 'c6) CidrLib"
  lb_pnet :: PnetLib

text \<open>A filter of the peer pipeline takes a packet over, with effects of its own, or passes it on.\<close>

type_synonym peer_filter = "ZCPacket \<Rightarrow> (ZCPacket option \<times> Effect list) rust"
type_synonym nic_filter = "ZCPacket \<Rightarrow> ZCPacket rust"

record ('c4, 'c6) PeerManager =
  mg_my_peer_id :: PeerId
  mg_peers :: PeerMapState
  mg_foreign_network_client :: PeerMapState
  mg_foreign_network_peer_id :: "byte list \<Rightarrow> PeerId option"
  mg_route :: RouteView
  mg_encryptor :: Cipher
  mg_data_compress_algo :: CompressorAlgo
  mg_acl_filter :: "('c4, 'c6) AclFilter"
  mg_ipv4 :: "(u32 \<times> nat) option"
  mg_ipv6 :: "(128 word \<times> nat) option"
  mg_exit_nodes :: "IpAddr list"
  mg_latency_first :: bool
  mg_peer_filters :: "peer_filter list"
  mg_nic_filters :: "nic_filter list"

section \<open>Sending to a peer\<close>

definition get_next_hop_policy :: "bool \<Rightarrow> NextHopPolicy" where
  "get_next_hop_policy is_first_latency = (if is_first_latency then LeastCost else LeastHop)"

definition send_by_client ::
  "ZCPacket \<Rightarrow> PeerId \<Rightarrow> ('c4, 'c6) PeerManager \<Rightarrow> ('c4, 'c6) PeerManager \<times> (SendError + Effect)" where
  "send_by_client msg p mg =
     (let (pm, r) = client_send_msg msg p (mg_foreign_network_client mg) in (mg\<lparr>mg_foreign_network_client := pm\<rparr>, r))"

definition send_msg_internal ::
  "ZCPacket \<Rightarrow> PeerId \<Rightarrow> ('c4, 'c6) PeerManager \<Rightarrow> (('c4, 'c6) PeerManager \<times> (SendError + Effect)) rust" where
  "send_msg_internal msg dst mg =
     rmap (\<lambda>h.
       case get_gateway_peer_id (mg_peers mg) dst (get_next_hop_policy (is_latency_first h)) of
         Some gateway \<Rightarrow>
           if has_peer (mg_peers mg) gateway
           then (let (pm, r) = send_msg_directly msg gateway (mg_peers mg) in (mg\<lparr>mg_peers := pm\<rparr>, r))
           else if has_next_hop (mg_foreign_network_client mg) gateway then send_by_client msg gateway mg
           else (mg, Inl RouteError)
       | None \<Rightarrow>
           if has_next_hop (mg_foreign_network_client mg) dst then send_by_client msg dst mg
           else (mg, Inl RouteError)) (pm_header_unwrap msg)"

definition effects_of :: "SendError + Effect \<Rightarrow> Effect list" where
  "effects_of r = (case r of Inr e \<Rightarrow> [e] | Inl _ \<Rightarrow> [])"

text \<open>\<open>PeerManager::send_msg\<close> and the transport of the RPC layer.\<close>

definition mg_send_msg ::
  "ZCPacket \<Rightarrow> PeerId \<Rightarrow> ('c4, 'c6) PeerManager \<Rightarrow> (('c4, 'c6) PeerManager \<times> (SendError + Effect)) rust" where
  "mg_send_msg msg dst mg = send_msg_internal msg dst mg"

definition rpc_transport_send ::
  "byte list \<Rightarrow> ZCPacket \<Rightarrow> PeerId \<Rightarrow> ('c4, 'c6) PeerManager \<Rightarrow> (('c4, 'c6) PeerManager \<times> (SendError + Effect)) rust" where
  "rpc_transport_send nonce msg dst mg =
     (let public = (case Option.bind (get_route_peer_info (mg_peers mg) dst) rpi_feature_flag of
                      Some f \<Rightarrow> is_public_server f
                    | None \<Rightarrow> \<not> has_peer (mg_peers mg) dst);
          send = (\<lambda>m. let (pm, r) = send_msg_directly m (mg_my_peer_id mg) (mg_peers mg) in (mg\<lparr>mg_peers := pm\<rparr>, r))
      in if public then Inr (send msg)
         else rmap (\<lambda>r. case r of Inl _ \<Rightarrow> (mg, Inl SealFailed) | Inr m \<Rightarrow> send m) (encrypt (mg_encryptor mg) nonce msg))"

section \<open>Receiving\<close>

definition name_string :: "byte list \<Rightarrow> string" where
  "name_string = map (\<lambda>b. char_of (unat b))"

text \<open>Foreign network packets: the left result is the packet that was not handled.\<close>

definition try_handle_foreign_network_packet ::
  "ZCPacket \<Rightarrow> ('c4, 'c6) PeerManager \<Rightarrow> (('c4, 'c6) PeerManager \<times> (ZCPacket + Effect list)) rust" where
  "try_handle_foreign_network_packet packet mg =
     rbind (pm_header_unwrap packet) (\<lambda>h.
       if packet_type h \<noteq> packet_type_u8 PForeignNetworkPacket then Inr (mg, Inl packet)
       else rbind (rbind (foreign_network_hdr packet) unwrap) (\<lambda>fh.
         rbind (payload packet) (\<lambda>pl.
         rbind (get_network_name fh pl) (\<lambda>name.
           if to_peer_id h = mg_my_peer_id mg
           then rmap (\<lambda>inner. (mg, Inr [ToForeignManager name (get_dst_peer_id fh) inner])) (foreign_network_packet packet)
           else if Some (from_peer_id h) = mg_foreign_network_peer_id mg name
           then (case pm_get_origin_my_peer_id (mg_peers mg) (name_string name) (to_peer_id h) of
                   None \<Rightarrow> Inr (mg, Inl packet)
                 | Some origin \<Rightarrow>
                     rmap (\<lambda>p1. let (pm, r) = pm_send_msg p1 origin LeastHop (mg_peers mg)
                                in (mg\<lparr>mg_peers := pm\<rparr>, Inr (effects_of r)))
                       (with_pm_header (\<lambda>h. h\<lparr>to_peer_id := origin\<rparr>) packet))
           else Inr (mg, Inl packet)))))"

text \<open>
  Sealing a packet of the node's own in place, as the receive loop does: the result is ignored and the packet is sent as it was left,
  unchanged if compression failed, unencrypted if encryption did.
\<close>

definition seal_in_place :: "ZstdLib \<Rightarrow> CompressorAlgo \<Rightarrow> packet_op \<Rightarrow> ZCPacket \<Rightarrow> ZCPacket rust" where
  "seal_in_place zstd algo enc p =
     rbind (compress_zc zstd algo p) (\<lambda>r.
       case r of
         Inl _ \<Rightarrow> Inr p
       | Inr p1 \<Rightarrow> rmap (\<lambda>r2. case r2 of Inl _ \<Rightarrow> p1 | Inr p2 \<Rightarrow> p2) (enc p1))"

definition relay_hdr :: "PeerManagerHeader \<Rightarrow> PeerManagerHeader" where
  "relay_hdr h =
     (let h1 = (if forward_counter h > 2 \<and> is_latency_first h then set_latency_first False h else h)
      in h1\<lparr>forward_counter := forward_counter h1 + 1\<rparr>)"

definition forward_packet ::
  "('c4, 'c6) Libs \<Rightarrow> byte list \<Rightarrow> PeerManagerHeader \<Rightarrow> ZCPacket \<Rightarrow> ('c4, 'c6) PeerManager
    \<Rightarrow> (('c4, 'c6) PeerManager \<times> Effect list) rust" where
  "forward_packet libs nonce h packet mg =
     (if forward_counter h > 7 then Inr (mg, [])
      else rbind (with_pm_header relay_hdr packet) (\<lambda>p1.
           rbind (if from_peer_id h = mg_my_peer_id mg \<and>
                     packet_type h \<in> {packet_type_u8 PData, packet_type_u8 PKcpSrc, packet_type_u8 PKcpDst}
                  then seal_in_place (lb_zstd libs) (mg_data_compress_algo mg) (encrypt (mg_encryptor mg) nonce) p1
                  else Inr p1) (\<lambda>p2.
           rmap (\<lambda>(mg', r). (mg', effects_of r)) (send_msg_internal p2 (to_peer_id h) mg))))"

fun run_filters :: "peer_filter list \<Rightarrow> ZCPacket \<Rightarrow> Effect list rust" where
  "run_filters [] p = Inr []"
| "run_filters (f # fs) p =
     rbind (f p) (\<lambda>(rest, effs). case rest of None \<Rightarrow> Inr effs | Some p' \<Rightarrow> rmap (\<lambda>es. effs @ es) (run_filters fs p'))"

definition deliver_packet ::
  "('c4, 'c6) Libs \<Rightarrow> nat \<Rightarrow> ZCPacket \<Rightarrow> ('c4, 'c6) PeerManager \<Rightarrow> (('c4, 'c6) PeerManager \<times> Effect list) rust" where
  "deliver_packet libs now packet mg =
     rbind (decrypt_and_decompress (lb_zstd libs) (decrypt (mg_encryptor mg)) packet) (\<lambda>r.
       case r of
         Inl _ \<Rightarrow> Inr (mg, [])
       | Inr p \<Rightarrow>
           rbind (process_packet_with_acl (lb_cidr libs) (lb_pnet libs) (rv_get_peer_groups (mg_route mg)) now p True
                    (map_option fst (mg_ipv4 mg)) (map_option fst (mg_ipv6 mg)) (mg_acl_filter mg)) (\<lambda>(af, ok).
             let mg1 = mg\<lparr>mg_acl_filter := af\<rparr>
             in if ok then rmap (\<lambda>effs. (mg1, effs)) (run_filters (rev (mg_peer_filters mg)) p) else Inr (mg1, [])))"

text \<open>One round of \<open>start_peer_recv\<close>.\<close>

definition recv_packet ::
  "('c4, 'c6) Libs \<Rightarrow> nat \<Rightarrow> byte list \<Rightarrow> ZCPacket \<Rightarrow> ('c4, 'c6) PeerManager \<Rightarrow> (('c4, 'c6) PeerManager \<times> Effect list) rust" where
  "recv_packet libs now nonce packet mg =
     rbind (try_handle_foreign_network_packet packet mg) (\<lambda>(mg1, r).
       case r of
         Inr effs \<Rightarrow> Inr (mg1, effs)
       | Inl p \<Rightarrow>
           rbind (peer_manager_header p) (\<lambda>ho.
             case ho of
               None \<Rightarrow> Inr (mg1, [])
             | Some h \<Rightarrow>
                 if to_peer_id h \<noteq> mg_my_peer_id mg1 then forward_packet libs nonce h p mg1
                 else deliver_packet libs now p mg1))"

text \<open>The filters that every peer manager installs.\<close>

definition nic_packet_processor :: peer_filter where
  "nic_packet_processor packet =
     rmap (\<lambda>h. if packet_type h = packet_type_u8 PData then (None, [ToNic packet]) else (Some packet, [])) (pm_header_unwrap packet)"

definition rpc_packet_processor :: peer_filter where
  "rpc_packet_processor packet =
     rmap (\<lambda>h. if packet_type h \<in> {packet_type_u8 PTaRpc, packet_type_u8 PRpcReq, packet_type_u8 PRpcResp}
                then (None, [ToRpc packet]) else (Some packet, [])) (pm_header_unwrap packet)"

definition add_packet_process_pipeline :: "peer_filter \<Rightarrow> ('c4, 'c6) PeerManager \<Rightarrow> ('c4, 'c6) PeerManager" where
  "add_packet_process_pipeline f mg = mg\<lparr>mg_peer_filters := mg_peer_filters mg @ [f]\<rparr>"

definition init_packet_process_pipeline :: "('c4, 'c6) PeerManager \<Rightarrow> ('c4, 'c6) PeerManager" where
  "init_packet_process_pipeline mg =
     add_packet_process_pipeline rpc_packet_processor (add_packet_process_pipeline nic_packet_processor mg)"

section \<open>Sending by address\<close>

definition last_address :: "'a::len word \<Rightarrow> nat \<Rightarrow> 'a word" where
  "last_address a prefix = a OR mask (LENGTH('a) - prefix)"

definition ipv4_is_multicast :: "u32 \<Rightarrow> bool" where
  "ipv4_is_multicast a \<longleftrightarrow> drop_bit 28 a = 0xE"

definition ipv6_is_multicast :: "128 word \<Rightarrow> bool" where
  "ipv6_is_multicast a \<longleftrightarrow> drop_bit 120 a = 0xFF"

definition ipv6_is_unicast_link_local :: "128 word \<Rightarrow> bool" where
  "ipv6_is_unicast_link_local a \<longleftrightarrow> drop_bit 118 a = 0x3FA"

fun first_exit_node4 :: "PeerMapState \<Rightarrow> IpAddr list \<Rightarrow> PeerId option" where
  "first_exit_node4 pm [] = None"
| "first_exit_node4 pm (V4 a # ips) = (case pm_get_peer_id_by_ipv4 pm a of Some p \<Rightarrow> Some p | None \<Rightarrow> first_exit_node4 pm ips)"
| "first_exit_node4 pm (V6 a # ips) = first_exit_node4 pm ips"

fun first_exit_node6 :: "PeerMapState \<Rightarrow> IpAddr list \<Rightarrow> PeerId option" where
  "first_exit_node6 pm [] = None"
| "first_exit_node6 pm (V6 a # ips) = (case pm_get_peer_id_by_ipv6 pm a of Some p \<Rightarrow> Some p | None \<Rightarrow> first_exit_node6 pm ips)"
| "first_exit_node6 pm (V4 a # ips) = first_exit_node6 pm ips"

definition get_msg_dst_peer :: "('c4, 'c6) PeerManager \<Rightarrow> u32 \<Rightarrow> PeerId list \<times> bool" where
  "get_msg_dst_peer mg a =
     (let network_length = (case mg_ipv4 mg of Some (_, l) \<Rightarrow> l | None \<Rightarrow> 24)
      in if a = - 1 \<or> ipv4_is_multicast a \<or> a = last_address a network_length
         then (map fst (pm_list_routes (mg_peers mg)), False)
         else case pm_get_peer_id_by_ipv4 (mg_peers mg) a of
                Some p \<Rightarrow> ([p], False)
              | None \<Rightarrow>
                  (case first_exit_node4 (mg_peers mg) (mg_exit_nodes mg) of Some p \<Rightarrow> ([p], True) | None \<Rightarrow> ([], False)))"

definition get_msg_dst_peer_ipv6 :: "('c4, 'c6) PeerManager \<Rightarrow> 128 word \<Rightarrow> PeerId list \<times> bool" where
  "get_msg_dst_peer_ipv6 mg a =
     (let network_length = (case mg_ipv6 mg of Some (_, l) \<Rightarrow> l | None \<Rightarrow> 64)
      in if ipv6_is_multicast a \<or> a = last_address a network_length
         then (map fst (pm_list_routes (mg_peers mg)), False)
         else case pm_get_peer_id_by_ipv6 (mg_peers mg) a of
                Some p \<Rightarrow> ([p], False)
              | None \<Rightarrow>
                  if \<not> ipv6_is_unicast_link_local a
                  then (case first_exit_node6 (mg_peers mg) (mg_exit_nodes mg) of Some p \<Rightarrow> ([p], True) | None \<Rightarrow> ([], False))
                  else ([], False))"

definition dst_peers_of :: "('c4, 'c6) PeerManager \<Rightarrow> IpAddr \<Rightarrow> PeerId list \<times> bool" where
  "dst_peers_of mg ip = (case ip of V4 a \<Rightarrow> get_msg_dst_peer mg a | V6 a \<Rightarrow> get_msg_dst_peer_ipv6 mg a)"

definition run_nic_packet_process_pipeline ::
  "('c4, 'c6) Libs \<Rightarrow> nat \<Rightarrow> ZCPacket \<Rightarrow> ('c4, 'c6) PeerManager \<Rightarrow> (('c4, 'c6) PeerManager \<times> ZCPacket) rust" where
  "run_nic_packet_process_pipeline libs now msg mg =
     rbind (process_packet_with_acl (lb_cidr libs) (lb_pnet libs) (rv_get_peer_groups (mg_route mg)) now msg False None None
              (mg_acl_filter mg)) (\<lambda>(af, ok).
       let mg1 = mg\<lparr>mg_acl_filter := af\<rparr>
       in if \<not> ok then Inr (mg1, msg)
          else rmap (\<lambda>m. (mg1, m)) (fold (\<lambda>f m. rbind m f) (rev (mg_nic_filters mg)) (Inr msg)))"

text \<open>The loop over the destinations.\<close>

fun send_to_each ::
  "PeerId list \<Rightarrow> ZCPacket \<Rightarrow> ('c4, 'c6) PeerManager \<Rightarrow> (('c4, 'c6) PeerManager \<times> SendError list \<times> Effect list) rust" where
  "send_to_each [] msg mg = Inr (mg, [], [])"
| "send_to_each (p # ps) msg mg =
     rbind (with_pm_header (\<lambda>h. h\<lparr>to_peer_id := p\<rparr>) msg) (\<lambda>m.
     rbind (send_msg_internal m p mg) (\<lambda>(mg1, r).
     rmap (\<lambda>(mg2, errs, effs). (mg2, (case r of Inl e \<Rightarrow> [e] | Inr _ \<Rightarrow> []) @ errs, effects_of r @ effs))
       (send_to_each ps msg mg1)))"

text \<open>What \<open>send_msg_by_ip\<close> does after the pipeline.\<close>

definition send_sealed ::
  "('c4, 'c6) Libs \<Rightarrow> byte list \<Rightarrow> PeerId list \<Rightarrow> bool \<Rightarrow> ZCPacket \<Rightarrow> ('c4, 'c6) PeerManager
    \<Rightarrow> (('c4, 'c6) PeerManager \<times> SendError option \<times> Effect list) rust" where
  "send_sealed libs nonce dst_peers via_exit msg mg =
     rbind (try_compress_and_encrypt (lb_zstd libs) (mg_data_compress_algo mg) (encrypt (mg_encryptor mg) nonce) msg) (\<lambda>r.
       case r of
         Inl _ \<Rightarrow> Inr (mg, Some SealFailed, [])
       | Inr m1 \<Rightarrow>
           rbind (with_pm_header (\<lambda>h. set_exit_node via_exit (set_latency_first (mg_latency_first mg) h)) m1) (\<lambda>m2.
           rmap (\<lambda>(mg', errs, effs). (mg', if errs = [] then None else Some SendHadErrors, effs))
             (send_to_each dst_peers m2 mg)))"

definition send_msg_by_ip ::
  "('c4, 'c6) Libs \<Rightarrow> nat \<Rightarrow> byte list \<Rightarrow> ZCPacket \<Rightarrow> IpAddr \<Rightarrow> ('c4, 'c6) PeerManager
    \<Rightarrow> (('c4, 'c6) PeerManager \<times> SendError option \<times> Effect list) rust" where
  "send_msg_by_ip libs now nonce msg ip mg =
     rbind (fill_peer_manager_hdr (mg_my_peer_id mg) 0 (packet_type_u8 PData) msg) (\<lambda>m0.
     rbind (run_nic_packet_process_pipeline libs now m0 mg) (\<lambda>(mg1, m1).
     rbind (pm_header_unwrap m1) (\<lambda>h.
       if to_peer_id h \<noteq> 0
       then rmap (\<lambda>(mg2, r). (mg2, (case r of Inl e \<Rightarrow> Some e | Inr _ \<Rightarrow> None), effects_of r))
              (send_msg_internal m1 (to_peer_id h) mg1)
       else let (dst_peers, via_exit) = dst_peers_of mg1 ip
            in if dst_peers = [] then Inr (mg1, None, []) else send_sealed libs nonce dst_peers via_exit m1 mg1)))"

end
