(* ===== verification/DataPath.thy ===== *)
theory DataPath
  imports PeerManager
begin

text \<open>
  Packets on their way through the overlay: a packet sent by address, relayed by the receive loops of other nodes and
  delivered at its destination. The lemmas say what a relay does to a packet; the properties bound the relays a packet can cause and
  show that what arrives at the device of the destination is what was sent.
\<close>

section \<open>Stops on the way\<close>

text \<open>A packet crosses a tunnel: header and payload stay, the tunnel type may change.\<close>

definition carries :: "ZCPacket \<Rightarrow> ZCPacket \<Rightarrow> bool" where
  "carries q q' \<longleftrightarrow> (\<exists>t t' h pl. shows_as q t h pl \<and> shows_as q' t' h pl)"

text \<open>Where an effect of node \<open>n\<close> makes a receive loop run next, and on which packet.\<close>

definition next_stop :: "PeerId \<Rightarrow> Effect \<Rightarrow> (PeerId \<times> ZCPacket) option" where
  "next_stop n e = (case e of SendOnConn m q \<Rightarrow> Some (m, q) | SendToSelf q \<Rightarrow> Some (n, q) | _ \<Rightarrow> None)"

text \<open>
  \<open>relay_path libs via k (n, p) (m, q)\<close>: packet \<open>p\<close> arriving at node \<open>n\<close> arrives as \<open>q\<close> at node \<open>m\<close> after \<open>k\<close> relays, each by a node
  of \<open>via\<close> that is not the destination. Nothing is assumed about the states and the routing tables of the nodes on the way, which may change at any time.
\<close>

inductive relay_path ::
  "('c4, 'c6) Libs \<Rightarrow> PeerId set \<Rightarrow> nat \<Rightarrow> PeerId \<times> ZCPacket \<Rightarrow> PeerId \<times> ZCPacket \<Rightarrow> bool" for libs via where
  arrived: "relay_path libs via 0 s s"
| relayed: "n \<in> via \<Longrightarrow> mg_my_peer_id mg = n \<Longrightarrow> pm_header_unwrap p = Inr h \<Longrightarrow> to_peer_id h \<noteq> n \<Longrightarrow>
    recv_packet libs now nonce p mg = Inr (mg', effs) \<Longrightarrow> e \<in> set effs \<Longrightarrow> next_stop n e = Some (m, q) \<Longrightarrow> carries q q' \<Longrightarrow>
    relay_path libs via k (m, q') d \<Longrightarrow> relay_path libs via (Suc k) (n, p) d"

section \<open>What sealing keeps of the header\<close>

lemma with_header_result:
  "shows_as p t h pl \<Longrightarrow> with_pm_header f p = Inr q \<Longrightarrow> shows_as q t (f h) pl"
  using shows_as_with_header [of p t h pl f] by auto

lemma mut_payload_result:
  "shows_as p t h pl \<Longrightarrow> mut_payload f p = Inr q \<Longrightarrow> shows_as q t h (f pl)"
  using shows_as_mut_payload [of p t h pl f] by auto

lemma same_flags: "h = h\<lparr>flags := flags h\<rparr>"
  by simp

lemma aead_encrypt_keeps_header:
  assumes "shows_as p t h pl" and "aead_encrypt lib nonce p = Inr (Inr q)"
  shows "\<exists>f pl'. shows_as q t (h\<lparr>flags := f\<rparr>) pl'"
proof (cases "is_encrypted h")
  case True
  with assms have "q = p" by (simp add: aead_encrypt_def shows_as_header [OF assms(1)])
  with assms(1) show ?thesis by (metis same_flags)
next
  case False
  with assms obtain c tag p1 p2 where "mut_payload (\<lambda>_. c) p = Inr p1" "with_pm_header (set_encrypted True) p1 = Inr p2"
    and q: "q = extend_inner (tag @ nonce) p2"
    by (auto simp: aead_encrypt_def shows_as_header [OF assms(1)] shows_as_payload [OF assms(1)] rust_Inr split: option.splits)
  then have "shows_as q t (set_encrypted True h) (c @ tag @ nonce)"
    using assms(1) mut_payload_result with_header_result shows_as_extend by blast
  then show ?thesis unfolding set_encrypted_def by blast
qed

lemma openssl_encrypt_keeps_header:
  assumes "shows_as p t h pl" and "openssl_encrypt lib nonce p = Inr (Inr q)"
  shows "\<exists>f pl'. shows_as q t (h\<lparr>flags := f\<rparr>) pl'"
proof (cases "is_encrypted h")
  case True
  with assms have "q = p" by (simp add: openssl_encrypt_def shows_as_header [OF assms(1)])
  with assms(1) show ?thesis by (metis same_flags)
next
  case False
  with assms obtain c tag p1 where p1: "mut_payload (\<lambda>pl. c @ drop (length c) pl) p = Inr p1"
    and p2: "with_pm_header (set_encrypted True) (extend_inner (nonce @ replicate 4 0) (extend_inner tag p1)) = Inr q"
    by (auto simp: openssl_encrypt_def shows_as_header [OF assms(1)] shows_as_payload [OF assms(1)] rust_Inr split: option.splits if_splits)
  have "shows_as p1 t h (c @ drop (length c) pl)" by (rule mut_payload_result [OF assms(1) p1])
  then have "\<exists>pl'. shows_as q t (set_encrypted True h) pl'"
    using with_header_result [OF shows_as_extend [OF shows_as_extend] p2] by blast
  then show ?thesis unfolding set_encrypted_def by blast
qed

lemma xor_encrypt_keeps_header:
  assumes "shows_as p t h pl" and "xor_encrypt key p = Inr (Inr q)"
  shows "\<exists>f pl'. shows_as q t (h\<lparr>flags := f\<rparr>) pl'"
proof (cases "is_encrypted h")
  case True
  with assms have "q = p" by (simp add: xor_encrypt_def shows_as_header [OF assms(1)])
  with assms(1) show ?thesis by (metis same_flags)
next
  case False
  with assms obtain p1 where "mut_payload (xor_data key) p = Inr p1" "with_pm_header (set_encrypted True) p1 = Inr q"
    by (auto simp: xor_encrypt_def shows_as_header [OF assms(1)] rust_Inr)
  then have "shows_as q t (set_encrypted True h) (xor_data key pl)"
    using assms(1) mut_payload_result with_header_result by blast
  then show ?thesis unfolding set_encrypted_def by blast
qed

lemma encrypt_keeps_header:
  assumes "shows_as p t h pl" and "encrypt c nonce p = Inr (Inr q)"
  shows "\<exists>f pl'. shows_as q t (h\<lparr>flags := f\<rparr>) pl'"
proof (cases c)
  case NullCipher
  with assms have "q = p" by (simp add: null_encrypt_def)
  with assms(1) show ?thesis by (metis same_flags)
qed (use assms in \<open>auto simp: ring_aes_gcm_encrypt_def ring_chacha20_encrypt_def
      intro: xor_encrypt_keeps_header aead_encrypt_keeps_header openssl_encrypt_keeps_header\<close>)

lemma compress_keeps_header:
  assumes "shows_as p t h pl" and "compress_zc zstd algo p = Inr (Inr q)"
  shows "\<exists>f pl'. shows_as q t (h\<lparr>flags := f\<rparr>) pl'"
proof (cases "q = p")
  case True
  with assms(1) show ?thesis by (metis same_flags)
next
  case False
  with assms obtain buf p1 where p1: "with_pm_header (set_compressed True) p = Inr p1"
    and q: "q = extend_inner (tail_bytes (compressor_tail_new algo)) (extend_inner buf (truncate_inner (payload_offset p1) p1))"
    by (auto simp: compress_zc_def shows_as_header [OF assms(1)] shows_as_payload [OF assms(1)] rust_Inr split: if_splits sum.splits)
  have "\<exists>pl'. shows_as q t (set_compressed True h) pl'"
    unfolding q using replace_payload [OF with_header_result [OF assms(1) p1]] shows_as_extend by blast
  then show ?thesis unfolding set_compressed_def by blast
qed

lemma seal_in_place_keeps_header:
  assumes "shows_as p t h pl" and "seal_in_place zstd algo (encrypt c nonce) p = Inr q"
  shows "\<exists>f pl'. shows_as q t (h\<lparr>flags := f\<rparr>) pl'"
proof -
  obtain r where r: "compress_zc zstd algo p = Inr r" using assms(2) by (auto simp: seal_in_place_def rust_Inr)
  have "\<exists>r2. encrypt c nonce p1 = Inr r2 \<and> q = (case r2 of Inl _ \<Rightarrow> p1 | Inr p2 \<Rightarrow> p2)" if "r = Inr p1" for p1
    using assms(2) that by (auto simp: seal_in_place_def r rust_Inr)
  then consider "q = p"
    | p1 where "compress_zc zstd algo p = Inr (Inr p1)" "q = p1"
    | p1 where "compress_zc zstd algo p = Inr (Inr p1)" "encrypt c nonce p1 = Inr (Inr q)"
    using assms(2) r by (cases r) (fastforce simp: seal_in_place_def split: sum.splits)+
  then show ?thesis
  proof cases
    case 1
    with assms(1) show ?thesis by (metis same_flags)
  next
    case (2 p1)
    with assms(1) compress_keeps_header show ?thesis by blast
  next
    case (3 p1)
    then obtain f pl' where "shows_as p1 t (h\<lparr>flags := f\<rparr>) pl'" using assms(1) compress_keeps_header by blast
    from encrypt_keeps_header [OF this 3(2)] show ?thesis by simp
  qed
qed

section \<open>One relay\<close>

lemma send_msg_directly_packet:
  "send_msg_directly msg dst pm = (pm', Inr e) \<Longrightarrow> e = SendToSelf msg \<and> dst = pm_my_peer_id pm \<or> e = SendOnConn dst msg"
  by (auto simp: send_msg_directly_def split: if_splits option.splits prod.splits)

lemma send_by_client_packet:
  "send_by_client msg p mg = (mg', Inr e) \<Longrightarrow> e = SendToSelf msg \<or> (\<exists>m. e = SendOnConn m msg)"
  using send_msg_directly_packet [of msg _ "mg_foreign_network_client mg" _ e]
  by (auto simp: send_by_client_def client_send_msg_def split: prod.splits option.splits)

lemma sent_packet:
  assumes "send_msg_internal msg dst mg = Inr (mg', Inr e)" and "next_stop n e = Some (m, q)"
  shows "q = msg"
proof -
  obtain h where h: "pm_header_unwrap msg = Inr h" using assms(1) by (auto simp: send_msg_internal_def rust_Inr)
  let ?gw = "get_gateway_peer_id (mg_peers mg) dst (get_next_hop_policy (is_latency_first h))"
  have "e = SendToSelf msg \<or> (\<exists>m. e = SendOnConn m msg)"
    using assms(1) send_msg_directly_packet [of msg _ "mg_peers mg" _ e] send_by_client_packet [of msg _ mg mg' e]
    by (cases ?gw) (auto simp: send_msg_internal_def h split: if_splits prod.splits)
  with assms(2) show ?thesis by (auto simp: next_stop_def)
qed

lemma not_foreign:
  "shows_as p t h pl \<Longrightarrow> packet_type h \<noteq> packet_type_u8 PForeignNetworkPacket \<Longrightarrow>
     try_handle_foreign_network_packet p mg = Inr (mg, Inl p)"
  by (simp add: try_handle_foreign_network_packet_def shows_as_header)

lemma recv_in_transit:
  "shows_as p t h pl \<Longrightarrow> packet_type h \<noteq> packet_type_u8 PForeignNetworkPacket \<Longrightarrow> to_peer_id h \<noteq> mg_my_peer_id mg \<Longrightarrow>
     recv_packet libs now nonce p mg = forward_packet libs nonce h p mg"
  by (simp add: recv_packet_def not_foreign) (simp add: shows_as_def)

lemma recv_at_destination:
  "shows_as p t h pl \<Longrightarrow> packet_type h \<noteq> packet_type_u8 PForeignNetworkPacket \<Longrightarrow> to_peer_id h = mg_my_peer_id mg \<Longrightarrow>
     recv_packet libs now nonce p mg = deliver_packet libs now p mg"
  by (simp add: recv_packet_def not_foreign) (simp add: shows_as_def)

lemma forwarded_packet:
  assumes "shows_as p t h pl" and "forward_packet libs nonce h p mg = Inr (mg', effs)" and "e \<in> set effs"
    and "next_stop n e = Some (m, q)"
  shows "forward_counter h \<le> 7 \<and> (\<exists>f pl'. shows_as q t ((relay_hdr h)\<lparr>flags := f\<rparr>) pl') \<and>
    (from_peer_id h \<noteq> mg_my_peer_id mg \<longrightarrow> shows_as q t (relay_hdr h) pl)"
proof -
  have low: "\<not> forward_counter h > 7" using assms(2,3) by (auto simp: forward_packet_def)
  obtain p1 where p1: "with_pm_header relay_hdr p = Inr p1" "shows_as p1 t (relay_hdr h) pl"
    using shows_as_with_header [OF assms(1), of relay_hdr] by blast
  let ?own = "from_peer_id h = mg_my_peer_id mg \<and>
    packet_type h \<in> {packet_type_u8 PData, packet_type_u8 PKcpSrc, packet_type_u8 PKcpDst}"
  obtain p2 r where p2: "(if ?own then seal_in_place (lb_zstd libs) (mg_data_compress_algo mg) (encrypt (mg_encryptor mg) nonce) p1
      else Inr p1) = Inr p2"
    and sent: "send_msg_internal p2 (to_peer_id h) mg = Inr (mg', r)" and effs: "effs = effects_of r"
    using assms(2) low by (auto simp: forward_packet_def p1(1) rust_Inr)
  from effs assms(3) have "r = Inr e" by (auto simp: effects_of_def split: sum.splits)
  with sent assms(4) have q: "q = p2" using sent_packet by blast
  show ?thesis
  proof (cases ?own)
    case True
    with p2 have "seal_in_place (lb_zstd libs) (mg_data_compress_algo mg) (encrypt (mg_encryptor mg) nonce) p1 = Inr p2" by simp
    from seal_in_place_keeps_header [OF p1(2) this] low True q show ?thesis by simp
  next
    case False
    with p2 have "q = p1" by (simp only: q if_False Inr_inject simp_thms) simp
    with p1(2) low show ?thesis by (metis same_flags not_le_imp_less)
  qed
qed

section \<open>Paths\<close>

lemma relay_hdr_fields [simp]:
  "from_peer_id (relay_hdr h) = from_peer_id h" "to_peer_id (relay_hdr h) = to_peer_id h"
  "packet_type (relay_hdr h) = packet_type h" "forward_counter (relay_hdr h) = forward_counter h + 1"
  "hdr_len (relay_hdr h) = hdr_len h"
  by (simp_all add: relay_hdr_def Let_def set_latency_first_def)

lemma flag_set_latency [simp]:
  "is_encrypted (set_latency_first b h) = is_encrypted h" "is_compressed (set_latency_first b h) = is_compressed h"
  using flag_contains_put [of LATENCY_FIRST ENCRYPTED b "flags h"] flag_contains_put [of LATENCY_FIRST COMPRESSED b "flags h"]
  by (simp_all add: flag_op_defs flag_defs)

lemma flag_set_exit [simp]:
  "is_encrypted (set_exit_node b h) = is_encrypted h" "is_compressed (set_exit_node b h) = is_compressed h"
  using flag_contains_put [of EXIT_NODE ENCRYPTED b "flags h"] flag_contains_put [of EXIT_NODE COMPRESSED b "flags h"]
  by (simp_all add: flag_op_defs flag_defs)

lemma relay_hdr_sealed [simp]: "is_encrypted (relay_hdr h) = is_encrypted h" "is_compressed (relay_hdr h) = is_compressed h"
proof -
  have "is_encrypted (g\<lparr>forward_counter := x\<rparr>) = is_encrypted g" "is_compressed (g\<lparr>forward_counter := x\<rparr>) = is_compressed g" for g x
    by (simp_all add: is_encrypted_def is_compressed_def)
  then show "is_encrypted (relay_hdr h) = is_encrypted h" "is_compressed (relay_hdr h) = is_compressed h"
    by (simp_all add: relay_hdr_def Let_def)
qed

lemma shows_as_unique: "shows_as p t h pl \<Longrightarrow> shows_as p t' h' pl' \<Longrightarrow> t' = t \<and> h' = h \<and> pl' = pl"
  by (auto simp: shows_as_def)

lemma carries_shows: "carries q q' \<Longrightarrow> shows_as q t h pl \<Longrightarrow> \<exists>t'. shows_as q' t' h pl"
  unfolding carries_def using shows_as_unique by metis

text \<open>Every relay adds one to a counter that stops the relaying when it is more than seven.\<close>

lemma relay_path_counter:
  assumes "relay_path libs via k s d" and "shows_as (snd s) t h pl" and "packet_type h \<noteq> packet_type_u8 PForeignNetworkPacket"
    and "0 < k"
  shows "k + unat (forward_counter h) \<le> 8"
  using assms
proof (induction arbitrary: t h pl rule: relay_path.induct)
  case (relayed n mg p h0 now nonce mg' effs e m q q' k d)
  have h0: "h0 = h" using relayed.hyps(3) relayed.prems(1) shows_as_header by fastforce
  have "forward_packet libs nonce h p mg = Inr (mg', effs)"
    using relayed.hyps(2,4,5) relayed.prems recv_in_transit h0 by (metis snd_conv)
  then have q: "forward_counter h \<le> 7 \<and> (\<exists>f pl'. shows_as q t ((relay_hdr h)\<lparr>flags := f\<rparr>) pl')"
    using forwarded_packet relayed.prems(1) relayed.hyps(6,7) by (metis snd_conv)
  then obtain f pl' t' where q': "shows_as q' t' ((relay_hdr h)\<lparr>flags := f\<rparr>) pl'"
    using carries_shows relayed.hyps(8) by blast
  from q have low: "unat (forward_counter h) \<le> 7" by (simp add: word_le_nat_alt)
  then have "unat (forward_counter h + 1) = unat (forward_counter h) + 1" by (simp add: unat_word_ariths)
  moreover have "k + unat (forward_counter h + 1) \<le> 8" if "0 < k"
    using relayed.IH [of t' "(relay_hdr h)\<lparr>flags := f\<rparr>" pl'] q' relayed.prems(2) that by simp
  ultimately show ?case using low by (cases "k = 0") auto
qed simp

text \<open>Relays by nodes other than the sender keep the payload and count themselves in the header.\<close>

lemma relay_path_payload:
  assumes "relay_path libs via k s d" and "shows_as (snd s) t h pl" and "packet_type h \<noteq> packet_type_u8 PForeignNetworkPacket"
    and "from_peer_id h \<notin> via"
  shows "\<exists>t'. shows_as (snd d) t' ((relay_hdr ^^ k) h) pl"
  using assms
proof (induction arbitrary: t h rule: relay_path.induct)
  case (relayed n mg p h0 now nonce mg' effs e m q q' k d)
  have h0: "h0 = h" using relayed.hyps(3) relayed.prems(1) shows_as_header by fastforce
  have fwd: "forward_packet libs nonce h p mg = Inr (mg', effs)"
    using relayed.hyps(2,4,5) relayed.prems recv_in_transit h0 by (metis snd_conv)
  have "from_peer_id h \<noteq> mg_my_peer_id mg" using relayed.hyps(1,2) relayed.prems(3) by auto
  then have "shows_as q t (relay_hdr h) pl"
    using forwarded_packet [OF _ fwd] relayed.prems(1) relayed.hyps(6,7) by (metis snd_conv)
  then obtain t' where "shows_as q' t' (relay_hdr h) pl" using carries_shows relayed.hyps(8) by blast
  then have "\<exists>t'. shows_as (snd d) t' ((relay_hdr ^^ k) (relay_hdr h)) pl"
    using relayed.IH relayed.prems(2,3) by simp
  then show ?case by (simp add: funpow_swap1)
qed auto

lemma relays_keep [simp]:
  "from_peer_id ((relay_hdr ^^ k) h) = from_peer_id h" "to_peer_id ((relay_hdr ^^ k) h) = to_peer_id h"
  "packet_type ((relay_hdr ^^ k) h) = packet_type h" "hdr_len ((relay_hdr ^^ k) h) = hdr_len h"
  "is_encrypted ((relay_hdr ^^ k) h) = is_encrypted h" "is_compressed ((relay_hdr ^^ k) h) = is_compressed h"
  by (induction k) simp_all


section \<open>From the sender to the device of the destination\<close>

lemma send_to_each_packets:
  assumes "shows_as msg t h pl" and "send_to_each ps msg mg = Inr (mg', errs, effs)" and "e \<in> set effs"
    and "next_stop n e = Some (m, q)"
  shows "\<exists>x \<in> set ps. shows_as q t (h\<lparr>to_peer_id := x\<rparr>) pl"
  using assms(2,3)
proof (induction ps arbitrary: mg mg' errs effs)
  case (Cons x ps)
  obtain msg' where msg': "with_pm_header (\<lambda>h. h\<lparr>to_peer_id := x\<rparr>) msg = Inr msg'" "shows_as msg' t (h\<lparr>to_peer_id := x\<rparr>) pl"
    using shows_as_with_header [OF assms(1), of "\<lambda>h. h\<lparr>to_peer_id := x\<rparr>"] by blast
  obtain mg1 r mg2 errs' effs' where sent: "send_msg_internal msg' x mg = Inr (mg1, r)"
    and rest: "send_to_each ps msg mg1 = Inr (mg2, errs', effs')" and effs: "effs = effects_of r @ effs'"
    using Cons.prems(1) by (auto simp: msg'(1) rust_Inr)
  show ?case
  proof (cases "e \<in> set effs'")
    case True
    then show ?thesis using Cons.IH [OF rest] by auto
  next
    case False
    with Cons.prems(2) effs have "r = Inr e" by (auto simp: effects_of_def split: sum.splits)
    with sent have "q = msg'" using sent_packet assms(4) by blast
    with msg'(2) show ?thesis by auto
  qed
qed simp

lemma filled_packet:
  assumes "shows_as msg t h pl"
  shows "\<exists>m. fill_peer_manager_hdr from to ty msg = Inr m \<and>
    shows_as m t (h\<lparr>from_peer_id := from, to_peer_id := to, packet_type := ty, flags := 0, forward_counter := 1,
      hdr_len := of_nat (length pl)\<rparr>) pl"
proof -
  let ?f = "\<lambda>h. h\<lparr>from_peer_id := from, to_peer_id := to, packet_type := ty, flags := 0, forward_counter := 1,
    hdr_len := of_nat (length pl)\<rparr>"
  obtain m where "with_pm_header ?f msg = Inr m" "shows_as m t (?f h) pl" using shows_as_with_header [OF assms, of ?f] by blast
  moreover have "payload_len msg = Inr (length pl)"
    using assms by (auto simp: shows_as_bytes payload_len_def checked_sub_def)
  ultimately show ?thesis by (simp add: fill_peer_manager_hdr_def with_pm_header_def)
qed

lemma no_nic_filters:
  assumes "mg_nic_filters mg = []" and "run_nic_packet_process_pipeline libs now msg mg = Inr (mg1, m1)"
  shows "m1 = msg \<and> (\<exists>af. mg1 = mg\<lparr>mg_acl_filter := af\<rparr>)"
  using assms by (auto simp: run_nic_packet_process_pipeline_def rust_Inr Let_def split: if_splits)

lemma flags_only [simp]:
  "is_encrypted (h\<lparr>to_peer_id := x\<rparr>) = is_encrypted h" "is_compressed (h\<lparr>to_peer_id := x\<rparr>) = is_compressed h"
  by (simp_all add: is_encrypted_def is_compressed_def)

lemma setters_keep [simp]:
  "from_peer_id (set_exit_node b h) = from_peer_id h" "from_peer_id (set_latency_first b h) = from_peer_id h"
  "from_peer_id (set_encrypted b h) = from_peer_id h" "from_peer_id (set_compressed b h) = from_peer_id h"
  "packet_type (set_exit_node b h) = packet_type h" "packet_type (set_latency_first b h) = packet_type h"
  "packet_type (set_encrypted b h) = packet_type h" "packet_type (set_compressed b h) = packet_type h"
  "hdr_len (set_exit_node b h) = hdr_len h" "hdr_len (set_latency_first b h) = hdr_len h"
  "hdr_len (set_compressed b h) = hdr_len h" "to_peer_id (set_encrypted b h) = to_peer_id h" "to_peer_id (set_compressed b h) = to_peer_id h"
  by (simp_all add: set_exit_node_def set_latency_first_def set_encrypted_def set_compressed_def)

text \<open>What travels when a plain packet is sent by address: the data of the packet, sealed, from the sender.\<close>

lemma sent_by_ip:
  assumes "zstd_ok (lb_zstd libs)" and "cipher_ok (mg_encryptor mg)" and "length nonce = 12" and "mg_nic_filters mg = []"
    and "shows_as msg t h0 pl" and "length pl \<le> 65536"
    and "send_msg_by_ip libs now nonce msg ip mg = Inr (mg', err, effs)" and "e \<in> set effs" and "next_stop n e = Some (m, q)"
  shows "\<exists>h pl1 pl2. shows_as q t h pl1 \<and> from_peer_id h = mg_my_peer_id mg \<and> packet_type h = packet_type_u8 PData \<and>
    opens (decrypt (mg_encryptor mg)) (is_encrypted h) pl1 pl2 \<and> restores (lb_zstd libs) (hdr_len h) (is_compressed h) pl2 pl"
proof -
  let ?h = "h0\<lparr>from_peer_id := mg_my_peer_id mg, to_peer_id := 0, packet_type := packet_type_u8 PData, flags := 0, forward_counter := 1,
      hdr_len := of_nat (length pl)\<rparr>"
  obtain m0 where m0: "fill_peer_manager_hdr (mg_my_peer_id mg) 0 (packet_type_u8 PData) msg = Inr m0" "shows_as m0 t ?h pl"
    using filled_packet [OF assms(5)] by blast
  have plain: "\<not> is_compressed ?h" "\<not> is_encrypted ?h"
    by (simp_all add: is_compressed_def is_encrypted_def flag_contains_def COMPRESSED_def ENCRYPTED_def)
  have len: "unat (hdr_len ?h) = length pl" using assms(6) by (simp add: unat_of_nat)
  from assms(7) obtain mg1 m1 where run: "run_nic_packet_process_pipeline libs now m0 mg = Inr (mg1, m1)"
    using m0(1) by (auto simp: send_msg_by_ip_def rust_Inr)
  obtain af where mg1: "m1 = m0" "mg1 = mg\<lparr>mg_acl_filter := af\<rparr>" using no_nic_filters [OF assms(4) run] by blast
  obtain dst via_exit where dst: "dst_peers_of mg1 ip = (dst, via_exit)" by (cases "dst_peers_of mg1 ip")
  from assms(7,8) have sealed: "send_sealed libs nonce dst via_exit m0 mg1 = Inr (mg', err, effs)"
    using m0 by (auto simp: send_msg_by_ip_def run mg1(1) shows_as_header dst split: if_splits)
  let ?seal = "try_compress_and_encrypt (lb_zstd libs) (mg_data_compress_algo mg) (encrypt (mg_encryptor mg) nonce) m0"
  from sealed assms(8) have "\<not> (\<exists>e. ?seal = Inr (Inl e))" by (auto simp: send_sealed_def mg1(2))
  then obtain s b c pl1 pl2 where s: "?seal = Inr (Inr s)" "shows_as s t (set_encrypted b (set_compressed c ?h)) pl1"
    and op: "opens (decrypt (mg_encryptor mg)) b pl1 pl2" "restores (lb_zstd libs) (hdr_len ?h) c pl2 pl"
    using encryptor.seal_cases [OF cipher_encryptor [OF assms(2,3)] assms(1) m0(2) plain len assms(6)] by blast
  let ?g = "\<lambda>h. set_exit_node via_exit (set_latency_first (mg_latency_first mg) h)"
  obtain s2 where s2: "with_pm_header ?g s = Inr s2" "shows_as s2 t (?g (set_encrypted b (set_compressed c ?h))) pl1"
    using shows_as_with_header [OF s(2), of ?g] by blast
  from sealed obtain errs where "send_to_each dst s2 mg1 = Inr (mg', errs, effs)"
    by (auto simp: send_sealed_def s(1) s2(1) mg1(2) rust_Inr)
  from send_to_each_packets [OF s2(2) this assms(8,9)] obtain x where
    "shows_as q t ((?g (set_encrypted b (set_compressed c ?h)))\<lparr>to_peer_id := x\<rparr>) pl1" by blast
  then show ?thesis
    by (intro exI [of _ "(?g (set_encrypted b (set_compressed c ?h)))\<lparr>to_peer_id := x\<rparr>"] exI [of _ pl1] exI [of _ pl2])
      (use op in \<open>simp add: is_encrypted_set is_compressed_set\<close>)
qed

lemma delivered:
  assumes "decrypt_and_decompress (lb_zstd libs) (decrypt (mg_encryptor mg)) q = Inr (Inr p)" and "shows_as p t h pl"
    and "packet_type h = packet_type_u8 PData" and "mg_peer_filters mg = [nic_packet_processor, rpc_packet_processor]"
  shows "deliver_packet libs now q mg =
    rmap (\<lambda>(af, ok). (mg\<lparr>mg_acl_filter := af\<rparr>, if ok then [ToNic p] else []))
      (process_packet_with_acl (lb_cidr libs) (lb_pnet libs) (rv_get_peer_groups (mg_route mg)) now p True
         (map_option fst (mg_ipv4 mg)) (map_option fst (mg_ipv6 mg)) (mg_acl_filter mg))"
proof -
  have "run_filters (rev (mg_peer_filters mg)) p = Inr [ToNic p]"
    using assms(3) by (simp add: assms(4) rpc_packet_processor_def nic_packet_processor_def shows_as_header [OF assms(2)])
  then show ?thesis
    by (auto simp: deliver_packet_def assms(1) rmap_def rbind_def Let_def split: sum.splits)
qed

text \<open>
  C3. End to end. Node \<open>a\<close> sends a data packet by address; the packet is relayed by any nodes other than \<open>a\<close>, over
  any tunnels, and arrives at node \<open>b\<close>, to which it is addressed and which uses the same cipher. Then \<open>b\<close> hands to its device exactly the payload that \<open>a\<close> sent,
  if its access control list lets the packet pass, and nothing otherwise; it panics only if the evaluation of the list does. This holds for every cipher
  and compression algorithm; the libraries behind them are only required to invert what they produced.
\<close>

theorem sent_payload_reaches_device:
  assumes "zstd_ok (lb_zstd libs)" and "cipher_ok (mg_encryptor a)" and "length nonce = 12" and "mg_nic_filters a = []"
    and "shows_as msg t h0 pl" and "length pl \<le> 65536"
    and "send_msg_by_ip libs now nonce msg ip a = Inr (a', err, effs)" and "e \<in> set effs"
    and "next_stop (mg_my_peer_id a) e = Some (m, q0)" and "carries q0 q1"
    and "relay_path libs via k (m, q1) (mg_my_peer_id b, q)" and "mg_my_peer_id a \<notin> via"
    and "pm_header_unwrap q = Inr hq" and "to_peer_id hq = mg_my_peer_id b"
    and "mg_encryptor b = mg_encryptor a" and "mg_peer_filters b = [nic_packet_processor, rpc_packet_processor]"
  shows "\<exists>p. payload p = Inr pl \<and>
    recv_packet libs now' nonce' q b =
      rmap (\<lambda>(af, ok). (b\<lparr>mg_acl_filter := af\<rparr>, if ok then [ToNic p] else []))
        (process_packet_with_acl (lb_cidr libs) (lb_pnet libs) (rv_get_peer_groups (mg_route b)) now' p True
           (map_option fst (mg_ipv4 b)) (map_option fst (mg_ipv6 b)) (mg_acl_filter b))"
proof -
  obtain h pl1 pl2 where q0: "shows_as q0 t h pl1" and h: "from_peer_id h = mg_my_peer_id a" "packet_type h = packet_type_u8 PData"
    and op: "opens (decrypt (mg_encryptor a)) (is_encrypted h) pl1 pl2" "restores (lb_zstd libs) (hdr_len h) (is_compressed h) pl2 pl"
    using sent_by_ip [OF assms(1-9)] by blast
  have data: "packet_type h \<noteq> packet_type_u8 PForeignNetworkPacket" by (simp add: h(2))
  obtain t1 where "shows_as q1 t1 h pl1" using carries_shows [OF assms(10) q0] by blast
  then obtain t2 where q: "shows_as q t2 ((relay_hdr ^^ k) h) pl1"
    using relay_path_payload [OF assms(11), of t1 h pl1] data h(1) assms(12) by auto
  with assms(13) have hq: "hq = (relay_hdr ^^ k) h" using shows_as_header by fastforce
  obtain p where p: "decrypt_and_decompress (lb_zstd libs) (decrypt (mg_encryptor b)) q = Inr (Inr p)"
    "shows_as p t2 (set_compressed False (set_encrypted False ((relay_hdr ^^ k) h))) pl"
    using encryptor.open_sealed [OF cipher_encryptor [OF assms(2,3)] op q] by (auto simp: assms(15))
  have "recv_packet libs now' nonce' q b = deliver_packet libs now' q b"
    by (rule recv_at_destination [OF q]) (use data assms(14) hq in simp_all)
  with delivered [OF p _ assms(16)] h(2) shows_as_payload [OF p(2)] show ?thesis by auto
qed

section \<open>The access control list on the way out\<close>

text \<open>Sending does not look at the access control list.\<close>

definition under_acl :: "('c4, 'c6) AclFilter \<Rightarrow> ('c4, 'c6) PeerManager \<times> 'a \<Rightarrow> ('c4, 'c6) PeerManager \<times> 'a" where
  "under_acl af r = ((fst r)\<lparr>mg_acl_filter := af\<rparr>, snd r)"

lemma send_msg_internal_acl:
  "send_msg_internal m p (mg\<lparr>mg_acl_filter := af\<rparr>) = rmap (under_acl af) (send_msg_internal m p mg)"
  by (cases "pm_header_unwrap m")
    (auto simp: send_msg_internal_def under_acl_def send_by_client_def split: option.splits prod.splits)

lemma send_to_each_acl:
  "send_to_each ps msg (mg\<lparr>mg_acl_filter := af\<rparr>) = rmap (under_acl af) (send_to_each ps msg mg)"
proof (induction ps arbitrary: mg)
  case (Cons p ps)
  show ?case
  proof (cases "with_pm_header (\<lambda>h. h\<lparr>to_peer_id := p\<rparr>) msg")
    case (Inr m)
    show ?thesis
    proof (cases "send_msg_internal m p mg")
      case sent: (Inr x)
      obtain mg1 r where x: "x = (mg1, r)" by (cases x)
      show ?thesis
        by (cases "send_to_each ps msg mg1")
          (auto simp: Inr sent x send_msg_internal_acl Cons.IH under_acl_def split: prod.splits)
    qed (simp add: Inr send_msg_internal_acl)
  qed simp
qed (simp add: under_acl_def)

lemma send_sealed_acl:
  "send_sealed libs nonce dst via_exit msg (mg\<lparr>mg_acl_filter := af\<rparr>) = rmap (under_acl af) (send_sealed libs nonce dst via_exit msg mg)"
  by (auto simp: send_sealed_def send_to_each_acl under_acl_def rmap_def rbind_def split: sum.splits prod.splits)

lemma dst_peers_acl: "dst_peers_of (mg\<lparr>mg_acl_filter := af\<rparr>) ip = dst_peers_of mg ip"
  by (cases ip)
    (simp_all add: dst_peers_of_def get_msg_dst_peer_def get_msg_dst_peer_ipv6_def Let_def cong: if_cong option.case_cong)


section \<open>An example network\<close>

text \<open>Node 1 reaches node 3, which owns the address 5, through node 2.\<close>

definition example_route :: "PeerId \<Rightarrow> RouteView" where
  "example_route hop =
     \<lparr>rv_get_next_hop_with_policy = (\<lambda>_ _. Some hop), rv_list_routes = [(3, hop)],
      rv_get_peer_id_by_ipv4 = (\<lambda>a. if a = 5 then Some 3 else None), rv_get_peer_id_by_ipv6 = (\<lambda>_. None),
      rv_get_peer_info = (\<lambda>_. None), rv_get_peer_groups = (\<lambda>_. []), rv_get_origin_my_peer_id = (\<lambda>_ _. None),
      rv_list_peers_own_foreign_network = (\<lambda>_. [])\<rparr>"

definition example_peer_map :: "PeerId \<Rightarrow> PeerId \<Rightarrow> PeerMapState" where
  "example_peer_map n hop =
     add_new_peer_conn hop \<lparr>pc_conn_id = 1, pc_latency_us = 10, pc_is_closed = False, pc_is_hole_punched = False\<rparr>
       \<lparr>pm_my_peer_id = n, pm_peer_map = [], pm_routes = [example_route hop], pm_alive_conns = []\<rparr>"

definition example_manager :: "PeerId \<Rightarrow> PeerId \<Rightarrow> (unit, unit) PeerManager" where
  "example_manager n hop = init_packet_process_pipeline
     \<lparr>mg_my_peer_id = n, mg_peers = example_peer_map n hop,
      mg_foreign_network_client = \<lparr>pm_my_peer_id = n, pm_peer_map = [], pm_routes = [], pm_alive_conns = []\<rparr>,
      mg_foreign_network_peer_id = (\<lambda>_. None), mg_route = example_route hop, mg_encryptor = XorCipher [9],
      mg_data_compress_algo = CNone, mg_acl_filter = acl_filter_new example_lib, mg_ipv4 = Some (1, 24), mg_ipv6 = None,
      mg_exit_nodes = [], mg_latency_first = False, mg_peer_filters = [], mg_nic_filters = []\<rparr>"

definition example_libs :: "(unit, unit) Libs" where
  "example_libs = \<lparr>lb_zstd = example_zstd, lb_cidr = example_lib, lb_pnet = example_pnet\<rparr>"

lemma example_manager_simps [simp]:
  "mg_my_peer_id (example_manager n hop) = n" "mg_encryptor (example_manager n hop) = XorCipher [9]"
  "mg_nic_filters (example_manager n hop) = []" "mg_data_compress_algo (example_manager n hop) = CNone"
  "mg_latency_first (example_manager n hop) = False" "mg_ipv4 (example_manager n hop) = Some (1, 24)"
  "mg_acl_filter (example_manager n hop) = acl_filter_new example_lib" "mg_peers (example_manager n hop) = example_peer_map n hop"
  "mg_peer_filters (example_manager n hop) = [nic_packet_processor, rpc_packet_processor]"
  by (simp_all add: example_manager_def init_packet_process_pipeline_def add_packet_process_pipeline_def)

lemma example_send:
  assumes "shows_as msg t h pl" and "\<not> is_latency_first h" and "dst \<noteq> n" and "hop \<noteq> n"
    and "mg_peers mg = example_peer_map n hop"
  shows "\<exists>mg'. send_msg_internal msg dst mg = Inr (mg', Inr (SendOnConn hop msg))"
proof -
  have "get_gateway_peer_id (example_peer_map n hop) dst LeastHop = Some hop"
    using assms(3,4) by (auto simp: get_gateway_peer_id_def example_peer_map_def add_new_peer_conn_def has_peer_def dm_contains_def
        example_route_def)
  moreover have "has_peer (example_peer_map n hop) hop"
    by (simp add: example_peer_map_def add_new_peer_conn_def has_peer_def dm_contains_def)
  moreover have "\<exists>pm. send_msg_directly msg hop (example_peer_map n hop) = (pm, Inr (SendOnConn hop msg))"
    using assms(4)
    by (simp add: send_msg_directly_def example_peer_map_def add_new_peer_conn_def select_conn_def add_peer_conn_def peer_new_def
        dm_insert_def dm_get_def Let_def)
  ultimately show ?thesis
    by (auto simp: send_msg_internal_def shows_as_header [OF assms(1)] get_next_hop_policy_def assms(2,5))
qed

lemma relay_hdr_latency: "\<not> is_latency_first h \<Longrightarrow> \<not> is_latency_first (relay_hdr h)"
  by (simp add: relay_hdr_def is_latency_first_def)

lemma example_forward:
  assumes "shows_as p t h pl" and "packet_type h = packet_type_u8 PData" and "to_peer_id h \<noteq> n" and "from_peer_id h \<noteq> n"
    and "forward_counter h \<le> 7" and "\<not> is_latency_first h" and "hop \<noteq> n"
  shows "\<exists>mg' q. recv_packet libs now nonce p (example_manager n hop) = Inr (mg', [SendOnConn hop q]) \<and> shows_as q t (relay_hdr h) pl"
proof -
  obtain q where q: "with_pm_header relay_hdr p = Inr q" "shows_as q t (relay_hdr h) pl"
    using shows_as_with_header [OF assms(1), of relay_hdr] by blast
  obtain mg' where "send_msg_internal q (to_peer_id h) (example_manager n hop) = Inr (mg', Inr (SendOnConn hop q))"
    using example_send [OF q(2) relay_hdr_latency [OF assms(6)] assms(3,7), of "example_manager n hop"] by auto
  with q assms show ?thesis by (simp add: recv_in_transit [OF assms(1)] forward_packet_def effects_of_def not_less)
qed

definition example_transit_hdr :: PeerManagerHeader where
  "example_transit_hdr = example_data_hdr\<lparr>from_peer_id := 1, to_peer_id := 3, forward_counter := 1\<rparr>"

definition example_transit :: ZCPacket where
  "example_transit = new_from_buf \<lparr>bm_data = pm_hdr_bytes example_transit_hdr @ [42], bm_cap = 17\<rparr> DummyTunnel"

lemma example_transit_shows: "shows_as example_transit DummyTunnel example_transit_hdr [42]"
proof -
  have len: "length (pm_hdr_bytes example_transit_hdr) = PEER_MANAGER_HEADER_SIZE" by (rule pm_hdr.enc_length) simp
  have "pm_hdr_of (pm_hdr_bytes example_transit_hdr) = example_transit_hdr" by (rule pm_hdr.dec_enc) simp
  with len show ?thesis by (simp add: shows_as_bytes example_transit_def new_from_buf_def payload_offset_def)
qed

lemma carries_self: "shows_as q t h pl \<Longrightarrow> carries q q"
  by (auto simp: carries_def)


lemma example_dst: "dst_peers_of (example_manager 1 2) (V4 5) = ([3], False)"
proof -
  have "(5 :: u32) \<noteq> - 1" "\<not> ipv4_is_multicast 5" "5 \<noteq> last_address (5 :: u32) 24"
    by (simp_all add: ipv4_is_multicast_def last_address_def mask_eq_exp_minus_1)
  then show ?thesis
    by (simp add: dst_peers_of_def get_msg_dst_peer_def pm_get_peer_id_by_ipv4_def example_peer_map_def add_new_peer_conn_def example_route_def)
qed

lemma example_seal:
  assumes "shows_as p t h pl" and "\<not> is_encrypted h"
  shows "\<exists>q. try_compress_and_encrypt example_zstd CNone (encrypt (XorCipher [9]) nonce) p = Inr (Inr q) \<and>
    shows_as q t (set_encrypted True h) (xor_data [9] pl)"
proof -
  obtain q where "rbind (mut_payload (xor_data [9]) p) (\<lambda>p1.
        rmap (Inr :: ZCPacket \<Rightarrow> EncryptError + ZCPacket) (with_pm_header (set_encrypted True) p1)) = Inr (Inr q)"
    "shows_as q t (set_encrypted True h) (xor_data [9] pl)"
    using flagged_payload [OF assms(1)] by blast
  then show ?thesis
    by (auto simp: try_compress_and_encrypt_def compress_zc_def xor_encrypt_def shows_as_header [OF assms(1)] assms(2))
qed

lemma example_sent:
  "\<exists>mg' q h pl1. send_msg_by_ip example_libs 0 (replicate 12 0) example_data_packet (V4 5) (example_manager 1 2) =
     Inr (mg', None, [SendOnConn 2 q]) \<and> shows_as q DummyTunnel h pl1 \<and> from_peer_id h = 1 \<and> to_peer_id h = 3 \<and>
     packet_type h = 1 \<and> forward_counter h = 1 \<and> \<not> is_latency_first h"
proof -
  let ?h = "example_data_hdr\<lparr>from_peer_id := 1, to_peer_id := 0, packet_type := 1, flags := 0, forward_counter := 1,
      hdr_len := of_nat (length (replicate 60 (0 :: byte)))\<rparr>"
  obtain m0 where m0: "fill_peer_manager_hdr 1 0 1 example_data_packet = Inr m0" "shows_as m0 DummyTunnel ?h (replicate 60 0)"
    using filled_packet [OF example_data_shows, of 1 0 1] by blast
  have "\<not> is_encrypted ?h" by (simp add: is_encrypted_def flag_contains_def ENCRYPTED_def)
  then obtain m1 where m1: "try_compress_and_encrypt example_zstd CNone (encrypt (XorCipher [9]) (replicate 12 0)) m0 = Inr (Inr m1)"
    "shows_as m1 DummyTunnel (set_encrypted True ?h) (xor_data [9] (replicate 60 0))"
    using example_seal [OF m0(2)] by blast
  let ?g = "\<lambda>h. set_exit_node False (set_latency_first False h)"
  obtain m2 where m2: "with_pm_header ?g m1 = Inr m2" "shows_as m2 DummyTunnel (?g (set_encrypted True ?h)) (xor_data [9] (replicate 60 0))"
    using shows_as_with_header [OF m1(2), of ?g] by blast
  let ?h3 = "(?g (set_encrypted True ?h))\<lparr>to_peer_id := 3\<rparr>"
  obtain m3 where m3: "with_pm_header (\<lambda>h. h\<lparr>to_peer_id := 3\<rparr>) m2 = Inr m3" "shows_as m3 DummyTunnel ?h3 (xor_data [9] (replicate 60 0))"
    using shows_as_with_header [OF m2(2), of "\<lambda>h. h\<lparr>to_peer_id := 3\<rparr>"] by blast
  have lat: "\<not> is_latency_first ?h3"
    by (simp add: flag_op_defs flag_contains_def flag_put_def LATENCY_FIRST_def ENCRYPTED_def EXIT_NODE_def)
  have hdr: "from_peer_id ?h3 = 1" "packet_type ?h3 = 1" "forward_counter ?h3 = 1"
    by (simp_all add: flag_op_defs)
  obtain mg' where sent: "send_msg_internal m3 3 (example_manager 1 2) = Inr (mg', Inr (SendOnConn 2 m3))"
    using example_send [OF m3(2) lat, of 3 1 2 "example_manager 1 2"] by auto
  have nic: "run_nic_packet_process_pipeline example_libs 0 m0 (example_manager 1 2) = Inr (example_manager 1 2, m0)"
    by (simp add: run_nic_packet_process_pipeline_def process_packet_with_acl_def acl_filter_new_def)
  have zs: "lb_zstd example_libs = example_zstd" by (simp add: example_libs_def)
  have "send_msg_by_ip example_libs 0 (replicate 12 0) example_data_packet (V4 5) (example_manager 1 2) = Inr (mg', None, [SendOnConn 2 m3])"
    using m0(1) m1(1)
    by (simp add: send_msg_by_ip_def nic shows_as_header [OF m0(2)] example_dst send_sealed_def zs m2(1) m3(1) sent effects_of_def)
  with m3(2) hdr lat show ?thesis by fastforce
qed

theorem sent_payload_reaches_device_witness:
  "\<exists>a' q0 q p b'. send_msg_by_ip example_libs 0 (replicate 12 0) example_data_packet (V4 5) (example_manager 1 2) = Inr (a', None, [SendOnConn 2 q0]) \<and>
     relay_path example_libs {2} 1 (2, q0) (3, q) \<and>
     recv_packet example_libs 0 [] q (example_manager 3 2) = Inr (b', [ToNic p]) \<and> payload p = Inr (replicate 60 0)"
proof -
  obtain a' q0 h pl1 where sent: "send_msg_by_ip example_libs 0 (replicate 12 0) example_data_packet (V4 5) (example_manager 1 2) =
      Inr (a', None, [SendOnConn 2 q0])"
    and q0: "shows_as q0 DummyTunnel h pl1" and h: "from_peer_id h = 1" "to_peer_id h = 3" "packet_type h = 1" "forward_counter h = 1"
      "\<not> is_latency_first h"
    using example_sent by blast
  obtain mg' q where recv: "recv_packet example_libs 0 [] q0 (example_manager 2 3) = Inr (mg', [SendOnConn 3 q])"
    and q: "shows_as q DummyTunnel (relay_hdr h) pl1"
    using example_forward [OF q0, of 2 3 example_libs 0 "[]"] h by auto
  have path: "relay_path example_libs {2} (Suc 0) (2, q0) (mg_my_peer_id (example_manager 3 2), q)"
    by (rule relayed [where mg = "example_manager 2 3" and m = 3 and e = "SendOnConn 3 q", OF _ _ shows_as_header [OF q0] _ recv _ _ carries_self [OF q]])
      (simp_all add: h next_stop_def arrived)
  have "\<exists>p. payload p = Inr (replicate 60 0) \<and>
    recv_packet example_libs 0 [] q (example_manager 3 2) =
      rmap (\<lambda>(af, ok). ((example_manager 3 2)\<lparr>mg_acl_filter := af\<rparr>, if ok then [ToNic p] else []))
        (process_packet_with_acl (lb_cidr example_libs) (lb_pnet example_libs) (rv_get_peer_groups (mg_route (example_manager 3 2))) 0 p True
           (map_option fst (mg_ipv4 (example_manager 3 2))) (map_option fst (mg_ipv6 (example_manager 3 2))) (mg_acl_filter (example_manager 3 2)))"
    by (rule sent_payload_reaches_device [where e = "SendOnConn 2 q0", OF _ _ _ _ example_data_shows _ sent _ _ carries_self [OF q0] path _ shows_as_header [OF q]])
      (simp_all add: example_libs_def example_zstd_ok next_stop_def h)
  with sent path show ?thesis
    by (auto simp: process_packet_with_acl_def acl_filter_new_def)
qed


end
