(* ===== verification/RpcPacket.thy ===== *)
theory RpcPacket
  imports Compressor Text
begin

text \<open>
  The packets of the RPC layer (\<open>src/app/src/proto/rpc_impl/packet.rs\<close>, messages of \<open>src/app/src/proto/common.proto\<close>): a message is
  compressed, cut into pieces of at most 1300 bytes and reassembled by a \<open>PacketMerger\<close> at the other end.

  The code that the build generates from the message definitions is the parameter \<open>RpcCodec\<close>; the code relies on \<open>codec_ok\<close>: what
  was encoded is decoded to the same message.
\<close>

type_synonym i64 = "64 word"

section \<open>Messages\<close>

datatype CompressionAlgoPb = PbInvalid | PbNone | PbZstd

definition algo_pb_code :: "CompressionAlgoPb \<Rightarrow> 32 word" where
  "algo_pb_code a = (case a of PbInvalid \<Rightarrow> 0 | PbNone \<Rightarrow> 1 | PbZstd \<Rightarrow> 2)"

text \<open>An unknown code is read as the default value of the enumeration.\<close>

definition algo_pb_of :: "32 word \<Rightarrow> CompressionAlgoPb" where
  "algo_pb_of c = (if c = 1 then PbNone else if c = 2 then PbZstd else PbInvalid)"

definition algo_from_pb :: "CompressionAlgoPb \<Rightarrow> CompressorAlgo option" where
  "algo_from_pb a = (case a of PbZstd \<Rightarrow> Some ZstdDefault | PbNone \<Rightarrow> Some CNone | PbInvalid \<Rightarrow> None)"

definition algo_to_pb :: "CompressorAlgo \<Rightarrow> CompressionAlgoPb" where
  "algo_to_pb a = (case a of ZstdDefault \<Rightarrow> PbZstd | CNone \<Rightarrow> PbNone)"

record RpcDescriptor =
  rd_domain_name :: string
  rd_proto_name :: string
  rd_service_name :: string
  rd_method_index :: u32

record RpcCompressionInfo =
  ci_algo :: "32 word"
  ci_accepted_algo :: "32 word"

record RpcPacket =
  rp_from_peer :: u32
  rp_to_peer :: u32
  rp_transaction_id :: i64
  rp_descriptor :: "RpcDescriptor option"
  rp_body :: "byte list"
  rp_is_request :: bool
  rp_total_pieces :: u32
  rp_piece_idx :: u32
  rp_trace_id :: "32 word"
  rp_compression_info :: "RpcCompressionInfo option"

definition rpc_packet_default :: RpcPacket where
  "rpc_packet_default =
     \<lparr>rp_from_peer = 0, rp_to_peer = 0, rp_transaction_id = 0, rp_descriptor = None, rp_body = [], rp_is_request = False,
      rp_total_pieces = 0, rp_piece_idx = 0, rp_trace_id = 0, rp_compression_info = None\<rparr>"

record RpcCodec =
  rc_encode :: "RpcPacket \<Rightarrow> byte list"
  rc_decode :: "byte list \<Rightarrow> RpcPacket option"

definition codec_ok :: "RpcCodec \<Rightarrow> bool" where
  "codec_ok codec \<longleftrightarrow> (\<forall>p. rc_decode codec (rc_encode codec p) = Some p)"

text \<open>The errors of the RPC layer; a message of the error library is kept by its cause.\<close>

datatype ExecCause = CompressCause CompressError | AlgoCause | MessageCause string

datatype RpcError =
    ExecutionError ExecCause
  | DecodeError
  | EncodeError
  | InvalidMethodIndex u8 string
  | InvalidServiceKey string string
  | MalformatRpcPacket string
  | RpcTimeout
  | RpcTunnelError
  | RpcShutdown

section \<open>Compression of messages\<close>

definition compress_packet :: "ZstdLib \<Rightarrow> CompressionAlgoPb \<Rightarrow> byte list \<Rightarrow> RpcError + (byte list \<times> CompressionAlgoPb)" where
  "compress_packet lib accepted content =
     (let algo = (case algo_from_pb accepted of Some a \<Rightarrow> a | None \<Rightarrow> CNone)
      in case compress_raw lib content algo of
           Inl e \<Rightarrow> Inl (ExecutionError (CompressCause e))
         | Inr compressed \<Rightarrow>
             if length compressed \<ge> length content then Inr (content, PbNone) else Inr (compressed, algo_to_pb algo))"

definition decompress_packet :: "ZstdLib \<Rightarrow> CompressionAlgoPb \<Rightarrow> byte list \<Rightarrow> RpcError + byte list" where
  "decompress_packet lib a content =
     (case algo_from_pb a of
        None \<Rightarrow> Inl (ExecutionError AlgoCause)
      | Some algo \<Rightarrow> map_sum (\<lambda>e. ExecutionError (CompressCause e)) id (decompress_raw lib content algo))"

section \<open>Cutting a message into pieces\<close>

definition RPC_PACKET_CONTENT_MTU :: nat where
  "RPC_PACKET_CONTENT_MTU = 1300"

record BuildRpcPacketArgs =
  ba_from_peer :: u32
  ba_to_peer :: u32
  ba_rpc_desc :: RpcDescriptor
  ba_transaction_id :: i64
  ba_is_req :: bool
  ba_content :: "byte list"
  ba_trace_id :: "32 word"
  ba_compression_info :: RpcCompressionInfo

definition div_ceil :: "nat \<Rightarrow> nat \<Rightarrow> nat" where
  "div_ceil a b = (if a mod b = 0 then a div b else a div b + 1)"

text \<open>The message of one round of the loop, which starts at \<open>cur_offset\<close>.\<close>

definition piece_at :: "BuildRpcPacketArgs \<Rightarrow> nat \<Rightarrow> RpcPacket" where
  "piece_at args cur_offset =
     \<lparr>rp_from_peer = ba_from_peer args, rp_to_peer = ba_to_peer args, rp_transaction_id = ba_transaction_id args,
      rp_descriptor = (if cur_offset = 0 \<or> ci_algo (ba_compression_info args) = algo_pb_code PbNone then Some (ba_rpc_desc args) else None),
      rp_body = take RPC_PACKET_CONTENT_MTU (drop cur_offset (ba_content args)),
      rp_is_request = ba_is_req args,
      rp_total_pieces = of_nat (div_ceil (length (ba_content args)) RPC_PACKET_CONTENT_MTU),
      rp_piece_idx = of_nat (cur_offset div RPC_PACKET_CONTENT_MTU),
      rp_trace_id = ba_trace_id args,
      rp_compression_info = (if cur_offset = 0 then Some (ba_compression_info args) else None)\<rparr>"

function pieces_from :: "BuildRpcPacketArgs \<Rightarrow> nat \<Rightarrow> RpcPacket list" where
  "pieces_from args cur_offset =
     (if cur_offset < length (ba_content args)
      then piece_at args cur_offset # pieces_from args (cur_offset + min RPC_PACKET_CONTENT_MTU (length (ba_content args) - cur_offset))
      else if ba_content args = [] then [piece_at args cur_offset] else [])"
  by pat_completeness auto

termination
  by (relation "measure (\<lambda>(args, off). length (ba_content args) - off)") (auto simp: RPC_PACKET_CONTENT_MTU_def)

declare pieces_from.simps [simp del]

text \<open>The packet around a message; \<open>junk\<close> is the uninitialised memory of the header area.\<close>

definition rpc_zc_packet :: "RpcCodec \<Rightarrow> (nat \<Rightarrow> byte) \<Rightarrow> BuildRpcPacketArgs \<Rightarrow> RpcPacket \<Rightarrow> ZCPacket rust" where
  "rpc_zc_packet codec junk args p =
     rbind (new_with_payload junk (rc_encode codec p))
       (fill_peer_manager_hdr (ba_from_peer args) (ba_to_peer args)
          (packet_type_u8 (if ba_is_req args then PRpcReq else PRpcResp)))"

fun rmap_list :: "('a \<Rightarrow> 'b rust) \<Rightarrow> 'a list \<Rightarrow> 'b list rust" where
  "rmap_list f [] = Inr []"
| "rmap_list f (x # xs) = rbind (f x) (\<lambda>y. rmap (\<lambda>ys. y # ys) (rmap_list f xs))"

definition build_rpc_packet :: "RpcCodec \<Rightarrow> (nat \<Rightarrow> byte) \<Rightarrow> BuildRpcPacketArgs \<Rightarrow> ZCPacket list rust" where
  "build_rpc_packet codec junk args = rmap_list (rpc_zc_packet codec junk args) (pieces_from args 0)"

section \<open>Merging the pieces\<close>

record PacketMerger =
  mr_first_piece :: "RpcPacket option"
  mr_pieces :: "RpcPacket list"
  mr_last_updated :: nat

definition packet_merger_new :: "nat \<Rightarrow> PacketMerger" where
  "packet_merger_new now = \<lparr>mr_first_piece = None, mr_pieces = [], mr_last_updated = now\<rparr>"

definition try_merge_pieces :: "PacketMerger \<Rightarrow> RpcPacket option" where
  "try_merge_pieces m =
     (case mr_pieces m of
        [] \<Rightarrow> None
      | first # _ \<Rightarrow>
          if mr_first_piece m = None \<or> list_ex (\<lambda>p. rp_total_pieces p = 0) (mr_pieces m) then None
          else Some (first\<lparr>rp_total_pieces := 1, rp_piece_idx := 0, rp_body := concat (map rp_body (mr_pieces m))\<rparr>))"

definition vec_resize :: "nat \<Rightarrow> 'a \<Rightarrow> 'a list \<Rightarrow> 'a list" where
  "vec_resize n d xs = take n xs @ replicate (n - length xs) d"

definition feed :: "nat \<Rightarrow> RpcPacket \<Rightarrow> PacketMerger \<Rightarrow> PacketMerger \<times> (RpcError + RpcPacket option)" where
  "feed now p m =
     (let total = rp_total_pieces p; idx = rp_piece_idx p
      in if total = 0 \<and> idx = 0 then (m, Inr (Some p))
         else if idx = 0 \<and> rp_descriptor p = None then (m, Inl (MalformatRpcPacket ''descriptor is missing''))
         else if total > 32 * 1024 \<or> total = 0 then (m, Inl (MalformatRpcPacket (''total_pieces is invalid: '' @ show_nat (unat total))))
         else if idx \<ge> total then (m, Inl (MalformatRpcPacket ''piece_idx >= total_pieces''))
         else let other = (case mr_first_piece m of
                             None \<Rightarrow> True
                           | Some f \<Rightarrow> rp_transaction_id f \<noteq> rp_transaction_id p \<or> rp_from_peer f \<noteq> rp_from_peer p);
                  m1 = (if other then m\<lparr>mr_first_piece := Some p, mr_pieces := []\<rparr> else m);
                  m2 = m1\<lparr>mr_pieces := (vec_resize (unat total) rpc_packet_default (mr_pieces m1))[unat idx := p], mr_last_updated := now\<rparr>
              in (m2, Inr (try_merge_pieces m2)))"

section \<open>Pieces and their reassembly\<close>

definition piece_count :: "BuildRpcPacketArgs \<Rightarrow> nat" where
  "piece_count args = div_ceil (length (ba_content args)) RPC_PACKET_CONTENT_MTU"

definition nth_piece :: "BuildRpcPacketArgs \<Rightarrow> nat \<Rightarrow> RpcPacket" where
  "nth_piece args i = piece_at args (i * RPC_PACKET_CONTENT_MTU)"

lemma less_div_ceil:
  fixes n q r i :: nat
  assumes "n = 1300 * q + r" and "r < 1300"
  shows "i < (if r = 0 then q else q + 1) \<longleftrightarrow> i * 1300 < n"
proof (cases "i < q")
  case True
  then have "1300 * (i + 1) \<le> 1300 * q" by (intro mult_le_mono2) simp
  with True assms show ?thesis by (simp add: algebra_simps)
next
  case False
  then have "1300 * q \<le> 1300 * i" by (intro mult_le_mono2) simp
  with False assms show ?thesis by (cases "i = q") (auto simp: algebra_simps)
qed

lemma less_piece_count: "i < piece_count args \<longleftrightarrow> i * RPC_PACKET_CONTENT_MTU < length (ba_content args)"
  using less_div_ceil [of "length (ba_content args)" "length (ba_content args) div 1300" "length (ba_content args) mod 1300" i]
  by (simp add: piece_count_def div_ceil_def RPC_PACKET_CONTENT_MTU_def)

lemma pieces_from_nth:
  assumes "ba_content args \<noteq> []"
  shows "i \<le> piece_count args \<Longrightarrow> pieces_from args (i * RPC_PACKET_CONTENT_MTU) = map (nth_piece args) [i..<piece_count args]"
proof (induction "piece_count args - i" arbitrary: i)
  case 0
  then have "i = piece_count args" by simp
  then show ?case using assms less_piece_count [of i args] by (simp add: pieces_from.simps)
next
  case (Suc k)
  let ?off = "i * RPC_PACKET_CONTENT_MTU" and ?n = "length (ba_content args)"
  have i: "i < piece_count args" using Suc.hyps(2) by linarith
  then have off: "?off < ?n" by (simp add: less_piece_count)
  have rest: "pieces_from args (?off + min RPC_PACKET_CONTENT_MTU (?n - ?off)) = map (nth_piece args) [Suc i..<piece_count args]"
  proof (cases "Suc i < piece_count args")
    case True
    then have "?off + RPC_PACKET_CONTENT_MTU < ?n" using less_piece_count [of "Suc i" args] by (simp add: add.commute)
    then have "?off + min RPC_PACKET_CONTENT_MTU (?n - ?off) = Suc i * RPC_PACKET_CONTENT_MTU" by (simp add: min_def)
    then show ?thesis using Suc.hyps(1) [of "Suc i"] Suc.hyps(2) i by (metis Suc_leI diff_Suc_Suc Suc_diff_Suc diff_Suc_1)
  next
    case False
    then have "?n \<le> Suc i * RPC_PACKET_CONTENT_MTU" using less_piece_count [of "Suc i" args] by simp
    then have "?off + min RPC_PACKET_CONTENT_MTU (?n - ?off) = ?n" using off by simp
    with False assms show ?thesis by (simp add: pieces_from.simps)
  qed
  from off have "pieces_from args ?off = nth_piece args i # map (nth_piece args) [Suc i..<piece_count args]"
    by (subst pieces_from.simps) (simp add: rest nth_piece_def)
  with i show ?case by (simp add: upt_rec)
qed

lemma pieces_nth:
  "ba_content args \<noteq> [] \<Longrightarrow> pieces_from args 0 = map (nth_piece args) [0..<piece_count args]"
  using pieces_from_nth [of args 0] by simp

lemma concat_chunks: "concat (map (\<lambda>i. take k (drop (i * k) xs)) [0..<n]) = take (n * k) xs"
proof (induction n)
  case (Suc n)
  have "take (Suc n * k) xs = take (n * k) xs @ take k (drop (n * k) xs)" by (metis add.commute mult_Suc take_add)
  with Suc show ?case by simp
qed simp

lemma concat_bodies: "concat (map (\<lambda>i. rp_body (nth_piece args i)) [0..<piece_count args]) = ba_content args"
proof -
  have "length (ba_content args) \<le> piece_count args * RPC_PACKET_CONTENT_MTU" using less_piece_count [of "piece_count args" args] by simp
  then show ?thesis by (simp add: nth_piece_def piece_at_def concat_chunks)
qed

lemma piece_count_pos: "ba_content args \<noteq> [] \<longleftrightarrow> 0 < piece_count args"
  using less_piece_count [of 0 args] by simp

text \<open>What the merger gives for a message.\<close>

definition merged :: "BuildRpcPacketArgs \<Rightarrow> RpcPacket" where
  "merged args =
     (nth_piece args 0)\<lparr>rp_total_pieces := (if ba_content args = [] then 0 else 1), rp_piece_idx := 0, rp_body := ba_content args\<rparr>"

text \<open>The merger has received the pieces with an index in \<open>S\<close>.\<close>

definition has_pieces :: "BuildRpcPacketArgs \<Rightarrow> nat set \<Rightarrow> PacketMerger \<Rightarrow> bool" where
  "has_pieces args S m \<longleftrightarrow>
     (\<exists>f. mr_first_piece m = Some f \<and> rp_transaction_id f = ba_transaction_id args \<and> rp_from_peer f = ba_from_peer args) \<and>
     mr_pieces m = map (\<lambda>i. if i \<in> S then nth_piece args i else rpc_packet_default) [0..<piece_count args]"

text \<open>A merger that has seen nothing of the message: a new one, or one that is busy with another message.\<close>

definition unrelated :: "BuildRpcPacketArgs \<Rightarrow> PacketMerger \<Rightarrow> bool" where
  "unrelated args m \<longleftrightarrow>
     (case mr_first_piece m of
        None \<Rightarrow> True
      | Some f \<Rightarrow> rp_transaction_id f \<noteq> ba_transaction_id args \<or> rp_from_peer f \<noteq> ba_from_peer args)"

lemma nth_piece_fields [simp]:
  "rp_transaction_id (nth_piece args i) = ba_transaction_id args" "rp_from_peer (nth_piece args i) = ba_from_peer args"
  "rp_to_peer (nth_piece args i) = ba_to_peer args" "rp_is_request (nth_piece args i) = ba_is_req args"
  "rp_total_pieces (nth_piece args i) = of_nat (piece_count args)" "rp_piece_idx (nth_piece args i) = of_nat i"
  "rp_descriptor (nth_piece args 0) = Some (ba_rpc_desc args)"
  by (simp_all add: nth_piece_def piece_at_def piece_count_def RPC_PACKET_CONTENT_MTU_def)

lemma feed_piece:
  assumes "i < piece_count args" and "piece_count args \<le> 32768"
  shows "feed now (nth_piece args i) m =
    (let m1 = (if unrelated args m then m\<lparr>mr_first_piece := Some (nth_piece args i), mr_pieces := []\<rparr> else m);
         m2 = m1\<lparr>mr_pieces := (vec_resize (piece_count args) rpc_packet_default (mr_pieces m1))[i := nth_piece args i], mr_last_updated := now\<rparr>
     in (m2, Inr (try_merge_pieces m2)))"
proof -
  let ?n = "piece_count args"
  have u: "unat (of_nat ?n :: u32) = ?n" "unat (of_nat i :: u32) = i" using assms by (simp_all add: unat_of_nat)
  have n0: "(of_nat ?n :: u32) \<noteq> 0" using u(1) assms(1) by auto
  have le: "\<not> (of_nat ?n :: u32) > 32 * 1024" using u(1) assms(2) by (simp add: word_less_nat_alt)
  have lt: "\<not> (of_nat i :: u32) \<ge> of_nat ?n" using u assms(1) by (simp add: word_le_nat_alt)
  have d: "\<not> ((of_nat i :: u32) = 0 \<and> rp_descriptor (nth_piece args i) = None)"
    using u(2) by (cases "i = 0") (auto simp: unat_eq_0)
  from n0 le lt d u show ?thesis
    by (simp add: feed_def Let_def unrelated_def split: option.split)
qed

lemma vec_resize_same [simp]: "length xs = n \<Longrightarrow> vec_resize n d xs = xs"
  by (simp add: vec_resize_def)

lemma vec_resize_Nil [simp]: "vec_resize n d [] = replicate n d"
  by (simp add: vec_resize_def)

lemma update_piece:
  assumes "i < n"
  shows "(map (\<lambda>j. if j \<in> S then f j else d) [0..<n])[i := f i] = map (\<lambda>j. if j \<in> insert i S then f j else d) [0..<n]"
  using assms by (intro nth_equalityI) (auto simp: nth_list_update)

lemma first_piece:
  assumes "i < n"
  shows "(replicate n d)[i := f i] = map (\<lambda>j. if j \<in> {i} then f j else d) [0..<n]"
  using assms by (intro nth_equalityI) (auto simp: nth_list_update)

lemma try_merge_has_pieces:
  assumes "has_pieces args S m" and "0 < piece_count args" and "piece_count args \<le> 32768" and "S \<subseteq> {..<piece_count args}"
  shows "try_merge_pieces m = (if S = {..<piece_count args} then Some (merged args) else None)"
proof -
  let ?n = "piece_count args"
  let ?f = "\<lambda>i. if i \<in> S then nth_piece args i else rpc_packet_default"
  have n0: "(of_nat ?n :: u32) \<noteq> 0"
  proof
    assume "(of_nat ?n :: u32) = 0"
    then have "unat (of_nat ?n :: u32) = 0" by simp
    with assms(2,3) show False by (simp add: unat_of_nat)
  qed
  then have zero: "rp_total_pieces (?f i) = 0 \<longleftrightarrow> i \<notin> S" for i by (simp add: rpc_packet_default_def)
  from assms(1) obtain f where m: "mr_first_piece m = Some f" "mr_pieces m = map ?f [0..<?n]" by (auto simp: has_pieces_def)
  have "[0..<?n] = 0 # [1..<?n]" using upt_conv_Cons [OF assms(2)] by simp
  then have cons: "mr_pieces m = ?f 0 # map ?f [1..<?n]" using m(2) by simp
  have missing: "list_ex (\<lambda>p. rp_total_pieces p = 0) (mr_pieces m) \<longleftrightarrow> S \<noteq> {..<?n}"
  proof -
    have "list_ex (\<lambda>p. rp_total_pieces p = 0) (mr_pieces m) \<longleftrightarrow> (\<exists>i \<in> {..<?n}. i \<notin> S)"
      by (simp only: m(2) list_ex_iff set_map Set.bex_simps set_upt atLeast0LessThan zero)
    with assms(4) show ?thesis by auto
  qed
  show ?thesis
  proof (cases "S = {..<?n}")
    case True
    have "mr_pieces m = map (nth_piece args) [0..<?n]" unfolding m(2) by (rule map_cong) (simp_all add: True)
    then have "concat (map rp_body (mr_pieces m)) = ba_content args" using concat_bodies [of args] by (simp add: o_def)
    moreover have "?f 0 = nth_piece args 0" using True assms(2) by simp
    ultimately show ?thesis using True missing m(1) cons assms(2) by (simp add: try_merge_pieces_def merged_def piece_count_pos)
  next
    case False
    then show ?thesis using missing cons by (auto simp: try_merge_pieces_def)
  qed
qed

lemma feed_first:
  assumes "unrelated args m" and "i < piece_count args" and "piece_count args \<le> 32768"
  shows "\<exists>m'. feed now (nth_piece args i) m = (m', Inr (if {i} = {..<piece_count args} then Some (merged args) else None)) \<and>
    has_pieces args {i} m'"
proof -
  define m' where "m' = m\<lparr>mr_first_piece := Some (nth_piece args i),
    mr_pieces := (replicate (piece_count args) rpc_packet_default)[i := nth_piece args i], mr_last_updated := now\<rparr>"
  have "has_pieces args {i} m'"
    using first_piece [OF assms(2), of rpc_packet_default "nth_piece args"] by (simp add: has_pieces_def m'_def)
  moreover have "feed now (nth_piece args i) m = (m', Inr (try_merge_pieces m'))"
    using assms by (simp add: feed_piece Let_def m'_def)
  ultimately show ?thesis using try_merge_has_pieces [of args "{i}" m'] assms(2,3) by auto
qed

lemma feed_next:
  assumes "has_pieces args S m" and "S \<subseteq> {..<piece_count args}" and "i < piece_count args" and "piece_count args \<le> 32768"
  shows "\<exists>m'. feed now (nth_piece args i) m = (m', Inr (if insert i S = {..<piece_count args} then Some (merged args) else None)) \<and>
    has_pieces args (insert i S) m'"
proof -
  define m' where "m' = m\<lparr>mr_pieces := (mr_pieces m)[i := nth_piece args i], mr_last_updated := now\<rparr>"
  from assms(1) have old: "\<not> unrelated args m" and len: "length (mr_pieces m) = piece_count args"
    by (auto simp: has_pieces_def unrelated_def)
  have "has_pieces args (insert i S) m'"
    using assms(1) update_piece [OF assms(3), of S "nth_piece args" rpc_packet_default] by (auto simp: has_pieces_def m'_def)
  moreover have "feed now (nth_piece args i) m = (m', Inr (try_merge_pieces m'))"
    using assms(3,4) old len by (simp add: feed_piece Let_def m'_def)
  ultimately show ?thesis using try_merge_has_pieces [of args "insert i S" m'] assms(2,3,4) by auto
qed

text \<open>Packets arriving one after the other, each with its time; the results of all feeds.\<close>

fun feed_all :: "(nat \<times> RpcPacket) list \<Rightarrow> PacketMerger \<Rightarrow> PacketMerger \<times> (RpcError + RpcPacket option) list" where
  "feed_all [] m = (m, [])"
| "feed_all ((now, p) # ps) m = (let (m1, r) = feed now p m; (m2, rs) = feed_all ps m1 in (m2, r # rs))"

definition arrivals :: "BuildRpcPacketArgs \<Rightarrow> (nat \<times> nat) list \<Rightarrow> (nat \<times> RpcPacket) list" where
  "arrivals args is = map (\<lambda>(now, i). (now, nth_piece args i)) is"

lemma feed_all_next:
  assumes "has_pieces args S m" and "S \<subseteq> {..<piece_count args}" and "snd ` set is \<subseteq> {..<piece_count args}" and "piece_count args \<le> 32768"
  shows "snd (feed_all (arrivals args is) m) =
    map (\<lambda>k. Inr (if S \<union> snd ` set (take (Suc k) is) = {..<piece_count args} then Some (merged args) else None)) [0..<length is]"
  using assms(1-3)
proof (induction "is" arbitrary: m S)
  case (Cons x "is")
  obtain now i where x: "x = (now, i)" by (cases x)
  have i: "i < piece_count args" using Cons.prems(3) x by auto
  obtain m' where m': "feed now (nth_piece args i) m = (m', Inr (if insert i S = {..<piece_count args} then Some (merged args) else None))"
    "has_pieces args (insert i S) m'"
    using feed_next [OF Cons.prems(1,2) i assms(4)] by blast
  have "snd (feed_all (arrivals args is) m') =
    map (\<lambda>k. Inr (if insert i S \<union> snd ` set (take (Suc k) is) = {..<piece_count args} then Some (merged args) else None)) [0..<length is]"
    by (rule Cons.IH [OF m'(2)]) (use Cons.prems i in auto)
  moreover have "[0..<length (x # is)] = 0 # map Suc [0..<length is]" by (simp add: upt_conv_Cons map_Suc_upt del: upt_Suc)
  ultimately show ?case
    by (simp add: arrivals_def x m'(1) split_beta Let_def del: upt_Suc)
qed (simp add: arrivals_def)

lemma feed_all_indexed:
  assumes "unrelated args m" and "snd ` set is \<subseteq> {..<piece_count args}" and "piece_count args \<le> 32768"
  shows "snd (feed_all (arrivals args is) m) =
    map (\<lambda>k. Inr (if snd ` set (take (Suc k) is) = {..<piece_count args} then Some (merged args) else None)) [0..<length is]"
proof (cases "is")
  case (Cons x js)
  obtain now i where x: "x = (now, i)" by (cases x)
  have i: "i < piece_count args" and js: "snd ` set js \<subseteq> {..<piece_count args}" using assms(2) Cons x by auto
  obtain m' where m': "feed now (nth_piece args i) m = (m', Inr (if {i} = {..<piece_count args} then Some (merged args) else None))"
    "has_pieces args {i} m'"
    using feed_first [OF assms(1) i assms(3)] by blast
  have "snd (feed_all (arrivals args js) m') =
    map (\<lambda>k. Inr (if {i} \<union> snd ` set (take (Suc k) js) = {..<piece_count args} then Some (merged args) else None)) [0..<length js]"
    by (rule feed_all_next [OF m'(2) _ js assms(3)]) (use i in simp)
  moreover have "[0..<length (x # js)] = 0 # map Suc [0..<length js]" by (simp add: upt_conv_Cons map_Suc_upt del: upt_Suc)
  ultimately show ?thesis
    by (simp add: arrivals_def Cons x m'(1) split_beta Let_def del: upt_Suc)
qed (simp add: arrivals_def)

lemma nth_piece_inj:
  assumes "piece_count args \<le> 32768"
  shows "inj_on (nth_piece args) {..<piece_count args}"
proof (rule inj_onI)
  fix i j
  assume i: "i \<in> {..<piece_count args}" and j: "j \<in> {..<piece_count args}" and "nth_piece args i = nth_piece args j"
  then have "(of_nat i :: u32) = of_nat j" by (metis nth_piece_fields(6))
  then have "unat (of_nat i :: u32) = unat (of_nat j :: u32)" by simp
  then show "i = j" using i j assms by (simp add: unat_of_nat)
qed

text \<open>Arriving packets as indices of pieces.\<close>

lemma arrivals_of:
  assumes "snd ` set ps \<subseteq> nth_piece args ` {..<n}"
  obtains "is" where "ps = arrivals args is" and "snd ` set is \<subseteq> {..<n}" and "length is = length ps"
proof -
  have "\<forall>p \<in> set ps. \<exists>i < n. snd p = nth_piece args i" using assms by force
  then obtain f where f: "\<And>p. p \<in> set ps \<Longrightarrow> f p < n \<and> snd p = nth_piece args (f p)" by metis
  let ?is = "map (\<lambda>p. (fst p, f p)) ps"
  have "ps = arrivals args ?is"
    unfolding arrivals_def by (rule nth_equalityI) (use f in \<open>auto simp: split_beta prod_eq_iff\<close>)
  moreover have "snd ` set ?is \<subseteq> {..<n}" using f by auto
  ultimately show ?thesis using that by simp
qed

lemma merge_nonempty:
  assumes "ba_content args \<noteq> []" and "length (ba_content args) \<le> 32768 * 1300" and "unrelated args m"
    and "snd ` set ps \<subseteq> set (pieces_from args 0)"
  shows "snd (feed_all ps m) =
    map (\<lambda>k. Inr (if set (pieces_from args 0) \<subseteq> snd ` set (take (Suc k) ps) then Some (merged args) else None)) [0..<length ps]"
proof -
  let ?n = "piece_count args"
  have n: "?n \<le> 32768"
    using assms(2) less_piece_count [of 32768 args] by (simp add: RPC_PACKET_CONTENT_MTU_def not_less)
  have set: "set (pieces_from args 0) = nth_piece args ` {..<?n}"
    by (simp add: pieces_nth [OF assms(1)] atLeast0LessThan)
  obtain "is" where "is": "ps = arrivals args is" "snd ` set is \<subseteq> {..<?n}" "length is = length ps"
    using arrivals_of assms(4) set by metis
  have all: "set (pieces_from args 0) \<subseteq> snd ` set (take k ps) \<longleftrightarrow> snd ` set (take k is) = {..<?n}" for k
  proof -
    have got: "snd ` set (take k ps) = nth_piece args ` (snd ` set (take k is))"
      by (simp add: "is"(1) arrivals_def take_map split_beta image_image)
    have sub: "snd ` set (take k is) \<subseteq> {..<?n}" using "is"(2) by (meson image_mono order_trans set_take_subset)
    have "i \<in> snd ` set (take k is)" if "i < ?n" "nth_piece args i \<in> nth_piece args ` (snd ` set (take k is))" for i
      using that sub inj_onD [OF nth_piece_inj [OF n]] by blast
    with sub show ?thesis unfolding set got by blast
  qed
  show ?thesis
    unfolding all using feed_all_indexed [OF assms(3) "is"(2) n] by (simp add: "is"(1) arrivals_def)
qed

lemma pieces_empty: "ba_content args = [] \<Longrightarrow> pieces_from args 0 = [merged args]"
  by (simp add: pieces_from.simps merged_def nth_piece_def piece_at_def div_ceil_def)

lemma feed_all_empty:
  assumes "ba_content args = []" and "snd ` set ps \<subseteq> {merged args}"
  shows "feed_all ps m = (m, replicate (length ps) (Inr (Some (merged args))))"
  using assms(2)
proof (induction ps)
  case (Cons x ps)
  obtain now where x: "x = (now, merged args)" using Cons.prems by (cases x) auto
  have "feed now (merged args) m = (m, Inr (Some (merged args)))" using assms(1) by (simp add: feed_def merged_def)
  with Cons x show ?case by simp
qed simp

lemma merge_outcomes:
  assumes "length (ba_content args) \<le> 32768 * 1300" and "unrelated args m" and "snd ` set ps \<subseteq> set (pieces_from args 0)"
  shows "snd (feed_all ps m) =
    map (\<lambda>k. Inr (if set (pieces_from args 0) \<subseteq> snd ` set (take (Suc k) ps) then Some (merged args) else None)) [0..<length ps]"
proof (cases "ba_content args = []")
  case True
  have "merged args \<in> snd ` set (take (Suc k) ps)" if "k < length ps" for k
  proof -
    have "ps ! 0 \<in> set (take (Suc k) ps)" using that by (cases ps) auto
    moreover have "snd (ps ! 0) = merged args"
      using assms(3) that by (cases ps) (auto simp: pieces_empty [OF True])
    ultimately show ?thesis by (metis imageI)
  qed
  then show ?thesis using feed_all_empty [OF True, of ps m] assms(3)
    by (intro nth_equalityI) (simp_all add: pieces_empty [OF True])
qed (use merge_nonempty assms in blast)

text \<open>
  C10. A message cut into pieces is put together again. The packets of a message arrive in any order and any number of times at a merger
  that has seen nothing of the message. Every packet is accepted; the merger returns nothing as long as a piece is missing, and from the
  moment that all have arrived it returns the message with the complete body and the descriptor and compression information of the first
  piece.
\<close>

theorem merger_restores_message:
  assumes "length (ba_content args) \<le> 32768 * 1300" and "unrelated args m" and "snd ` set ps \<subseteq> set (pieces_from args 0)"
  shows "snd (feed_all ps m) =
    map (\<lambda>k. Inr (if set (pieces_from args 0) \<subseteq> snd ` set (take (Suc k) ps) then Some (merged args) else None)) [0..<length ps]"
  using assms by (rule merge_outcomes)

definition example_content :: "byte list" where
  "example_content = replicate 1301 5"

lemma length_example_content: "length example_content = 1301"
  by (simp only: example_content_def length_replicate)

definition example_args :: BuildRpcPacketArgs where
  "example_args =
     \<lparr>ba_from_peer = 1, ba_to_peer = 2,
      ba_rpc_desc = \<lparr>rd_domain_name = ''net'', rd_proto_name = ''Greeting'', rd_service_name = ''Greeting'', rd_method_index = 1\<rparr>,
      ba_transaction_id = 7, ba_is_req = True, ba_content = example_content, ba_trace_id = 0,
      ba_compression_info = \<lparr>ci_algo = 1, ci_accepted_algo = 2\<rparr>\<rparr>"

lemma example_pieces: "pieces_from example_args 0 = [nth_piece example_args 0, nth_piece example_args 1]"
proof -
  have n: "piece_count example_args = 2" 
    by (simp add: piece_count_def example_args_def length_example_content div_ceil_def RPC_PACKET_CONTENT_MTU_def)
  have "ba_content example_args \<noteq> []" using length_example_content by (auto simp: example_args_def)
  from pieces_nth [OF this] n show ?thesis by (simp add: numeral_2_eq_2)
qed

theorem merger_restores_message_witness:
  "snd (feed_all [(0, nth_piece example_args 1), (3, nth_piece example_args 1), (4, nth_piece example_args 0)] (packet_merger_new 0)) =
     [Inr None, Inr None, Inr (Some (merged example_args))]"
proof -
  let ?ps = "[(0 :: nat, nth_piece example_args 1), (3, nth_piece example_args 1), (4, nth_piece example_args 0)]"
  have len: "length (ba_content example_args) = 1301" by (simp add: example_args_def length_example_content)
  have ne: "nth_piece example_args 0 \<noteq> nth_piece example_args 1"
  proof
    assume "nth_piece example_args 0 = nth_piece example_args 1"
    then have "rp_piece_idx (nth_piece example_args 0) = rp_piece_idx (nth_piece example_args 1)" by simp
    then show False by simp
  qed
  have "snd (feed_all ?ps (packet_merger_new 0)) =
    map (\<lambda>k. Inr (if set (pieces_from example_args 0) \<subseteq> snd ` set (take (Suc k) ?ps) then Some (merged example_args) else None)) [0..<length ?ps]"
    by (rule merger_restores_message)
      (use len in \<open>auto simp: example_pieces unrelated_def packet_merger_new_def\<close>)
  also have "\<dots> = [Inr None, Inr None, Inr (Some (merged example_args))]"
    using ne by (auto simp: example_pieces)
  finally show ?thesis .
qed

lemma compression_undone:
  assumes "zstd_ok lib" and "compress_packet lib accepted x = Inr (c, a)"
  shows "decompress_packet lib a c =
    (if length x \<le> 65536 \<or> length x \<le> 32 * length c then Inr x else Inl (ExecutionError (CompressCause AttemptsExhausted)))"
proof (cases "accepted = PbZstd \<and> length c < length x")
  case True
  with assms(2) have "zs_compress lib x = Some c" and a: "a = PbZstd"
    by (auto simp: compress_packet_def compress_raw_def algo_from_pb_def algo_to_pb_def Let_def split: option.splits if_splits)
  from decompress_compressed [OF assms(1) this(1)] show ?thesis
    by (auto simp: decompress_packet_def a algo_from_pb_def max_restored_def)
next
  case False
  with assms(2) have "a = PbNone" "c = x"
    by (auto simp: compress_packet_def compress_raw_def algo_from_pb_def algo_to_pb_def Let_def
        split: option.splits if_splits CompressionAlgoPb.splits)
  then show ?thesis by (simp add: decompress_packet_def algo_from_pb_def decompress_raw_def)
qed

text \<open>
  C35. Compressing a message undoes, up to a limit. Whatever algorithm the peer accepts, what \<open>compress_packet\<close> returns is restored by
  \<open>decompress_packet\<close>, except that a message that is longer than 64 KiB and shrank to less than a thirty-second of its length
  cannot be decompressed.
\<close>

theorem rpc_compression_limit:
  assumes "zstd_ok lib" and "compress_packet lib accepted x = Inr (c, a)"
  shows "decompress_packet lib a c =
    (if length x \<le> 65536 \<or> length x \<le> 32 * length c then Inr x else Inl (ExecutionError (CompressCause AttemptsExhausted)))"
  using assms by (rule compression_undone)

definition example_run_length :: ZstdLib where
  "example_run_length = \<lparr>
     zs_compress = (\<lambda>x. Some (if length x < 65536 * 256 \<and> (\<forall>b \<in> set x. b = 0)
       then [0, of_nat (length x mod 256), of_nat (length x div 256 mod 256), of_nat (length x div 65536)] else 1 # x)),
     zs_decompress = (\<lambda>c cap.
       let x = (if hd c = 0 then replicate (unat (c ! 1) + 256 * unat (c ! 2) + 65536 * unat (c ! 3)) 0 else tl c)
       in if length x \<le> cap then Inr x else Inl BufferTooSmall)\<rparr>"

lemma example_run_length_ok: "zstd_ok example_run_length"
proof -
  have u: "unat (of_nat (n mod 256) :: byte) = n mod 256" "n < 65536 * 256 \<Longrightarrow> unat (of_nat (n div 65536) :: byte) = n div 65536" for n
    by (simp_all add: unat_of_nat less_mult_imp_div_less)
  have "n mod 256 + 256 * (n div 256 mod 256) + 65536 * (n div 65536) = n" for n :: nat
  proof -
    have "n = 256 * (n div 256) + n mod 256" by simp
    moreover have "n div 256 = 256 * (n div 65536) + n div 256 mod 256" using div_mult2_eq [of n 256 256] by simp
    ultimately show ?thesis by linarith
  qed
  with u show ?thesis by (auto simp: zstd_ok_def example_run_length_def Let_def replicate_length_same)
qed

definition example_bytes :: "byte list" where
  "example_bytes = replicate 70000 0"

lemma length_example_bytes: "length example_bytes = 70000"
  by (simp only: example_bytes_def length_replicate)

theorem rpc_compression_limit_witness:
  "\<exists>c. compress_packet example_run_length PbZstd example_bytes = Inr (c, PbZstd) \<and> length c = 4 \<and>
     decompress_packet example_run_length PbZstd c = Inl (ExecutionError (CompressCause AttemptsExhausted))"
proof -
  have "\<forall>b \<in> set example_bytes. b = 0" by (metis example_bytes_def in_set_replicate)
  then obtain c where c: "compress_packet example_run_length PbZstd example_bytes = Inr (c, PbZstd)" "length c = 4"
    by (auto simp: compress_packet_def algo_from_pb_def compress_raw_def example_run_length_def length_example_bytes algo_to_pb_def Let_def)
  from rpc_compression_limit [OF example_run_length_ok c(1)] c show ?thesis by (simp add: length_example_bytes)
qed

end
