(* ===== verification/RpcService.thy ===== *)
theory RpcService
  imports RpcPacket
begin

text \<open>
  Services, server and client of the RPC layer (\<open>src/app/src/proto/rpc_impl/service_registry.rs\<close>, \<open>server.rs\<close>, \<open>client.rs\<close>, the error
  conversions of \<open>src/app/src/proto/error.rs\<close>).

  A service is the record \<open>Service\<close>: its names, its methods and the implementation that the build generates a dispatcher for.
  \<open>MsgCodec\<close> is the generated code for requests and responses and the text that the error libraries print. Statistics are left out.
\<close>

section \<open>Errors on the wire\<close>

datatype ProtoError =
    PExecuteError string
  | PDecodeError
  | PEncodeError
  | PInvalidMethodIndex string u32
  | PInvalidService string
  | PMalformatRpcPacket string
  | PTimeout string
  | POtherError string

record RpcRequest =
  rq_request :: "byte list"
  rq_timeout_ms :: "32 word"

text \<open>The message \<open>error.Error\<close> has an optional kind.\<close>

record RpcResponse =
  rs_response :: "byte list"
  rs_error :: "ProtoError option option"
  rs_runtime_us :: u64

record MsgCodec =
  mc_encode_request :: "RpcRequest \<Rightarrow> byte list"
  mc_decode_request :: "byte list \<Rightarrow> RpcRequest option"
  mc_encode_response :: "RpcResponse \<Rightarrow> byte list"
  mc_decode_response :: "byte list \<Rightarrow> RpcResponse option"
  mc_debug :: "RpcError \<Rightarrow> string"
  mc_debug_cause :: "ExecCause \<Rightarrow> string"
  mc_debug_str :: "string \<Rightarrow> string"

definition msg_codec_ok :: "MsgCodec \<Rightarrow> bool" where
  "msg_codec_ok mc \<longleftrightarrow>
     (\<forall>r. mc_decode_request mc (mc_encode_request mc r) = Some r) \<and>
     (\<forall>r. mc_decode_response mc (mc_encode_response mc r) = Some r)"

definition error_to_proto :: "MsgCodec \<Rightarrow> RpcError \<Rightarrow> ProtoError option" where
  "error_to_proto mc e = Some
     (case e of
        ExecutionError c \<Rightarrow> PExecuteError (mc_debug_cause mc c)
      | DecodeError \<Rightarrow> PDecodeError
      | EncodeError \<Rightarrow> PEncodeError
      | InvalidMethodIndex m s \<Rightarrow> PInvalidMethodIndex (mc_debug_str mc s) (ucast m)
      | InvalidServiceKey s _ \<Rightarrow> PInvalidService (mc_debug_str mc s)
      | MalformatRpcPacket s \<Rightarrow> PMalformatRpcPacket (mc_debug_str mc s)
      | RpcTimeout \<Rightarrow> PTimeout (mc_debug mc e)
      | _ \<Rightarrow> POtherError (mc_debug mc e))"

definition error_from_proto :: "ProtoError option \<Rightarrow> RpcError" where
  "error_from_proto k =
     (case k of
        Some (PExecuteError s) \<Rightarrow> ExecutionError (MessageCause s)
      | Some PDecodeError \<Rightarrow> DecodeError
      | Some PEncodeError \<Rightarrow> DecodeError
      | Some (PInvalidMethodIndex s m) \<Rightarrow> InvalidMethodIndex (ucast m) s
      | Some (PInvalidService s) \<Rightarrow> InvalidServiceKey s []
      | Some (PMalformatRpcPacket s) \<Rightarrow> MalformatRpcPacket s
      | Some (PTimeout s) \<Rightarrow> ExecutionError (MessageCause s)
      | Some (POtherError s) \<Rightarrow> ExecutionError (MessageCause s)
      | None \<Rightarrow> ExecutionError (MessageCause ''unknown error''))"

section \<open>The service registry\<close>

text \<open>A call gets the method and the input and gives what the controller holds as raw output, if anything, and the result.\<close>

record Service =
  sc_name :: string
  sc_proto_name :: string
  sc_methods :: "u8 \<Rightarrow> string option"
  sc_call :: "u8 \<Rightarrow> byte list \<Rightarrow> byte list option \<times> (RpcError + byte list)"

record ServiceKey =
  sk_domain_name :: string
  sk_service_name :: string
  sk_proto_name :: string

type_synonym registry = "(ServiceKey, Service) dmap"

definition service_key_of :: "RpcDescriptor \<Rightarrow> ServiceKey" where
  "service_key_of d = \<lparr>sk_domain_name = rd_domain_name d, sk_service_name = rd_service_name d, sk_proto_name = rd_proto_name d\<rparr>"

definition service_key :: "Service \<Rightarrow> string \<Rightarrow> ServiceKey" where
  "service_key svc domain = \<lparr>sk_domain_name = domain, sk_service_name = sc_name svc, sk_proto_name = sc_proto_name svc\<rparr>"

definition replace_registry :: "registry \<Rightarrow> registry \<Rightarrow> registry" where
  "replace_registry other reg = fold (\<lambda>(k, v). dm_insert k v) other []"

definition reg_register :: "Service \<Rightarrow> string \<Rightarrow> registry \<Rightarrow> registry" where
  "reg_register svc domain reg = dm_insert (service_key svc domain) svc reg"

definition reg_unregister :: "Service \<Rightarrow> string \<Rightarrow> registry \<Rightarrow> registry \<times> unit option" where
  "reg_unregister svc domain reg =
     (dm_remove (service_key svc domain) reg, map_option (\<lambda>_. ()) (dm_get reg (service_key svc domain)))"

definition unregister_by_domain :: "string \<Rightarrow> registry \<Rightarrow> registry" where
  "unregister_by_domain domain reg = dm_retain (\<lambda>k _. sk_domain_name k \<noteq> domain) reg"

definition unregister_all :: "registry \<Rightarrow> registry" where
  "unregister_all reg = []"

definition get_method_from_index :: "Service \<Rightarrow> u8 \<Rightarrow> RpcError + string" where
  "get_method_from_index svc i =
     (case sc_methods svc i of Some name \<Rightarrow> Inr name | None \<Rightarrow> Inl (InvalidMethodIndex i (sc_name svc)))"

definition get_method_name :: "registry \<Rightarrow> RpcDescriptor \<Rightarrow> string option" where
  "get_method_name reg d =
     (case dm_get reg (service_key_of d) of
        None \<Rightarrow> None
      | Some svc \<Rightarrow> (case get_method_from_index svc (ucast (rd_method_index d)) of Inr name \<Rightarrow> Some name | Inl _ \<Rightarrow> None))"

definition entry_call_method :: "Service \<Rightarrow> u8 \<Rightarrow> byte list \<Rightarrow> byte list option \<times> (RpcError + byte list)" where
  "entry_call_method svc i input =
     (case get_method_from_index svc i of Inl e \<Rightarrow> (None, Inl e) | Inr _ \<Rightarrow> sc_call svc i input)"

definition call_method :: "registry \<Rightarrow> RpcDescriptor \<Rightarrow> byte list \<Rightarrow> byte list option \<times> (RpcError + byte list)" where
  "call_method reg d input =
     (case dm_get reg (service_key_of d) of
        None \<Rightarrow> (None, Inl (InvalidServiceKey (rd_service_name d) (rd_proto_name d)))
      | Some svc \<Rightarrow> entry_call_method svc (ucast (rd_method_index d)) input)"

section \<open>The server\<close>

record Server =
  srv_registry :: registry
  srv_packet_mergers :: "(u32 \<times> i64, PacketMerger) dmap"

text \<open>One round of the receive task: the payload of a packet arrives; the result is the complete request to handle, if any.\<close>

definition server_recv :: "RpcCodec \<Rightarrow> nat \<Rightarrow> byte list \<Rightarrow> Server \<Rightarrow> Server \<times> RpcPacket option" where
  "server_recv codec now pl srv =
     (case rc_decode codec pl of
        None \<Rightarrow> (srv, None)
      | Some p \<Rightarrow>
          if \<not> rp_is_request p then (srv, None)
          else let key = (rp_from_peer p, rp_transaction_id p);
                   m = (case dm_get (srv_packet_mergers srv) key of Some m \<Rightarrow> m | None \<Rightarrow> packet_merger_new now);
                   (m', r) = feed now p m;
                   mergers = dm_insert key m' (srv_packet_mergers srv)
               in case r of
                    Inr (Some q) \<Rightarrow> (srv\<lparr>srv_packet_mergers := dm_remove key mergers\<rparr>, Some q)
                  | _ \<Rightarrow> (srv\<lparr>srv_packet_mergers := mergers\<rparr>, None))"

definition clean_packet_mergers :: "nat \<Rightarrow> Server \<Rightarrow> Server" where
  "clean_packet_mergers now srv =
     srv\<lparr>srv_packet_mergers := dm_retain (\<lambda>_ m. now - mr_last_updated m < 10) (srv_packet_mergers srv)\<rparr>"

text \<open>\<open>timed_out d\<close>: the service does not finish within \<open>d\<close> milliseconds.\<close>

definition handle_rpc_request ::
  "ZstdLib \<Rightarrow> MsgCodec \<Rightarrow> (u64 \<Rightarrow> bool) \<Rightarrow> RpcPacket \<Rightarrow> registry \<Rightarrow> (RpcError + byte list) rust" where
  "handle_rpc_request lib mc timed_out p reg =
     (case (case rp_compression_info p of
              Some ci \<Rightarrow> decompress_packet lib (algo_pb_of (ci_algo ci)) (rp_body p)
            | None \<Rightarrow> Inr (rp_body p)) of
        Inl e \<Rightarrow> Inr (Inl e)
      | Inr body \<Rightarrow>
          (case mc_decode_request mc body of
             None \<Rightarrow> Inr (Inl DecodeError)
           | Some rq \<Rightarrow>
               rmap (\<lambda>d. if timed_out (scast (rq_timeout_ms rq)) then Inl RpcTimeout
                         else case call_method reg d (rq_request rq) of
                                (_, Inl e) \<Rightarrow> Inl e
                              | (Some raw_output, Inr _) \<Rightarrow> Inr raw_output
                              | (None, Inr ret) \<Rightarrow> Inr ret)
                 (unwrap (rp_descriptor p))))"

definition handle_rpc ::
  "ZstdLib \<Rightarrow> RpcCodec \<Rightarrow> MsgCodec \<Rightarrow> (nat \<Rightarrow> byte) \<Rightarrow> (u64 \<Rightarrow> bool) \<Rightarrow> u64 \<Rightarrow> RpcPacket \<Rightarrow> registry \<Rightarrow> ZCPacket list rust" where
  "handle_rpc lib codec mc junk timed_out runtime p reg =
     rbind (unwrap (rp_descriptor p)) (\<lambda>desc.
     rbind (handle_rpc_request lib mc timed_out p reg) (\<lambda>resp_bytes.
     let resp_msg = (case resp_bytes of
                       Inr r \<Rightarrow> \<lparr>rs_response = r, rs_error = None, rs_runtime_us = runtime\<rparr>
                     | Inl e \<Rightarrow> \<lparr>rs_response = [], rs_error = Some (error_to_proto mc e), rs_runtime_us = runtime\<rparr>);
         accepted = (case rp_compression_info p of Some ci \<Rightarrow> algo_pb_of (ci_accepted_algo ci) | None \<Rightarrow> PbInvalid)
     in case compress_packet lib accepted (mc_encode_response mc resp_msg) of
          Inl _ \<Rightarrow> Inl UnwrapNone
        | Inr (content, algo) \<Rightarrow>
            build_rpc_packet codec junk
              \<lparr>ba_from_peer = rp_to_peer p, ba_to_peer = rp_from_peer p, ba_rpc_desc = desc, ba_transaction_id = rp_transaction_id p,
               ba_is_req = False, ba_content = content, ba_trace_id = rp_trace_id p,
               ba_compression_info = \<lparr>ci_algo = algo_pb_code algo, ci_accepted_algo = algo_pb_code PbZstd\<rparr>\<rparr>))"

section \<open>The client\<close>

record PeerInfo =
  pi_peer_id :: u32
  pi_compression_info :: RpcCompressionInfo
  pi_last_active :: "nat option"

text \<open>An inflight request has its merger and the messages that wait in its channel.\<close>

record InflightRequest =
  ir_merger :: PacketMerger
  ir_channel :: "RpcPacket list"

record Client =
  cl_inflight_requests :: "(u32 \<times> u32 \<times> i64, InflightRequest) dmap"
  cl_peer_info :: "(u32, PeerInfo) dmap"
  cl_cur_tid :: i64

definition clean_peer_infos :: "nat \<Rightarrow> Client \<Rightarrow> Client" where
  "clean_peer_infos now cl =
     cl\<lparr>cl_peer_info := dm_retain (\<lambda>_ v. case pi_last_active v of Some t \<Rightarrow> now - t < 120 | None \<Rightarrow> True) (cl_peer_info cl)\<rparr>"

definition client_recv :: "RpcCodec \<Rightarrow> nat \<Rightarrow> byte list \<Rightarrow> Client \<Rightarrow> Client" where
  "client_recv codec now pl cl =
     (case rc_decode codec pl of
        None \<Rightarrow> cl
      | Some p \<Rightarrow>
          if rp_is_request p then cl
          else let key = (rp_to_peer p, rp_from_peer p, rp_transaction_id p)
               in case dm_get (cl_inflight_requests cl) key of
                    None \<Rightarrow> cl
                  | Some ir \<Rightarrow>
                      let (m', r) = feed now p (ir_merger ir);
                          ir' = (case r of
                                   Inr (Some q) \<Rightarrow> ir\<lparr>ir_merger := m', ir_channel := ir_channel ir @ [q]\<rparr>
                                 | _ \<Rightarrow> ir\<lparr>ir_merger := m'\<rparr>)
                      in cl\<lparr>cl_inflight_requests := dm_insert key ir' (cl_inflight_requests cl)\<rparr>)"

record RpcCall =
  ca_from_peer :: u32
  ca_to_peer :: u32
  ca_desc :: RpcDescriptor
  ca_input :: "byte list"
  ca_timeout_ms :: "32 word"
  ca_trace_id :: "32 word"

text \<open>\<open>Handler::call\<close> up to the point where it waits for the response: the new state, the key of the request and the packets to send.\<close>

definition call_start ::
  "ZstdLib \<Rightarrow> RpcCodec \<Rightarrow> MsgCodec \<Rightarrow> (nat \<Rightarrow> byte) \<Rightarrow> nat \<Rightarrow> RpcCall \<Rightarrow> Client
    \<Rightarrow> (Client \<times> (u32 \<times> u32 \<times> i64) \<times> ZCPacket list) rust" where
  "call_start lib codec mc junk now ca cl =
     (let tid = cl_cur_tid cl;
          key = (ca_from_peer ca, ca_to_peer ca, tid);
          cl1 = cl\<lparr>cl_cur_tid := tid + 1,
                   cl_inflight_requests := dm_insert key \<lparr>ir_merger = packet_merger_new now, ir_channel = []\<rparr> (cl_inflight_requests cl)\<rparr>;
          accepted = (case dm_get (cl_peer_info cl) (ca_to_peer ca) of
                        Some v \<Rightarrow> algo_pb_of (ci_accepted_algo (pi_compression_info v))
                      | None \<Rightarrow> PbInvalid)
      in case compress_packet lib accepted (mc_encode_request mc \<lparr>rq_request = ca_input ca, rq_timeout_ms = ca_timeout_ms ca\<rparr>) of
           Inl _ \<Rightarrow> Inl UnwrapNone
         | Inr (buf, algo) \<Rightarrow>
             rmap (\<lambda>packets. (cl1, key, packets))
               (build_rpc_packet codec junk
                  \<lparr>ba_from_peer = ca_from_peer ca, ba_to_peer = ca_to_peer ca, ba_rpc_desc = ca_desc ca, ba_transaction_id = tid,
                   ba_is_req = True, ba_content = buf, ba_trace_id = ca_trace_id ca,
                   ba_compression_info = \<lparr>ci_algo = algo_pb_code algo, ci_accepted_algo = algo_pb_code PbZstd\<rparr>\<rparr>))"

text \<open>The rest of the call once a message is in the channel; \<open>None\<close> while the channel is empty.\<close>

definition call_finish ::
  "ZstdLib \<Rightarrow> MsgCodec \<Rightarrow> nat \<Rightarrow> u32 \<times> u32 \<times> i64 \<Rightarrow> Client \<Rightarrow> (Client \<times> (RpcError + byte list)) rust option" where
  "call_finish lib mc now key cl =
     (case Option.bind (dm_get (cl_inflight_requests cl) key) (\<lambda>ir. case ir_channel ir of [] \<Rightarrow> None | q # _ \<Rightarrow> Some q) of
        None \<Rightarrow> None
      | Some p \<Rightarrow> Some
          (let cl1 = cl\<lparr>cl_inflight_requests := dm_remove key (cl_inflight_requests cl)\<rparr>;
               (cl2, body) =
                 (case rp_compression_info p of
                    None \<Rightarrow> (cl1, Inr (rp_body p))
                  | Some ci \<Rightarrow>
                      (cl1\<lparr>cl_peer_info := dm_insert (fst (snd key)) \<lparr>pi_peer_id = fst (snd key), pi_compression_info = ci, pi_last_active = Some now\<rparr> (cl_peer_info cl1)\<rparr>,
                       decompress_packet lib (algo_pb_of (ci_algo ci)) (rp_body p)))
           in case body of
                Inl e \<Rightarrow> Inr (cl2, Inl e)
              | Inr b \<Rightarrow>
                  if rp_transaction_id p \<noteq> snd (snd key) then Inl AssertFailed
                  else case mc_decode_response mc b of
                         None \<Rightarrow> Inr (cl2, Inl DecodeError)
                       | Some resp \<Rightarrow>
                           (case rs_error resp of
                              Some k \<Rightarrow> Inr (cl2, Inl (error_from_proto k))
                            | None \<Rightarrow> Inr (cl2, Inr (rs_response resp)))))"

text \<open>A call that ends without a message, by its timeout or because a packet cannot be sent: the entry of the request is removed as well.\<close>

definition call_abandon :: "RpcError \<Rightarrow> u32 \<times> u32 \<times> i64 \<Rightarrow> Client \<Rightarrow> Client \<times> (RpcError + byte list)" where
  "call_abandon e key cl = (cl\<lparr>cl_inflight_requests := dm_remove key (cl_inflight_requests cl)\<rparr>, Inl e)"

end
