(* ===== verification/RpcCalls.thy ===== *)
theory RpcCalls
  imports RpcService
begin

text \<open>
  A call from end to end: the packets of the request reach the server in any order and possibly more than once, the server runs the
  service, and the packets of the response reach the client in any order. The lemmas follow the packets through the receive tasks; the
  property says that the caller gets what the service returned.
\<close>

section \<open>Packets on the wire\<close>

definition payload_of :: "ZCPacket \<Rightarrow> byte list" where
  "payload_of z = (case payload z of Inr pl \<Rightarrow> pl | Inl _ \<Rightarrow> [])"

lemma rpc_zc_packet_payload: "\<exists>z. rpc_zc_packet codec junk args p = Inr z \<and> payload z = Inr (rc_encode codec p)"
proof -
  let ?n = "new_from_buf \<lparr>bm_data = map junk [0..<PAYLOAD_OFFSET_FOR_NIC_PACKET] @ rc_encode codec p,
      bm_cap = PAYLOAD_OFFSET_FOR_NIC_PACKET + length (rc_encode codec p)\<rparr> NIC"
  have len: "payload_offset ?n \<le> length (zc_bytes ?n)" by (simp add: new_from_buf_def payload_offset_def)
  obtain h pl where n: "shows_as ?n NIC h pl" using shows_as_exists [OF len] by (auto simp: new_from_buf_def)
  have pl: "pl = rc_encode codec p" using n by (simp add: shows_as_bytes new_from_buf_def payload_offset_def)
  let ?f = "\<lambda>h. h\<lparr>from_peer_id := ba_from_peer args, to_peer_id := ba_to_peer args,
    packet_type := packet_type_u8 (if ba_is_req args then PRpcReq else PRpcResp), flags := 0, forward_counter := 1,
    hdr_len := of_nat (length pl)\<rparr>"
  obtain z where "with_pm_header ?f ?n = Inr z" "shows_as z NIC (?f h) pl" using shows_as_with_header [OF n, of ?f] by blast
  moreover have "payload_len ?n = Inr (length pl)" using n by (auto simp: shows_as_bytes payload_len_def checked_sub_def)
  ultimately show ?thesis
    by (auto simp: rpc_zc_packet_def new_with_payload_run fill_peer_manager_hdr_def with_pm_header_def shows_as_payload pl)
qed

lemma rmap_list_Inr:
  assumes "\<And>x. x \<in> set xs \<Longrightarrow> \<exists>y. f x = Inr y \<and> g y = h x"
  shows "\<exists>ys. rmap_list f xs = Inr ys \<and> map g ys = map h xs"
  using assms
proof (induction xs)
  case (Cons x xs)
  obtain y where "f x = Inr y" "g y = h x" using Cons.prems [of x] by auto
  moreover obtain ys where "rmap_list f xs = Inr ys" "map g ys = map h xs" using Cons.IH Cons.prems by auto
  ultimately show ?case by auto
qed simp

text \<open>Building the packets of a message never panics, and their payloads are the encoded pieces.\<close>

lemma build_rpc_packet_payloads:
  "\<exists>zs. build_rpc_packet codec junk args = Inr zs \<and> map payload_of zs = map (rc_encode codec) (pieces_from args 0)"
  unfolding build_rpc_packet_def
  by (rule rmap_list_Inr) (metis rpc_zc_packet_payload payload_of_def old.sum.simps(6))

text \<open>Payloads that arrive, each with its time: all of them belong to the packets \<open>zs\<close>, and every packet arrives.\<close>

definition arrive :: "ZCPacket list \<Rightarrow> (nat \<times> byte list) list \<Rightarrow> bool" where
  "arrive zs as \<longleftrightarrow> snd ` set as = payload_of ` set zs"

text \<open>The last arrival is the one that completes the message.\<close>

definition last_completes :: "ZCPacket list \<Rightarrow> (nat \<times> byte list) list \<Rightarrow> bool" where
  "last_completes zs as \<longleftrightarrow> arrive zs as \<and> \<not> payload_of ` set zs \<subseteq> snd ` set (butlast as)"

fun server_recv_all :: "RpcCodec \<Rightarrow> (nat \<times> byte list) list \<Rightarrow> Server \<Rightarrow> Server \<times> RpcPacket option list" where
  "server_recv_all codec [] srv = (srv, [])"
| "server_recv_all codec ((now, pl) # as) srv =
     (let (srv1, r) = server_recv codec now pl srv; (srv2, rs) = server_recv_all codec as srv1 in (srv2, r # rs))"

fun client_recv_all :: "RpcCodec \<Rightarrow> (nat \<times> byte list) list \<Rightarrow> Client \<Rightarrow> Client" where
  "client_recv_all codec [] cl = cl"
| "client_recv_all codec ((now, pl) # as) cl = client_recv_all codec as (client_recv codec now pl cl)"

definition decoded :: "RpcCodec \<Rightarrow> (nat \<times> byte list) list \<Rightarrow> (nat \<times> RpcPacket) list" where
  "decoded codec as = map (\<lambda>(now, pl). (now, the (rc_decode codec pl))) as"

text \<open>Arriving payloads as pieces of the message.\<close>

lemma arriving_pieces:
  assumes "codec_ok codec" and "map payload_of zs = map (rc_encode codec) (pieces_from args 0)" and "snd ` set as \<subseteq> payload_of ` set zs"
  shows "as = map (\<lambda>(now, p). (now, rc_encode codec p)) (decoded codec as)"
    and "snd ` set (decoded codec as) \<subseteq> set (pieces_from args 0)"
    and "payload_of ` set zs \<subseteq> snd ` set (take k as) \<longleftrightarrow> set (pieces_from args 0) \<subseteq> snd ` set (take k (decoded codec as))"
proof -
  have dec: "rc_decode codec (rc_encode codec p) = Some p" for p using assms(1) by (simp add: codec_ok_def)
  have zs: "payload_of ` set zs = rc_encode codec ` set (pieces_from args 0)" using assms(2) by (metis set_map)
  have each: "\<exists>p \<in> set (pieces_from args 0). snd x = rc_encode codec p" if "x \<in> set as" for x using that assms(3) zs by auto
  then have enc: "snd x = rc_encode codec (the (rc_decode codec (snd x)))" if "x \<in> set as" for x using that dec by fastforce
  show as: "as = map (\<lambda>(now, p). (now, rc_encode codec p)) (decoded codec as)"
    unfolding decoded_def by (rule nth_equalityI) (auto simp: split_beta prod_eq_iff enc [OF nth_mem, symmetric])
  show "snd ` set (decoded codec as) \<subseteq> set (pieces_from args 0)"
    using each dec by (fastforce simp: decoded_def split_beta)
  have "snd ` set (take k as) = rc_encode codec ` (snd ` set (take k (decoded codec as)))"
    by (subst as) (simp add: take_map split_beta image_image)
  moreover have "inj (rc_encode codec)" using dec by (metis injI option.inject)
  ultimately show "payload_of ` set zs \<subseteq> snd ` set (take k as) \<longleftrightarrow> set (pieces_from args 0) \<subseteq> snd ` set (take k (decoded codec as))"
    by (simp add: zs inj_image_subset_iff)
qed

section \<open>The receive tasks\<close>

lemma server_recv_piece:
  assumes "codec_ok codec" and "rp_is_request p" and "key = (rp_from_peer p, rp_transaction_id p)"
    and "m = (case dm_get (srv_packet_mergers srv) key of Some m \<Rightarrow> m | None \<Rightarrow> packet_merger_new now)" and "feed now p m = (m', r)"
  shows "server_recv codec now (rc_encode codec p) srv =
    (case r of
       Inr (Some q) \<Rightarrow> (srv\<lparr>srv_packet_mergers := dm_remove key (dm_insert key m' (srv_packet_mergers srv))\<rparr>, Some q)
     | _ \<Rightarrow> (srv\<lparr>srv_packet_mergers := dm_insert key m' (srv_packet_mergers srv)\<rparr>, None))"
  using assms(1,2) assms(4,5) [unfolded assms(3)] unfolding assms(3) by (simp add: server_recv_def codec_ok_def Let_def)

lemma server_run:
  assumes "codec_ok codec" and "\<And>x. x \<in> set ps \<Longrightarrow> rp_is_request (snd x) \<and> (rp_from_peer (snd x), rp_transaction_id (snd x)) = key"
    and "m = (case dm_get (srv_packet_mergers srv) key of Some m \<Rightarrow> m | None \<Rightarrow> packet_merger_new (fst (hd ps)))"
    and "snd (feed_all ps m) = replicate k (Inr None) @ [Inr (Some q)]"
  shows "snd (server_recv_all codec (map (\<lambda>(now, p). (now, rc_encode codec p)) ps) srv) = replicate k None @ [Some q]"
  using assms(2-4)
proof (induction ps arbitrary: srv m k)
  case (Cons x ps)
  obtain now p where x: "x = (now, p)" by (cases x)
  have p: "rp_is_request p" "key = (rp_from_peer p, rp_transaction_id p)" using Cons.prems(1) [of x] x by auto
  obtain m' r where f: "feed now p m = (m', r)" by (cases "feed now p m")
  have m: "m = (case dm_get (srv_packet_mergers srv) key of Some m \<Rightarrow> m | None \<Rightarrow> packet_merger_new now)"
    using Cons.prems(2) x by (simp cong: option.case_cong)
  note step = server_recv_piece [OF assms(1) p m f]
  show ?case
  proof (cases k)
    case 0
    then have "r = Inr (Some q)" "ps = []" using Cons.prems(3) x f by (auto simp: split_beta Let_def) (cases ps, auto simp: split_beta Let_def)
    then show ?thesis using 0 by (simp add: x step)
  next
    case (Suc k')
    let ?srv = "srv\<lparr>srv_packet_mergers := dm_insert key m' (srv_packet_mergers srv)\<rparr>"
    have r: "r = Inr None" and rest: "snd (feed_all ps m') = replicate k' (Inr None) @ [Inr (Some q)]"
      using Cons.prems(3) x f Suc by (auto simp: split_beta Let_def)
    have "snd (server_recv_all codec (map (\<lambda>(now, p). (now, rc_encode codec p)) ps) ?srv) = replicate k' None @ [Some q]"
      by (rule Cons.IH [where m = m']) (use Cons.prems(1) rest in auto)
    then show ?thesis
      by (cases "server_recv_all codec (map (\<lambda>(now, p). (now, rc_encode codec p)) ps) ?srv") (simp add: x step r Suc)
  qed
qed simp

definition completed :: "(RpcError + RpcPacket option) list \<Rightarrow> RpcPacket list" where
  "completed rs = concat (map (\<lambda>r. case r of Inr (Some q) \<Rightarrow> [q] | _ \<Rightarrow> []) rs)"

lemma completed_Cons: "completed (r # rs) = completed [r] @ completed rs"
  by (simp add: completed_def)

lemma client_run:
  assumes "codec_ok codec"
    and "\<And>x. x \<in> set ps \<Longrightarrow> \<not> rp_is_request (snd x) \<and> (rp_to_peer (snd x), rp_from_peer (snd x), rp_transaction_id (snd x)) = key"
    and "dm_get (cl_inflight_requests cl) key = Some ir"
  shows "\<exists>ir'. dm_get (cl_inflight_requests (client_recv_all codec (map (\<lambda>(now, p). (now, rc_encode codec p)) ps) cl)) key = Some ir' \<and>
    ir_channel ir' = ir_channel ir @ completed (snd (feed_all ps (ir_merger ir)))"
  using assms(2,3)
proof (induction ps arbitrary: cl ir)
  case (Cons x ps)
  obtain now p where x: "x = (now, p)" by (cases x)
  have p: "\<not> rp_is_request p" "(rp_to_peer p, rp_from_peer p, rp_transaction_id p) = key" using Cons.prems(1) [of x] x by auto
  obtain m' r where f: "feed now p (ir_merger ir) = (m', r)" by (cases "feed now p (ir_merger ir)")
  let ?ir = "ir\<lparr>ir_merger := m', ir_channel := ir_channel ir @ completed [r]\<rparr>"
  have "client_recv codec now (rc_encode codec p) cl = cl\<lparr>cl_inflight_requests := dm_insert key ?ir (cl_inflight_requests cl)\<rparr>"
    using assms(1) p f Cons.prems(2)
    by (auto simp: client_recv_def codec_ok_def Let_def completed_def split: sum.split option.split)
  moreover have "\<exists>ir'. dm_get (cl_inflight_requests (client_recv_all codec (map (\<lambda>(now, p). (now, rc_encode codec p)) ps)
      (cl\<lparr>cl_inflight_requests := dm_insert key ?ir (cl_inflight_requests cl)\<rparr>))) key = Some ir' \<and>
    ir_channel ir' = ir_channel ?ir @ completed (snd (feed_all ps (ir_merger ?ir)))"
    by (rule Cons.IH) (use Cons.prems(1) in auto)
  moreover obtain m2 rs where "feed_all ps m' = (m2, rs)" by (cases "feed_all ps m'")
  ultimately show ?case by (simp add: x f completed_Cons [of r rs])
qed (simp add: completed_def)

section \<open>A complete message\<close>

lemma butlast_take: "xs \<noteq> [] \<Longrightarrow> butlast xs = take (length xs - 1) xs"
  by (simp add: butlast_conv_take)

lemma merged_fields [simp]:
  "rp_transaction_id (merged args) = ba_transaction_id args" "rp_from_peer (merged args) = ba_from_peer args"
  "rp_to_peer (merged args) = ba_to_peer args" "rp_is_request (merged args) = ba_is_req args" "rp_body (merged args) = ba_content args"
  "rp_descriptor (merged args) = Some (ba_rpc_desc args)" "rp_compression_info (merged args) = Some (ba_compression_info args)"
  "rp_trace_id (merged args) = ba_trace_id args"
  by (simp_all add: merged_def nth_piece_def piece_at_def)

lemma piece_fields:
  assumes "p \<in> set (pieces_from args 0)"
  shows "rp_is_request p = ba_is_req args" "rp_from_peer p = ba_from_peer args" "rp_to_peer p = ba_to_peer args"
    "rp_transaction_id p = ba_transaction_id args"
  using assms by (cases "ba_content args = []"; auto simp: pieces_empty pieces_nth)+

text \<open>The server gets the request with the last packet that was missing.\<close>

lemma server_gets_request:
  assumes "codec_ok codec" and "map payload_of zs = map (rc_encode codec) (pieces_from args 0)" and "ba_is_req args"
    and "length (ba_content args) \<le> 32768 * 1300" and "last_completes zs as"
    and "dm_get (srv_packet_mergers srv) (ba_from_peer args, ba_transaction_id args) = None"
  shows "snd (server_recv_all codec as srv) = replicate (length as - 1) None @ [Some (merged args)]"
proof -
  let ?ps = "decoded codec as"
  have sub: "snd ` set as \<subseteq> payload_of ` set zs" using assms(5) by (simp add: last_completes_def arrive_def)
  note as = arriving_pieces [OF assms(1,2) sub]
  have len: "length ?ps = length as" by (simp add: decoded_def)
  have "pieces_from args 0 \<noteq> []"
    by (cases "ba_content args = []") (auto simp: pieces_empty pieces_nth piece_count_pos)
  then have "zs \<noteq> []" using assms(2) by auto
  then have ne: "as \<noteq> []" using assms(5) by (auto simp: last_completes_def arrive_def)
  have full: "set (pieces_from args 0) \<subseteq> snd ` set (take (Suc k) ?ps) \<longleftrightarrow> k = length as - 1" if "k < length as" for k
  proof
    assume "set (pieces_from args 0) \<subseteq> snd ` set (take (Suc k) ?ps)"
    then have "payload_of ` set zs \<subseteq> snd ` set (take (Suc k) as)" using as(3) by blast
    then have "\<not> set (take (Suc k) as) \<subseteq> set (butlast as)" using assms(5) unfolding last_completes_def by blast
    then have "\<not> Suc k \<le> length as - 1" using ne by (metis butlast_take set_take_subset_set_take)
    with that show "k = length as - 1" by linarith
  next
    assume "k = length as - 1"
    then have "take (Suc k) as = as" using ne by simp
    then show "set (pieces_from args 0) \<subseteq> snd ` set (take (Suc k) ?ps)"
      using as(3) [of "Suc k"] assms(5) by (simp add: last_completes_def arrive_def)
  qed
  have pieces: "rp_is_request p \<and> rp_from_peer p = ba_from_peer args \<and> rp_transaction_id p = ba_transaction_id args"
    if "p \<in> set (pieces_from args 0)" for p
    using piece_fields [OF that] assms(3) by simp
  have "snd (feed_all ?ps (packet_merger_new (fst (hd ?ps)))) =
    map (\<lambda>k. Inr (if set (pieces_from args 0) \<subseteq> snd ` set (take (Suc k) ?ps) then Some (merged args) else None)) [0..<length ?ps]"
    by (rule merge_outcomes) (use assms(4) as(2) in \<open>simp_all add: unrelated_def packet_merger_new_def\<close>)
  also have "\<dots> = replicate (length as - 1) (Inr None) @ [Inr (Some (merged args))]"
    using ne by (intro nth_equalityI) (auto simp: len full nth_append less_Suc_eq)
  finally have "snd (server_recv_all codec (map (\<lambda>(now, p). (now, rc_encode codec p)) ?ps) srv) =
      replicate (length as - 1) None @ [Some (merged args)]"
    by (intro server_run [OF assms(1), where key = "(ba_from_peer args, ba_transaction_id args)"])
      (use as(2) pieces assms(6) in auto)
  with as(1) show ?thesis by simp
qed

text \<open>The client finds the response at the head of the channel once all its packets have arrived.\<close>

lemma client_gets_response:
  assumes "codec_ok codec" and "map payload_of zs = map (rc_encode codec) (pieces_from args 0)" and "\<not> ba_is_req args"
    and "length (ba_content args) \<le> 32768 * 1300" and "arrive zs as"
    and "dm_get (cl_inflight_requests cl) (ba_to_peer args, ba_from_peer args, ba_transaction_id args) =
      Some \<lparr>ir_merger = packet_merger_new t, ir_channel = []\<rparr>"
  shows "\<exists>ir rest. dm_get (cl_inflight_requests (client_recv_all codec as cl)) (ba_to_peer args, ba_from_peer args, ba_transaction_id args) = Some ir \<and>
    ir_channel ir = merged args # rest"
proof -
  let ?ps = "decoded codec as" and ?key = "(ba_to_peer args, ba_from_peer args, ba_transaction_id args)"
  have sub: "snd ` set as \<subseteq> payload_of ` set zs" using assms(5) by (simp add: arrive_def)
  note as = arriving_pieces [OF assms(1,2) sub]
  have "set (pieces_from args 0) \<subseteq> snd ` set (take (length as) ?ps)" using as(3) [of "length as"] assms(5) by (simp add: arrive_def)
  moreover have "take (length as) ?ps = ?ps" by (simp add: decoded_def)
  ultimately have full: "set (pieces_from args 0) \<subseteq> snd ` set ?ps" by simp
  have "pieces_from args 0 \<noteq> []"
    by (cases "ba_content args = []") (auto simp: pieces_empty pieces_nth piece_count_pos)
  with full have ne: "?ps \<noteq> []" by auto
  have feeds: "snd (feed_all ?ps (packet_merger_new t)) =
    map (\<lambda>k. Inr (if set (pieces_from args 0) \<subseteq> snd ` set (take (Suc k) ?ps) then Some (merged args) else None)) [0..<length ?ps]"
    by (rule merge_outcomes) (use assms(4) as(2) in \<open>simp_all add: unrelated_def packet_merger_new_def\<close>)
  have all: "set (completed (snd (feed_all ?ps (packet_merger_new t)))) \<subseteq> {merged args}"
    by (auto simp: feeds completed_def split: if_splits)
  have "Inr (Some (merged args)) \<in> set (snd (feed_all ?ps (packet_merger_new t)))"
    unfolding feeds using ne full by (auto intro!: image_eqI [where x = "length ?ps - 1"])
  then have "completed (snd (feed_all ?ps (packet_merger_new t))) \<noteq> []"
    by (auto simp: completed_def intro!: bexI [of _ "Inr (Some (merged args))"])
  then obtain rest where "completed (snd (feed_all ?ps (packet_merger_new t))) = merged args # rest"
    using all by (cases "completed (snd (feed_all ?ps (packet_merger_new t)))") auto
  moreover have "\<exists>ir'. dm_get (cl_inflight_requests (client_recv_all codec (map (\<lambda>(now, p). (now, rc_encode codec p)) ?ps) cl)) ?key = Some ir' \<and>
    ir_channel ir' = ir_channel \<lparr>ir_merger = packet_merger_new t, ir_channel = []\<rparr> @
      completed (snd (feed_all ?ps (ir_merger \<lparr>ir_merger = packet_merger_new t, ir_channel = []\<rparr>)))"
    by (rule client_run [OF assms(1) _ assms(6)]) (use as(2) piece_fields assms(3) in auto)
  ultimately show ?thesis using as(1) by auto
qed

section \<open>A call from end to end\<close>

definition wire_error :: "MsgCodec \<Rightarrow> RpcError \<Rightarrow> RpcError" where
  "wire_error mc e = error_from_proto (error_to_proto mc e)"

text \<open>What the caller of a service is promised.\<close>

definition service_outcome :: "MsgCodec \<Rightarrow> (u64 \<Rightarrow> bool) \<Rightarrow> registry \<Rightarrow> RpcCall \<Rightarrow> RpcError + byte list" where
  "service_outcome mc timed_out reg ca =
     (if timed_out (scast (ca_timeout_ms ca)) then Inl RpcTimeout
      else case call_method reg (ca_desc ca) (ca_input ca) of
             (_, Inl e) \<Rightarrow> Inl e
           | (Some raw_output, Inr _) \<Rightarrow> Inr raw_output
           | (None, Inr ret) \<Rightarrow> Inr ret)"

definition response_of :: "MsgCodec \<Rightarrow> u64 \<Rightarrow> RpcError + byte list \<Rightarrow> RpcResponse" where
  "response_of mc runtime r =
     (case r of
        Inr r \<Rightarrow> \<lparr>rs_response = r, rs_error = None, rs_runtime_us = runtime\<rparr>
      | Inl e \<Rightarrow> \<lparr>rs_response = [], rs_error = Some (error_to_proto mc e), rs_runtime_us = runtime\<rparr>)"

lemma restored:
  assumes "zstd_ok lib" and "compress_packet lib accepted x = Inr (c, a)" and "length x \<le> 65536"
  shows "decompress_packet lib (algo_pb_of (algo_pb_code a)) c = Inr x" and "length c \<le> 32768 * 1300"
proof -
  have "algo_pb_of (algo_pb_code a) = a" by (cases a) (simp_all add: algo_pb_of_def algo_pb_code_def)
  then show "decompress_packet lib (algo_pb_of (algo_pb_code a)) c = Inr x"
    using compression_undone [OF assms(1,2)] assms(3) by simp
  have "length c \<le> length x"
    using assms(2) by (auto simp: compress_packet_def Let_def split: sum.splits if_splits)
  with assms(3) show "length c \<le> 32768 * 1300" by simp
qed

lemma handled_request:
  assumes "zstd_ok lib" and "msg_codec_ok mc" and "compress_packet lib accepted (mc_encode_request mc \<lparr>rq_request = ca_input ca, rq_timeout_ms = ca_timeout_ms ca\<rparr>) = Inr (buf, algo)"
    and "length (mc_encode_request mc \<lparr>rq_request = ca_input ca, rq_timeout_ms = ca_timeout_ms ca\<rparr>) \<le> 65536"
    and "rp_body p = buf" and "rp_descriptor p = Some (ca_desc ca)" and "rp_compression_info p = Some \<lparr>ci_algo = algo_pb_code algo, ci_accepted_algo = x\<rparr>"
  shows "handle_rpc_request lib mc timed_out p reg = Inr (service_outcome mc timed_out reg ca)"
  using assms(2,5-7) restored(1) [OF assms(1,3,4)]
  by (auto simp: handle_rpc_request_def service_outcome_def msg_codec_ok_def split: prod.split sum.split option.split)

lemma handled_response:
  assumes "handle_rpc lib codec mc junk timed_out runtime p reg = Inr zs" and "handle_rpc_request lib mc timed_out p reg = Inr out"
    and "rp_descriptor p = Some d" and "rp_compression_info p = Some ci"
  obtains content algo where
    "compress_packet lib (algo_pb_of (ci_accepted_algo ci)) (mc_encode_response mc (response_of mc runtime out)) = Inr (content, algo)"
    and "build_rpc_packet codec junk
      \<lparr>ba_from_peer = rp_to_peer p, ba_to_peer = rp_from_peer p, ba_rpc_desc = d, ba_transaction_id = rp_transaction_id p,
       ba_is_req = False, ba_content = content, ba_trace_id = rp_trace_id p,
       ba_compression_info = \<lparr>ci_algo = algo_pb_code algo, ci_accepted_algo = algo_pb_code PbZstd\<rparr>\<rparr> = Inr zs"
  using assms by (auto simp: handle_rpc_def response_of_def [symmetric] Let_def split: sum.splits)

lemma finished_call:
  assumes "msg_codec_ok mc" and "dm_get (cl_inflight_requests cl) key = Some ir" and "ir_channel ir = q # rest"
    and "rp_compression_info q = Some ci" and "rp_transaction_id q = snd (snd key)"
    and "decompress_packet lib (algo_pb_of (ci_algo ci)) (rp_body q) = Inr (mc_encode_response mc (response_of mc runtime out))"
  shows "\<exists>cl2. call_finish lib mc now key cl = Some (Inr (cl2, map_sum (wire_error mc) id out))"
  using assms by (cases out) (simp_all add: call_finish_def msg_codec_ok_def response_of_def wire_error_def Let_def)

lemma call_run:
  assumes "codec_ok codec" and "msg_codec_ok mc" and "zstd_ok lib"
    and "call_start lib codec mc junk now ca cl = Inr (cl1, key, zs)"
    and "length (mc_encode_request mc \<lparr>rq_request = ca_input ca, rq_timeout_ms = ca_timeout_ms ca\<rparr>) \<le> 65536"
    and "dm_get (srv_packet_mergers srv) (ca_from_peer ca, cl_cur_tid cl) = None" and "last_completes zs as"
    and "length (mc_encode_response mc (response_of mc runtime (service_outcome mc timed_out (srv_registry srv) ca))) \<le> 65536"
  shows "\<exists>req. snd (server_recv_all codec as srv) = replicate (length as - 1) None @ [Some req] \<and>
    rp_descriptor req = Some (ca_desc ca) \<and>
    (\<forall>zs' bs. handle_rpc lib codec mc junk' timed_out runtime req (srv_registry srv) = Inr zs' \<longrightarrow> arrive zs' bs \<longrightarrow>
      (\<exists>cl2. call_finish lib mc now' key (client_recv_all codec bs cl1) =
        Some (Inr (cl2, map_sum (wire_error mc) id (service_outcome mc timed_out (srv_registry srv) ca)))))"
proof -
  let ?accepted = "case dm_get (cl_peer_info cl) (ca_to_peer ca) of
      Some v \<Rightarrow> algo_pb_of (ci_accepted_algo (pi_compression_info v)) | None \<Rightarrow> PbInvalid"
  let ?req = "mc_encode_request mc \<lparr>rq_request = ca_input ca, rq_timeout_ms = ca_timeout_ms ca\<rparr>"
  let ?out = "service_outcome mc timed_out (srv_registry srv) ca"
  obtain buf algo where comp: "compress_packet lib ?accepted ?req = Inr (buf, algo)"
    using assms(4) by (auto simp: call_start_def Let_def split: sum.splits)
  let ?ci = "\<lparr>ci_algo = algo_pb_code algo, ci_accepted_algo = algo_pb_code PbZstd\<rparr>"
  define args where "args = \<lparr>ba_from_peer = ca_from_peer ca, ba_to_peer = ca_to_peer ca, ba_rpc_desc = ca_desc ca,
    ba_transaction_id = cl_cur_tid cl, ba_is_req = True, ba_content = buf, ba_trace_id = ca_trace_id ca, ba_compression_info = ?ci\<rparr>"
  have zs: "build_rpc_packet codec junk args = Inr zs" and key: "key = (ca_from_peer ca, ca_to_peer ca, cl_cur_tid cl)"
    and cl1: "dm_get (cl_inflight_requests cl1) key = Some \<lparr>ir_merger = packet_merger_new now, ir_channel = []\<rparr>"
    using assms(4) comp by (auto simp: call_start_def Let_def args_def rust_Inr)
  from zs have wire: "map payload_of zs = map (rc_encode codec) (pieces_from args 0)"
    using build_rpc_packet_payloads [of codec junk args] by auto
  have "snd (server_recv_all codec as srv) = replicate (length as - 1) None @ [Some (merged args)]"
    by (rule server_gets_request [OF assms(1) wire]) (use restored(2) [OF assms(3) comp assms(5)] assms(6,7) in \<open>simp_all add: args_def\<close>)
  moreover have "\<exists>cl2. call_finish lib mc now' key (client_recv_all codec bs cl1) = Some (Inr (cl2, map_sum (wire_error mc) id ?out))"
    if handled: "handle_rpc lib codec mc junk' timed_out runtime (merged args) (srv_registry srv) = Inr zs'" and "arrive zs' bs" for zs' bs
  proof -
    let ?resp = "mc_encode_response mc (response_of mc runtime ?out)"
    have "handle_rpc_request lib mc timed_out (merged args) (srv_registry srv) = Inr ?out"
      by (rule handled_request [OF assms(3,2) comp assms(5)]) (simp_all add: args_def)
    then obtain content algo' where comp': "compress_packet lib (algo_pb_of (algo_pb_code PbZstd)) ?resp = Inr (content, algo')"
      and zs': "build_rpc_packet codec junk' (args\<lparr>ba_from_peer := ca_to_peer ca, ba_to_peer := ca_from_peer ca, ba_is_req := False,
        ba_content := content, ba_compression_info := \<lparr>ci_algo = algo_pb_code algo', ci_accepted_algo = algo_pb_code PbZstd\<rparr>\<rparr>) = Inr zs'"
      by (rule handled_response [OF handled]) (auto simp: args_def)
    define args' where "args' = args\<lparr>ba_from_peer := ca_to_peer ca, ba_to_peer := ca_from_peer ca, ba_is_req := False,
        ba_content := content, ba_compression_info := \<lparr>ci_algo = algo_pb_code algo', ci_accepted_algo = algo_pb_code PbZstd\<rparr>\<rparr>"
    have wire': "map payload_of zs' = map (rc_encode codec) (pieces_from args' 0)"
      using zs' build_rpc_packet_payloads [of codec junk' args'] by (auto simp: args'_def)
    have key': "key = (ba_to_peer args', ba_from_peer args', ba_transaction_id args')" by (simp add: args'_def args_def key)
    note ok = restored [OF assms(3) comp' assms(8)]
    have "\<exists>ir rest. dm_get (cl_inflight_requests (client_recv_all codec bs cl1)) (ba_to_peer args', ba_from_peer args', ba_transaction_id args') = Some ir \<and>
        ir_channel ir = merged args' # rest"
      by (rule client_gets_response [OF assms(1) wire' _ _ \<open>arrive zs' bs\<close>]) (use ok(2) cl1 key' in \<open>simp_all add: args'_def\<close>)
    then obtain ir rest where ir: "dm_get (cl_inflight_requests (client_recv_all codec bs cl1)) key = Some ir" "ir_channel ir = merged args' # rest"
      unfolding key' by blast
    show ?thesis
      by (rule finished_call [where runtime = runtime and ci = "\<lparr>ci_algo = algo_pb_code algo', ci_accepted_algo = algo_pb_code PbZstd\<rparr>", OF assms(2) ir]) (use ok(1) in \<open>simp_all add: args'_def args_def key\<close>)
  qed
  moreover have "rp_descriptor (merged args) = Some (ca_desc ca)" by (simp add: args_def)
  ultimately show ?thesis by blast
qed

lemma compress_packet_returns: "zs_compress lib x \<noteq> None \<Longrightarrow> \<exists>c a. compress_packet lib accepted x = Inr (c, a)"
  by (cases accepted) (auto simp: compress_packet_def algo_from_pb_def compress_raw_def Let_def)

lemma handle_rpc_returns:
  assumes "rp_descriptor p = Some d" and "\<And>x. zs_compress lib x \<noteq> None"
  shows "\<exists>zs. handle_rpc lib codec mc junk timed_out runtime p reg = Inr zs"
proof -
  obtain out where out: "handle_rpc_request lib mc timed_out p reg = Inr out"
    using assms(1) by (cases "handle_rpc_request lib mc timed_out p reg")
      (auto simp: handle_rpc_request_def split: sum.splits option.splits)
  with assms build_rpc_packet_payloads compress_packet_returns [OF assms(2)] show ?thesis
    by (simp add: handle_rpc_def Let_def split: sum.split) (metis (no_types, lifting) Inr_inject old.sum.distinct(1))
qed

lemma call_start_returns:
  assumes "\<And>x. zs_compress lib x \<noteq> None"
  shows "\<exists>cl1 key zs. call_start lib codec mc junk now ca cl = Inr (cl1, key, zs)"
proof -
  have "\<exists>zs. build_rpc_packet codec junk args = Inr zs" for args using build_rpc_packet_payloads by blast
  with compress_packet_returns [OF assms] show ?thesis
    by (simp add: call_start_def Let_def rmap_Inr_iff split: sum.split) (metis (no_types, lifting) Inr_inject old.sum.distinct(1) prod.inject)
qed


section \<open>A codec for the example\<close>

text \<open>Codes whose decoder leaves what follows the encoded value.\<close>

type_synonym 'a code = "('a \<Rightarrow> byte list) \<times> (byte list \<Rightarrow> 'a \<times> byte list)"

definition code_ok :: "'a code \<Rightarrow> bool" where
  "code_ok c \<longleftrightarrow> (\<forall>x rest. snd c (fst c x @ rest) = (x, rest))"

definition word_code :: "nat \<Rightarrow> 'a::len word code" where
  "word_code n = (le_bytes n, \<lambda>bs. (le_word (take n bs), drop n bs))"

definition bytes_code :: "byte list code" where
  "bytes_code =
     (\<lambda>xs. replicate (length xs) 1 @ 0 # xs,
      \<lambda>bs. let n = length (takeWhile (\<lambda>b. b \<noteq> 0) bs) in (take n (drop (n + 1) bs), drop (2 * n + 1) bs))"

definition map_code :: "('b \<Rightarrow> 'a) \<Rightarrow> ('a \<Rightarrow> 'b) \<Rightarrow> 'a code \<Rightarrow> 'b code" where
  "map_code f g c = (\<lambda>x. fst c (f x), \<lambda>bs. apfst g (snd c bs))"

definition pair_code :: "'a code \<Rightarrow> 'b code \<Rightarrow> ('a \<times> 'b) code" where
  "pair_code a b = (\<lambda>(x, y). fst a x @ fst b y, \<lambda>bs. let (x, bs1) = snd a bs; (y, bs2) = snd b bs1 in ((x, y), bs2))"

definition option_code :: "'a code \<Rightarrow> 'a option code" where
  "option_code c =
     (\<lambda>x. case x of None \<Rightarrow> [0] | Some y \<Rightarrow> 1 # fst c y,
      \<lambda>bs. if hd bs = 0 then (None, tl bs) else apfst Some (snd c (tl bs)))"

lemma word_code_ok: "LENGTH('a::len) = 8 * n \<Longrightarrow> code_ok (word_code n :: 'a word code)"
  by (simp add: code_ok_def word_code_def)

lemma bytes_code_ok: "code_ok bytes_code"
proof -
  have "takeWhile (\<lambda>b. b \<noteq> 0) (replicate n (1 :: byte) @ 0 # xs) = replicate n 1" for n xs by (induction n) simp_all
  then show ?thesis by (simp add: code_ok_def bytes_code_def Let_def)
qed

lemma map_code_ok: "code_ok c \<Longrightarrow> (\<And>x. g (f x) = x) \<Longrightarrow> code_ok (map_code f g c)"
  by (simp add: code_ok_def map_code_def)

lemma pair_code_ok: "code_ok a \<Longrightarrow> code_ok b \<Longrightarrow> code_ok (pair_code a b)"
  by (simp add: code_ok_def pair_code_def)

lemma option_code_ok: "code_ok c \<Longrightarrow> code_ok (option_code c)"
  by (auto simp: code_ok_def option_code_def split: option.split)

lemmas code_oks = word_code_ok bytes_code_ok pair_code_ok option_code_ok

definition bool_code :: "bool code" where
  "bool_code = (\<lambda>b. [if b then 1 else 0], \<lambda>bs. (hd bs = 1, tl bs))"

definition string_code :: "string code" where
  "string_code = map_code (map (\<lambda>c. of_nat (of_char c))) (map (\<lambda>b. char_of (unat b))) bytes_code"

lemma bool_code_ok: "code_ok bool_code"
  by (simp add: code_ok_def bool_code_def)

lemma string_code_ok: "code_ok string_code"
proof -
  have "char_of (unat (of_nat (of_char c) :: byte)) = c" for c
  proof -
    have "of_char c < (256 :: nat)" by (metis of_char_mod_256 mod_less_divisor zero_less_numeral)
    then show ?thesis by (simp add: unat_of_nat)
  qed
  then show ?thesis unfolding string_code_def by (intro map_code_ok bytes_code_ok) (simp add: map_idI)
qed

definition desc_code :: "RpcDescriptor code" where
  "desc_code = map_code (\<lambda>d. (rd_domain_name d, rd_proto_name d, rd_service_name d, rd_method_index d))
     (\<lambda>(a, b, c, i). \<lparr>rd_domain_name = a, rd_proto_name = b, rd_service_name = c, rd_method_index = i\<rparr>)
     (pair_code string_code (pair_code string_code (pair_code string_code (word_code 4))))"

definition ci_code :: "RpcCompressionInfo code" where
  "ci_code = map_code (\<lambda>c. (ci_algo c, ci_accepted_algo c)) (\<lambda>(a, b). \<lparr>ci_algo = a, ci_accepted_algo = b\<rparr>)
     (pair_code (word_code 4) (word_code 4))"

definition packet_code :: "RpcPacket code" where
  "packet_code = map_code
     (\<lambda>p. ((rp_from_peer p, rp_to_peer p, rp_transaction_id p), rp_descriptor p, rp_body p,
           (rp_is_request p, rp_total_pieces p, rp_piece_idx p, rp_trace_id p), rp_compression_info p))
     (\<lambda>((a, b, c), d, e, (f, g, h, i), j).
        \<lparr>rp_from_peer = a, rp_to_peer = b, rp_transaction_id = c, rp_descriptor = d, rp_body = e, rp_is_request = f,
         rp_total_pieces = g, rp_piece_idx = h, rp_trace_id = i, rp_compression_info = j\<rparr>)
     (pair_code (pair_code (word_code 4) (pair_code (word_code 4) (word_code 8)))
       (pair_code (option_code desc_code) (pair_code bytes_code
         (pair_code (pair_code bool_code (pair_code (word_code 4) (pair_code (word_code 4) (word_code 4)))) (option_code ci_code)))))"

lemma desc_code_ok: "code_ok desc_code"
  unfolding desc_code_def by (intro map_code_ok pair_code_ok string_code_ok word_code_ok) simp_all

lemma ci_code_ok: "code_ok ci_code"
  unfolding ci_code_def by (intro map_code_ok pair_code_ok word_code_ok) simp_all

lemma packet_code_ok: "code_ok packet_code"
  unfolding packet_code_def
  by (intro map_code_ok pair_code_ok option_code_ok word_code_ok bytes_code_ok bool_code_ok desc_code_ok ci_code_ok) simp_all

definition proto_error_tuple :: "ProtoError \<Rightarrow> u8 \<times> string \<times> u32" where
  "proto_error_tuple e =
     (case e of
        PExecuteError s \<Rightarrow> (0, s, 0) | PDecodeError \<Rightarrow> (1, [], 0) | PEncodeError \<Rightarrow> (2, [], 0) | PInvalidMethodIndex s i \<Rightarrow> (3, s, i)
      | PInvalidService s \<Rightarrow> (4, s, 0) | PMalformatRpcPacket s \<Rightarrow> (5, s, 0) | PTimeout s \<Rightarrow> (6, s, 0) | POtherError s \<Rightarrow> (7, s, 0))"

definition proto_error_of :: "u8 \<times> string \<times> u32 \<Rightarrow> ProtoError" where
  "proto_error_of = (\<lambda>(t, s, i).
     if t = 0 then PExecuteError s else if t = 1 then PDecodeError else if t = 2 then PEncodeError else if t = 3 then PInvalidMethodIndex s i
     else if t = 4 then PInvalidService s else if t = 5 then PMalformatRpcPacket s else if t = 6 then PTimeout s else POtherError s)"

definition response_code :: "RpcResponse code" where
  "response_code = map_code
     (\<lambda>r. (rs_response r, map_option (map_option proto_error_tuple) (rs_error r), rs_runtime_us r))
     (\<lambda>(a, b, c). \<lparr>rs_response = a, rs_error = map_option (map_option proto_error_of) b, rs_runtime_us = c\<rparr>)
     (pair_code bytes_code
       (pair_code (option_code (option_code (pair_code (word_code 1) (pair_code string_code (word_code 4))))) (word_code 8)))"

lemma response_code_ok: "code_ok response_code"
proof -
  have "proto_error_of (proto_error_tuple e) = e" for e by (cases e) (simp_all add: proto_error_of_def proto_error_tuple_def)
  then have "map_option (map_option proto_error_of) (map_option (map_option proto_error_tuple) x) = x" for x
    by (simp add: option.map_comp o_def option.map_ident)
  then show ?thesis
    unfolding response_code_def
    by (intro map_code_ok pair_code_ok option_code_ok word_code_ok bytes_code_ok string_code_ok) simp_all
qed

definition request_code :: "RpcRequest code" where
  "request_code = map_code (\<lambda>r. (rq_request r, rq_timeout_ms r)) (\<lambda>(a, b). \<lparr>rq_request = a, rq_timeout_ms = b\<rparr>)
     (pair_code bytes_code (word_code 4))"

lemma request_code_ok: "code_ok request_code"
  unfolding request_code_def by (intro map_code_ok pair_code_ok bytes_code_ok word_code_ok) simp_all

definition example_codec :: RpcCodec where
  "example_codec = \<lparr>rc_encode = fst packet_code, rc_decode = (\<lambda>bs. Some (fst (snd packet_code bs)))\<rparr>"

definition example_msg_codec :: MsgCodec where
  "example_msg_codec =
     \<lparr>mc_encode_request = fst request_code, mc_decode_request = (\<lambda>bs. Some (fst (snd request_code bs))),
      mc_encode_response = fst response_code, mc_decode_response = (\<lambda>bs. Some (fst (snd response_code bs))),
      mc_debug = (\<lambda>_. ''error''), mc_debug_cause = (\<lambda>_. ''cause''), mc_debug_str = (\<lambda>s. s)\<rparr>"

lemma code_ok_whole: "code_ok c \<Longrightarrow> snd c (fst c x) = (x, [])"
  unfolding code_ok_def by (metis append_Nil2)

lemma example_codecs_ok: "codec_ok example_codec" "msg_codec_ok example_msg_codec"
  by (simp_all add: codec_ok_def msg_codec_ok_def example_codec_def example_msg_codec_def code_ok_whole packet_code_ok
      request_code_ok response_code_ok)

text \<open>A service that returns its input, registered under its own name, and a call of its method.\<close>

definition example_service :: Service where
  "example_service =
     \<lparr>sc_name = ''Echo'', sc_proto_name = ''Echo'', sc_methods = (\<lambda>i. if i = 1 then Some ''echo'' else None),
      sc_call = (\<lambda>_ input. (None, Inr input))\<rparr>"

definition example_server :: Server where
  "example_server = \<lparr>srv_registry = reg_register example_service ''net'' [], srv_packet_mergers = []\<rparr>"

definition example_call :: RpcCall where
  "example_call =
     \<lparr>ca_from_peer = 1, ca_to_peer = 2,
      ca_desc = \<lparr>rd_domain_name = ''net'', rd_proto_name = ''Echo'', rd_service_name = ''Echo'', rd_method_index = 1\<rparr>,
      ca_input = [4, 2], ca_timeout_ms = 5000, ca_trace_id = 0\<rparr>"

definition example_client :: Client where
  "example_client = \<lparr>cl_inflight_requests = [], cl_peer_info = [], cl_cur_tid = 7\<rparr>"

lemma example_outcome: "service_outcome example_msg_codec (\<lambda>_. False) (srv_registry example_server) example_call = Inr [4, 2]"
  by (simp add: service_outcome_def example_server_def reg_register_def service_key_def example_service_def call_method_def
      service_key_of_def example_call_def entry_call_method_def get_method_from_index_def)

lemma example_lengths:
  "length (mc_encode_request example_msg_codec \<lparr>rq_request = ca_input example_call, rq_timeout_ms = ca_timeout_ms example_call\<rparr>) = 9"
  "length (mc_encode_response example_msg_codec (response_of example_msg_codec 0 (Inr [4, 2]))) = 14"
  by (simp_all add: example_msg_codec_def request_code_def response_code_def map_code_def pair_code_def bytes_code_def word_code_def
      option_code_def response_of_def example_call_def)

lemma example_start:
  "\<exists>cl1 key z. call_start example_zstd example_codec example_msg_codec (\<lambda>_. 0) 0 example_call example_client = Inr (cl1, key, [z])"
proof -
  let ?req = "mc_encode_request example_msg_codec \<lparr>rq_request = ca_input example_call, rq_timeout_ms = ca_timeout_ms example_call\<rparr>"
  let ?args = "\<lparr>ba_from_peer = ca_from_peer example_call, ba_to_peer = ca_to_peer example_call, ba_rpc_desc = ca_desc example_call,
    ba_transaction_id = 7, ba_is_req = True, ba_content = ?req, ba_trace_id = ca_trace_id example_call,
    ba_compression_info = \<lparr>ci_algo = algo_pb_code PbNone, ci_accepted_algo = algo_pb_code PbZstd\<rparr>\<rparr>"
  have comp: "compress_packet example_zstd PbInvalid ?req = Inr (?req, PbNone)"
    by (simp add: compress_packet_def algo_from_pb_def compress_raw_def)
  have ne: "ba_content ?args \<noteq> []" using example_lengths(1) by auto
  have "piece_count ?args = 1" using example_lengths(1) by (simp add: piece_count_def div_ceil_def RPC_PACKET_CONTENT_MTU_def)
  then have "length (pieces_from ?args 0) = 1" using pieces_nth [OF ne] by simp
  moreover obtain zs where zs: "build_rpc_packet example_codec (\<lambda>_. 0) ?args = Inr zs"
    "map payload_of zs = map (rc_encode example_codec) (pieces_from ?args 0)"
    using build_rpc_packet_payloads by blast
  ultimately obtain z where "zs = [z]" by (metis length_0_conv length_Suc_conv length_map One_nat_def)
  with zs(1) comp show ?thesis by (simp add: call_start_def example_client_def Let_def)
qed


end
