(* ===== verification/IpReassembler.thy ===== *)
theory IpReassembler
  imports Prelude
begin

text \<open>
  Fragmentation and reassembly of IPv4 packets (\<open>src/app/src/gateway/ip_reassembler.rs\<close>), used by the ICMP and UDP proxies.

  The \<open>pnet\<close> library, which writes and reads IPv4 headers, is the parameter \<open>PnetIpv4\<close>. What the code relies on is \<open>pnet_ip_ok\<close>: a
  header is twenty bytes long, and reading a packet whose total length is its real length gives back the fields and the
  bytes after the header.
\<close>

section \<open>Headers\<close>

record Ipv4Fields =
  if_header_length :: u8
  if_total_length :: u16
  if_identification :: u16
  if_flags :: u8
  if_fragment_offset :: u16
  if_source :: u32
  if_destination :: u32
  if_next_level_protocol :: u8
  if_payload :: "byte list"

record PnetIpv4 =
  pi_header :: "Ipv4Fields \<Rightarrow> byte list"
  pi_read :: "byte list \<Rightarrow> Ipv4Fields"

definition MoreFragments :: u8 where "MoreFragments = 1"
definition DontFragment :: u8 where "DontFragment = 2"

definition pnet_ip_ok :: "PnetIpv4 \<Rightarrow> bool" where
  "pnet_ip_ok lib \<longleftrightarrow>
     (\<forall>f pl. length (pi_header lib f) = 20 \<and>
       (if_header_length f = 5 \<and> if_fragment_offset f < 8192 \<and> if_flags f < 8 \<and> unat (if_total_length f) = 20 + length pl \<longrightarrow>
        pi_read lib (pi_header lib f @ pl) = f\<lparr>if_payload := pl\<rparr>))"

section \<open>A packet under reassembly\<close>

record IpFragment =
  fr_id :: u16
  fr_offset :: u16
  fr_data :: "byte list"

definition fragment_of :: "Ipv4Fields \<Rightarrow> IpFragment" where
  "fragment_of p = \<lparr>fr_id = if_identification p, fr_offset = if_fragment_offset p * 8, fr_data = if_payload p\<rparr>"

record IpPacket =
  ip_source :: u32
  ip_destination :: u32
  ip_total_length :: "u16 option"
  ip_fragments :: "IpFragment list"

definition ip_packet_new :: "u32 \<Rightarrow> u32 \<Rightarrow> IpPacket" where
  "ip_packet_new src dst = \<lparr>ip_source = src, ip_destination = dst, ip_total_length = None, ip_fragments = []\<rparr>"

text \<open>The test of one loop round: does \<open>a\<close> begin at or before \<open>b\<close> and reach beyond its start.\<close>

definition reaches :: "IpFragment \<Rightarrow> IpFragment \<Rightarrow> bool rust" where
  "reaches a b =
     (if fr_offset a \<le> fr_offset b
      then rmap (\<lambda>e. fr_offset b < e) (checked_add (fr_offset a) (of_nat (length (fr_data a))))
      else Inr False)"

fun overlaps_any :: "IpFragment list \<Rightarrow> IpFragment \<Rightarrow> bool rust" where
  "overlaps_any [] g = Inr False"
| "overlaps_any (f # fs) g =
     rbind (reaches f g) (\<lambda>r1. if r1 then Inr True
       else rbind (reaches g f) (\<lambda>r2. if r2 then Inr True else overlaps_any fs g))"

definition ip_add_fragment :: "IpFragment \<Rightarrow> IpPacket \<Rightarrow> IpPacket rust" where
  "ip_add_fragment g p =
     rmap (\<lambda>overlap. if overlap then p else p\<lparr>ip_fragments := ip_fragments p @ [g]\<rparr>) (overlaps_any (ip_fragments p) g)"

fun sum_lengths :: "IpFragment list \<Rightarrow> u16 \<Rightarrow> u16 rust" where
  "sum_lengths [] acc = Inr acc"
| "sum_lengths (f # fs) acc = rbind (checked_add acc (of_nat (length (fr_data f)))) (sum_lengths fs)"

definition is_complete :: "IpPacket \<Rightarrow> bool rust" where
  "is_complete p =
     (if ip_total_length p = None then Inr False
      else rmap (\<lambda>total. Some total = ip_total_length p) (sum_lengths (ip_fragments p) 0))"

definition set_total_length :: "u16 \<Rightarrow> IpPacket \<Rightarrow> IpPacket" where
  "set_total_length n p = p\<lparr>ip_total_length := Some n\<rparr>"

fun copy_fragments :: "IpFragment list \<Rightarrow> byte list \<Rightarrow> byte list rust" where
  "copy_fragments [] buf = Inr buf"
| "copy_fragments (f # fs) buf =
     rbind (copy_into buf (unat (fr_offset f)) (unat (fr_offset f) + length (fr_data f)) (fr_data f)) (copy_fragments fs)"

definition assemble :: "IpPacket \<Rightarrow> (IpPacket \<times> byte list option) rust" where
  "assemble p =
     rbind (is_complete p) (\<lambda>complete.
       if \<not> complete then Inr (p, None)
       else let p1 = p\<lparr>ip_fragments := sort_key fr_offset (ip_fragments p)\<rparr>
            in rbind (unwrap (ip_total_length p)) (\<lambda>n.
               rmap (\<lambda>data. (p1, Some data)) (copy_fragments (ip_fragments p1) (replicate (unat n) 0))))"

section \<open>The reassembler\<close>

record IpReassembler =
  ir_packets :: "(u32 \<times> u32 \<times> u16, IpPacket \<times> nat) dmap"
  ir_timeout :: nat

definition ip_reassembler_new :: "nat \<Rightarrow> IpReassembler" where
  "ip_reassembler_new timeout = \<lparr>ir_packets = [], ir_timeout = timeout\<rparr>"

definition is_packet_fragmented :: "Ipv4Fields \<Rightarrow> bool" where
  "is_packet_fragmented p \<longleftrightarrow> if_fragment_offset p \<noteq> 0 \<or> if_flags p AND MoreFragments \<noteq> 0"

definition is_last_fragment :: "Ipv4Fields \<Rightarrow> bool" where
  "is_last_fragment p \<longleftrightarrow> if_flags p AND MoreFragments = 0"

definition checked_sub_u16 :: "u16 \<Rightarrow> u16 \<Rightarrow> u16 rust" where
  "checked_sub_u16 a b = (if b \<le> a then Inr (a - b) else Inl ArithOverflow)"

definition add_fragment :: "nat \<Rightarrow> u32 \<Rightarrow> u32 \<Rightarrow> Ipv4Fields \<Rightarrow> IpReassembler \<Rightarrow> (IpReassembler \<times> byte list option) rust" where
  "add_fragment now src dst p ir =
     rbind (checked_sub_u16 (if_total_length p) (ucast (if_header_length p) * 4)) (\<lambda>total_length.
       if total_length \<noteq> of_nat (length (if_payload p)) then Inr (ir, None)
       else let g = fragment_of p;
                key = (src, dst, if_identification p);
                v = (case dm_get (ir_packets ir) key of Some (q, _) \<Rightarrow> q | None \<Rightarrow> ip_packet_new src dst)
            in rbind (if is_last_fragment p then rmap (\<lambda>n. set_total_length n v) (checked_add total_length (fr_offset g)) else Inr v) (\<lambda>v1.
               rbind (ip_add_fragment g v1) (\<lambda>v2.
               rmap (\<lambda>(v3, data).
                 case data of
                   Some d \<Rightarrow> (ir\<lparr>ir_packets := dm_remove key (dm_insert key (v3, now) (ir_packets ir))\<rparr>, Some d)
                 | None \<Rightarrow> (ir\<lparr>ir_packets := dm_insert key (v3, now) (ir_packets ir)\<rparr>, None)) (assemble v2))))"

definition remove_expired_packets :: "nat \<Rightarrow> IpReassembler \<Rightarrow> IpReassembler" where
  "remove_expired_packets now ir = ir\<lparr>ir_packets := dm_retain (\<lambda>_ (_, t). now - t \<le> ir_timeout ir) (ir_packets ir)\<rparr>"

section \<open>Composing packets\<close>

record ComposeArgs =
  co_src_v4 :: u32
  co_dst_v4 :: u32
  co_next_protocol :: u8
  co_payload_len :: nat
  co_payload_mtu :: nat
  co_ip_id :: u16

definition piece_header :: "ComposeArgs \<Rightarrow> nat \<Rightarrow> nat \<Rightarrow> nat \<Rightarrow> nat \<Rightarrow> Ipv4Fields" where
  "piece_header co total_pieces cur_piece fragment_offset fragment_len =
     \<lparr>if_header_length = 5, if_total_length = of_nat (fragment_len + 20), if_identification = co_ip_id co,
      if_flags = (if total_pieces > 1 then (if cur_piece \<noteq> total_pieces - 1 then MoreFragments else 0) else DontFragment),
      if_fragment_offset = (if total_pieces > 1 then of_nat fragment_offset div 8 else 0),
      if_source = co_src_v4 co, if_destination = co_dst_v4 co, if_next_level_protocol = co_next_protocol co, if_payload = []\<rparr>"

text \<open>
  The loop: the header of a piece is written into the buffer in front of its data, over the end of the data of the piece before, and the piece is
  passed to the callback. \<open>accept\<close> says whether the callback succeeds; the result is the packets passed to it and whether all succeeded.
\<close>

function compose_from ::
  "PnetIpv4 \<Rightarrow> (byte list \<Rightarrow> bool) \<Rightarrow> ComposeArgs \<Rightarrow> nat \<Rightarrow> byte list \<Rightarrow> nat \<Rightarrow> nat \<Rightarrow> (byte list list \<times> bool) rust" where
  "compose_from lib accept co total_pieces buf fragment_offset cur_piece =
     (if fragment_offset < co_payload_len co \<and> 0 < co_payload_mtu co
      then let next_off = min (fragment_offset + co_payload_mtu co) (co_payload_len co);
               fragment_len = next_off - fragment_offset
           in rbind (slice buf fragment_offset (fragment_offset + fragment_len + 20)) (\<lambda>_.
              if total_pieces > 1 \<and> fragment_offset mod 8 \<noteq> 0 then Inl AssertFailed
              else rbind (copy_into buf fragment_offset (fragment_offset + 20)
                            (pi_header lib (piece_header co total_pieces cur_piece fragment_offset fragment_len))) (\<lambda>buf1.
                   rbind (slice buf1 fragment_offset (fragment_offset + fragment_len + 20)) (\<lambda>packet.
                   if accept packet
                   then rmap (\<lambda>(packets, ok). (packet # packets, ok)) (compose_from lib accept co total_pieces buf1 next_off (cur_piece + 1))
                   else Inr ([packet], False))))
      else Inr ([], True))"
  by pat_completeness auto

termination
  by (relation "measure (\<lambda>(lib, accept, co, n, buf, off, cur). co_payload_len co - off)") auto

declare compose_from.simps [simp del]

text \<open>\<open>payload_len.div_ceil(payload_mtu)\<close>.\<close>

definition ip_pieces :: "ComposeArgs \<Rightarrow> nat" where
  "ip_pieces co =
     (if co_payload_len co mod co_payload_mtu co = 0 then co_payload_len co div co_payload_mtu co
      else co_payload_len co div co_payload_mtu co + 1)"

definition compose_ipv4_packet :: "PnetIpv4 \<Rightarrow> (byte list \<Rightarrow> bool) \<Rightarrow> ComposeArgs \<Rightarrow> byte list \<Rightarrow> (byte list list \<times> bool) rust" where
  "compose_ipv4_packet lib accept co buf =
     (if co_payload_mtu co = 0 then Inl ArithOverflow
      else compose_from lib accept co (ip_pieces co) buf 0 0)"

section \<open>The pieces of a packet\<close>

text \<open>The data of the \<open>k\<close>th piece and the fields with which it is sent.\<close>

definition chunk :: "ComposeArgs \<Rightarrow> byte list \<Rightarrow> nat \<Rightarrow> byte list" where
  "chunk co pl k = take (co_payload_mtu co) (drop (k * co_payload_mtu co) pl)"

definition sent_fields :: "ComposeArgs \<Rightarrow> byte list \<Rightarrow> nat \<Rightarrow> Ipv4Fields" where
  "sent_fields co pl k = piece_header co (ip_pieces co) k (k * co_payload_mtu co) (length (chunk co pl k))"

definition sent_packet :: "PnetIpv4 \<Rightarrow> ComposeArgs \<Rightarrow> byte list \<Rightarrow> nat \<Rightarrow> byte list" where
  "sent_packet lib co pl k = pi_header lib (sent_fields co pl k) @ chunk co pl k"

text \<open>What a caller of \<open>compose_ipv4_packet\<close> provides: a packet that fits IPv4, cut at multiples of eight bytes.\<close>

definition compose_ok :: "ComposeArgs \<Rightarrow> byte list \<Rightarrow> bool" where
  "compose_ok co pl \<longleftrightarrow> pl \<noteq> [] \<and> co_payload_len co = length pl \<and> length pl + 20 < 65536 \<and> 0 < co_payload_mtu co \<and> co_payload_mtu co mod 8 = 0"

lemma less_ceiling:
  fixes i m n :: nat
  assumes "0 < m"
  shows "i < (if n mod m = 0 then n div m else n div m + 1) \<longleftrightarrow> i * m < n"
proof (cases "i < n div m")
  case True
  then have "(i + 1) * m \<le> n div m * m" by (intro mult_le_mono1) simp
  also have "n div m * m \<le> n" by simp
  finally have "i * m < n" using assms by simp
  with True show ?thesis by simp
next
  case False
  then have ge: "n div m * m \<le> i * m" by (intro mult_le_mono1) simp
  have n: "n div m * m + n mod m = n" by simp
  show ?thesis
  proof (cases "i = n div m")
    case True
    then have "i * m + n mod m = n" using n by simp
    then have "i * m < n \<longleftrightarrow> n mod m \<noteq> 0" by linarith
    then show ?thesis unfolding True [symmetric] by simp
  next
    case False
    with \<open>\<not> i < n div m\<close> have "(n div m + 1) * m \<le> i * m" by (intro mult_le_mono1) simp
    moreover have "(n div m + 1) * m = n div m * m + m" by (simp only: add_mult_distrib mult_1)
    moreover have "n mod m < m" using assms by simp
    ultimately have "\<not> i * m < n" using n by linarith
    with False \<open>\<not> i < n div m\<close> show ?thesis by simp
  qed
qed

lemma less_ip_pieces: "compose_ok co pl \<Longrightarrow> k < ip_pieces co \<longleftrightarrow> k * co_payload_mtu co < length pl"
  unfolding ip_pieces_def by (simp only: compose_ok_def less_ceiling)

lemma length_chunk: "length (chunk co pl k) = min (co_payload_mtu co) (length pl - k * co_payload_mtu co)"
  by (simp add: chunk_def)

lemma compose_from_pieces:
  assumes "compose_ok co pl" and "pnet_ip_ok lib"
  shows "k \<le> ip_pieces co \<Longrightarrow> length buf = 20 + length pl \<Longrightarrow>
    drop (min (k * co_payload_mtu co) (length pl) + 20) buf = drop (min (k * co_payload_mtu co) (length pl)) pl \<Longrightarrow>
    compose_from lib (\<lambda>_. True) co (ip_pieces co) buf (min (k * co_payload_mtu co) (length pl)) k =
      Inr (map (sent_packet lib co pl) [k..<ip_pieces co], True)"
proof (induction "ip_pieces co - k" arbitrary: k buf)
  case 0
  then have "k = ip_pieces co" by simp
  moreover have "length pl \<le> ip_pieces co * co_payload_mtu co" using less_ip_pieces [OF assms(1), of "ip_pieces co"] by simp
  ultimately show ?case using assms(1) by (subst compose_from.simps) (simp add: compose_ok_def min_def)
next
  case (Suc d)
  let ?m = "co_payload_mtu co" and ?n = "length pl" and ?off = "k * co_payload_mtu co"
  have ok: "co_payload_len co = ?n" "0 < ?m" "?m mod 8 = 0" using assms(1) by (simp_all add: compose_ok_def)
  have k: "k < ip_pieces co" using Suc.hyps(2) by simp
  then have off: "?off < ?n" by (simp add: less_ip_pieces [OF assms(1)])
  let ?next = "min (?off + ?m) ?n" and ?len = "min (?off + ?m) ?n - ?off"
  have len: "?len = length (chunk co pl k)" using off by (auto simp: length_chunk min_def)
  have nxt: "?next = min (Suc k * ?m) ?n" by (simp add: add.commute)
  let ?hdr = "pi_header lib (sent_fields co pl k)"
  have hdr: "length ?hdr = 20" using assms(2) by (simp add: pnet_ip_ok_def)
  have fits: "?off + ?len + 20 \<le> length buf" using Suc.prems(2) off by (simp add: min_def)
  obtain buf1 where buf1: "copy_into buf ?off (?off + 20) ?hdr = Inr buf1" "length buf1 = length buf"
      "take 20 (drop ?off buf1) = ?hdr" "\<And>j. ?off + 20 \<le> j \<Longrightarrow> drop j buf1 = drop j buf"
  proof -
    from fits hdr obtain b where b: "write_at buf ?off ?hdr = Inr b" by (auto simp: write_at_def)
    show ?thesis
      by (rule that [of b])
        (use fits hdr b length_write_at [OF b] read_write_at [OF b] drop_write_at [OF b] in \<open>simp_all add: copy_into_def\<close>)
  qed
  have data: "drop (?off + 20) buf1 = drop ?off pl" using Suc.prems(3) off buf1(4) by (simp add: min_def)
  have "take (?len + 20) (drop ?off buf1) = take 20 (drop ?off buf1) @ take ?len (drop (?off + 20) buf1)"
    by (simp add: take_add add.commute [of ?len] drop_drop add.commute)
  also have "\<dots> = sent_packet lib co pl k"
    using off by (simp add: buf1(3) data sent_packet_def chunk_def min_def)
  finally have packet: "slice buf1 ?off (?off + ?len + 20) = Inr (sent_packet lib co pl k)"
    using fits buf1(2) by (simp add: slice_def)
  have rest: "compose_from lib (\<lambda>_. True) co (ip_pieces co) buf1 ?next (Suc k) =
      Inr (map (sent_packet lib co pl) [Suc k..<ip_pieces co], True)"
    unfolding nxt
  proof (rule Suc.hyps(1))
    show "d = ip_pieces co - Suc k" "Suc k \<le> ip_pieces co" using Suc.hyps(2) k by simp_all
    show "length buf1 = 20 + ?n" by (simp add: buf1(2) Suc.prems(2))
    have "?off \<le> ?next" using off by simp
    then have "drop (?next + 20) buf1 = drop (?next - ?off) (drop (?off + 20) buf1)" by (simp add: drop_drop)
    then show "drop (min (Suc k * ?m) ?n + 20) buf1 = drop (min (Suc k * ?m) ?n) pl"
      using data \<open>?off \<le> ?next\<close> unfolding nxt by (simp add: drop_drop)
  qed
  have "?off mod 8 = 0" using ok(3) by (metis mod_mult_right_eq mult_zero_right mod_0)
  moreover have "min ?off ?n = ?off" using off by simp
  moreover have "sent_fields co pl k = piece_header co (ip_pieces co) k ?off ?len" by (simp only: sent_fields_def len)
  ultimately show ?case
    using off ok fits buf1(1) packet rest k
    by (subst compose_from.simps) (simp add: Let_def slice_def [of buf] upt_conv_Cons del: min.absorb1 min.absorb2 min.absorb3 min.absorb4)
qed

lemma compose_pieces:
  assumes "compose_ok co pl" and "pnet_ip_ok lib" and "length buf = 20 + length pl" and "drop 20 buf = pl"
  shows "compose_ipv4_packet lib (\<lambda>_. True) co buf = Inr (map (sent_packet lib co pl) [0..<ip_pieces co], True)"
  using compose_from_pieces [OF assms(1,2), of 0 buf] assms(1,3,4)
  by (simp add: compose_ipv4_packet_def compose_ok_def)

text \<open>What the receiver reads from the \<open>k\<close>th piece.\<close>

lemma piece_fits:
  assumes "compose_ok co pl" and "k < ip_pieces co"
  shows "k * co_payload_mtu co + length (chunk co pl k) \<le> length pl" and "0 < length (chunk co pl k)"
  using assms(1) less_ip_pieces [OF assms(1), of k] assms(2) by (auto simp: length_chunk compose_ok_def)

lemma unat_u16: "n < 65536 \<Longrightarrow> unat (of_nat n :: u16) = n"
  by (simp add: unat_of_nat)

lemma u16_offset:
  assumes "n < 65536" and "n mod 8 = 0"
  shows "(of_nat n div 8) * 8 = (of_nat n :: u16)"
proof -
  have n: "unat (of_nat n :: u16) = n" using assms(1) by (simp add: unat_of_nat)
  then have "unat ((of_nat n :: u16) div 8 * 8) = n"
    using assms by (simp add: unat_word_ariths unat_div) (metis mod_0_imp_dvd dvd_div_mult_self mod_less)
  with n show ?thesis by (simp only: word_unat_eq_iff)
qed

lemma sent_fields_ok:
  assumes "compose_ok co pl" and "k < ip_pieces co"
  shows "if_fragment_offset (sent_fields co pl k) * 8 = of_nat (k * co_payload_mtu co)"
    and "if_fragment_offset (sent_fields co pl k) < 8192" and "if_flags (sent_fields co pl k) < 8"
    and "unat (if_total_length (sent_fields co pl k)) = 20 + length (chunk co pl k)"
    and "if_header_length (sent_fields co pl k) = 5" and "if_identification (sent_fields co pl k) = co_ip_id co"
    and "is_last_fragment ((sent_fields co pl k)\<lparr>if_payload := x\<rparr>) \<longleftrightarrow> k = ip_pieces co - 1"
proof -
  let ?off = "k * co_payload_mtu co"
  have m: "co_payload_mtu co mod 8 = 0" and n: "length pl + 20 < 65536" using assms(1) by (simp_all add: compose_ok_def)
  have off8: "?off mod 8 = 0" using m by (metis mod_mult_right_eq mult_zero_right mod_0)
  have off: "?off + length (chunk co pl k) \<le> length pl" using piece_fits(1) [OF assms] .
  have single: "?off = 0" if "\<not> 1 < ip_pieces co" using that assms(2) by simp
  show "if_fragment_offset (sent_fields co pl k) * 8 = of_nat ?off"
    using off n off8 single u16_offset [of ?off] by (auto simp: sent_fields_def piece_header_def)
  have "unat (of_nat ?off :: u16) = ?off" using off n by (intro unat_u16) simp
  then have "unat ((of_nat ?off :: u16) div 8) = ?off div 8" by (simp only: unat_div) simp
  then have "unat ((of_nat ?off :: u16) div 8) < 8192" using off n by simp
  then show "if_fragment_offset (sent_fields co pl k) < 8192"
    by (auto simp: sent_fields_def piece_header_def word_less_nat_alt)
  show "if_flags (sent_fields co pl k) < 8" by (simp add: sent_fields_def piece_header_def MoreFragments_def DontFragment_def)
  show "unat (if_total_length (sent_fields co pl k)) = 20 + length (chunk co pl k)"
    using off n unat_u16 [of "length (chunk co pl k) + 20"] by (simp add: sent_fields_def piece_header_def del: of_nat_add)
  show "if_header_length (sent_fields co pl k) = 5" "if_identification (sent_fields co pl k) = co_ip_id co"
    by (simp_all add: sent_fields_def piece_header_def)
  show "is_last_fragment ((sent_fields co pl k)\<lparr>if_payload := x\<rparr>) \<longleftrightarrow> k = ip_pieces co - 1"
    using assms(2) by (auto simp: is_last_fragment_def sent_fields_def piece_header_def MoreFragments_def DontFragment_def)
qed

lemma read_sent:
  assumes "compose_ok co pl" and "pnet_ip_ok lib" and "k < ip_pieces co"
  shows "pi_read lib (sent_packet lib co pl k) = (sent_fields co pl k)\<lparr>if_payload := chunk co pl k\<rparr>"
  using assms(2) sent_fields_ok [OF assms(1,3)] by (simp add: pnet_ip_ok_def sent_packet_def)

section \<open>Reassembly of the pieces\<close>

definition sent_fragment :: "ComposeArgs \<Rightarrow> byte list \<Rightarrow> nat \<Rightarrow> IpFragment" where
  "sent_fragment co pl k = \<lparr>fr_id = co_ip_id co, fr_offset = of_nat (k * co_payload_mtu co), fr_data = chunk co pl k\<rparr>"

text \<open>The entry of the reassembler when the pieces \<open>ks\<close> have arrived.\<close>

definition gathered :: "u32 \<Rightarrow> u32 \<Rightarrow> ComposeArgs \<Rightarrow> byte list \<Rightarrow> nat list \<Rightarrow> IpPacket" where
  "gathered src dst co pl ks =
     \<lparr>ip_source = src, ip_destination = dst,
      ip_total_length = (if ip_pieces co - 1 \<in> set ks then Some (of_nat (length pl)) else None),
      ip_fragments = map (sent_fragment co pl) ks\<rparr>"

lemma unat_offset:
  assumes "compose_ok co pl" and "k < ip_pieces co"
  shows "unat (fr_offset (sent_fragment co pl k)) = k * co_payload_mtu co"
proof -
  have "k * co_payload_mtu co < 65536" using piece_fits(1) [OF assms] assms(1) by (simp add: compose_ok_def)
  then show ?thesis using unat_u16 [of "k * co_payload_mtu co"] by (simp add: sent_fragment_def del: of_nat_mult)
qed

lemma u16_eq: "m < 65536 \<Longrightarrow> n < 65536 \<Longrightarrow> (of_nat m :: u16) = of_nat n \<longleftrightarrow> m = n"
  by (metis unat_u16)

lemma checked_add_u16: "m + n < 65536 \<Longrightarrow> checked_add (of_nat m :: u16) (of_nat n) = Inr (of_nat (m + n))"
  using unat_u16 [of m] unat_u16 [of n] by (simp add: checked_add_def)

lemma reaches_sent:
  assumes "compose_ok co pl" and "j < ip_pieces co" and "k < ip_pieces co"
  shows "reaches (sent_fragment co pl j) (sent_fragment co pl k) = Inr (j = k)"
proof -
  let ?m = "co_payload_mtu co" and ?l = "length (chunk co pl j)"
  have m: "0 < ?m" and n: "length pl < 65516" using assms(1) by (simp_all add: compose_ok_def)
  have l: "j * ?m + ?l \<le> length pl" "0 < ?l" using piece_fits [OF assms(1,2)] by blast+
  have "?l \<le> ?m" by (simp add: length_chunk)
  have le: "fr_offset (sent_fragment co pl j) \<le> fr_offset (sent_fragment co pl k) \<longleftrightarrow> j \<le> k"
    unfolding word_le_nat_alt unat_offset [OF assms(1,2)] unat_offset [OF assms(1,3)] using m by simp
  have add: "checked_add (fr_offset (sent_fragment co pl j)) (of_nat ?l) = Inr (of_nat (j * ?m + ?l))"
    using checked_add_u16 [of "j * ?m" ?l] l n by (simp add: sent_fragment_def)
  have "unat (of_nat (j * ?m + ?l) :: u16) = j * ?m + ?l" using l n by (intro unat_u16) simp
  then have lt: "fr_offset (sent_fragment co pl k) < of_nat (j * ?m + ?l) \<longleftrightarrow> k * ?m < j * ?m + ?l"
    unfolding word_less_nat_alt unat_offset [OF assms(1,3)] by simp
  have "k * ?m < j * ?m + ?l \<longleftrightarrow> j = k" if "j \<le> k"
  proof (cases "j = k")
    case False
    then have "Suc j * ?m \<le> k * ?m" using that by (intro mult_le_mono1) simp
    then show ?thesis using False \<open>?l \<le> ?m\<close> by simp
  qed (use l in simp)
  then show ?thesis using le lt add by (auto simp: reaches_def sent_fragment_def simp del: of_nat_add of_nat_mult)
qed

lemma overlaps_sent:
  assumes "compose_ok co pl" and "k < ip_pieces co"
  shows "set ks \<subseteq> {..<ip_pieces co} \<Longrightarrow> overlaps_any (map (sent_fragment co pl) ks) (sent_fragment co pl k) = Inr (k \<in> set ks)"
  by (induction ks) (auto simp: reaches_sent [OF assms(1)] assms(2))

text \<open>The lengths of the pieces.\<close>

lemma sum_pieces: "(\<Sum>k<j. length (chunk co pl k)) = min (j * co_payload_mtu co) (length pl)"
  by (induction j) (auto simp: length_chunk min_def)

lemma sum_all_pieces:
  assumes "compose_ok co pl"
  shows "(\<Sum>k<ip_pieces co. length (chunk co pl k)) = length pl"
  using less_ip_pieces [OF assms, of "ip_pieces co"] by (simp add: sum_pieces)

lemma sum_some_pieces:
  assumes "compose_ok co pl" and "K \<subseteq> {..<ip_pieces co}"
  shows "(\<Sum>k\<in>K. length (chunk co pl k)) \<le> length pl"
    and "(\<Sum>k\<in>K. length (chunk co pl k)) = length pl \<longleftrightarrow> K = {..<ip_pieces co}"
proof -
  let ?f = "\<lambda>k. length (chunk co pl k)"
  show le: "sum ?f K \<le> length pl"
    using sum_mono2 [OF _ assms(2), of ?f] by (simp add: sum_all_pieces [OF assms(1)])
  show "sum ?f K = length pl \<longleftrightarrow> K = {..<ip_pieces co}"
  proof
    assume eq: "sum ?f K = length pl"
    have "sum ?f {..<ip_pieces co} = sum ?f K + sum ?f ({..<ip_pieces co} - K)"
      using assms(2) by (simp add: sum.subset_diff add.commute)
    then have "sum ?f ({..<ip_pieces co} - K) = 0" using eq by (simp add: sum_all_pieces [OF assms(1)])
    then have "\<forall>k \<in> {..<ip_pieces co} - K. ?f k = 0" by simp
    then show "K = {..<ip_pieces co}" using piece_fits(2) [OF assms(1)] assms(2) by fastforce
  qed (use sum_all_pieces [OF assms(1)] in simp)
qed

lemma sum_lengths_sent:
  "a + (\<Sum>k\<leftarrow>ks. length (chunk co pl k)) < 65536 \<Longrightarrow>
   sum_lengths (map (sent_fragment co pl) ks) (of_nat a) = Inr (of_nat (a + (\<Sum>k\<leftarrow>ks. length (chunk co pl k))))"
proof (induction ks arbitrary: a)
  case (Cons k ks)
  then show ?case
    using checked_add_u16 [of a "length (chunk co pl k)"] Cons.IH [of "a + length (chunk co pl k)"]
    by (simp add: sent_fragment_def add.assoc del: of_nat_add)
qed simp

lemma complete_sent:
  assumes "compose_ok co pl" and "distinct ks" and "set ks \<subseteq> {..<ip_pieces co}"
  shows "is_complete (gathered src dst co pl ks) = Inr (set ks = {..<ip_pieces co})"
proof -
  let ?s = "\<Sum>k\<in>set ks. length (chunk co pl k)"
  have s: "(\<Sum>k\<leftarrow>ks. length (chunk co pl k)) = ?s" using assms(2) by (simp add: sum_list_distinct_conv_sum_set)
  have n: "length pl < 65516" using assms(1) by (simp add: compose_ok_def)
  have "?s < 65536" using sum_some_pieces(1) [OF assms(1,3)] n by simp
  then have sum: "sum_lengths (map (sent_fragment co pl) ks) 0 = Inr (of_nat ?s)" using sum_lengths_sent [where a = 0 and ks = ks and co = co and pl = pl] s by simp
  have "(of_nat ?s :: u16) = of_nat (length pl) \<longleftrightarrow> ?s = length pl"
    using \<open>?s < 65536\<close> n by (intro u16_eq) simp_all
  moreover have "ip_pieces co - 1 \<in> set ks" if "set ks = {..<ip_pieces co}"
    using that less_ip_pieces [OF assms(1), of 0] assms(1) by (simp add: compose_ok_def)
  ultimately show ?thesis
    using sum sum_some_pieces(2) [OF assms(1,3)] by (simp add: is_complete_def gathered_def del: of_nat_sum) blast
qed

text \<open>Copying pieces into the buffer, in any order.\<close>

lemma nth_write_at:
  "write_at buf off src = Inr buf' \<Longrightarrow> i < length buf \<Longrightarrow>
   buf' ! i = (if off \<le> i \<and> i < off + length src then src ! (i - off) else buf ! i)"
  by (auto simp: write_at_def nth_append split: if_splits)

lemma in_piece:
  assumes "compose_ok co pl" and "k < ip_pieces co" and "i < length pl"
  shows "k * co_payload_mtu co \<le> i \<and> i < k * co_payload_mtu co + length (chunk co pl k) \<longleftrightarrow> i div co_payload_mtu co = k"
proof -
  let ?m = "co_payload_mtu co"
  have m: "0 < ?m" using assms(1) by (simp add: compose_ok_def)
  have "i div ?m = k \<longleftrightarrow> k * ?m \<le> i \<and> i < Suc k * ?m" using div_nat_eqI [of k ?m i] m 
    by (metis div_less_iff_less_mult less_Suc_eq_le less_eq_div_iff_mult_less_eq order_antisym order_refl)
  moreover have "k * ?m < length pl" using less_ip_pieces [OF assms(1), of k] assms(2) by simp
  ultimately show ?thesis using assms(3) by (auto simp: length_chunk)
qed

lemma data_sent: "fr_data (sent_fragment co pl k) = chunk co pl k"
  by (simp add: sent_fragment_def)

lemma copy_sent:
  assumes "compose_ok co pl"
  shows "set ks \<subseteq> {..<ip_pieces co} \<Longrightarrow> length buf = length pl \<Longrightarrow>
    \<exists>buf'. copy_fragments (map (sent_fragment co pl) ks) buf = Inr buf' \<and> length buf' = length pl \<and>
      (\<forall>i<length pl. buf' ! i = (if i div co_payload_mtu co \<in> set ks then pl ! i else buf ! i))"
proof (induction ks arbitrary: buf)
  case (Cons k ks)
  let ?m = "co_payload_mtu co"
  have k: "k < ip_pieces co" using Cons.prems(1) by simp
  note fits = piece_fits(1) [OF assms k]
  from fits Cons.prems(2) obtain b where b: "write_at buf (k * ?m) (chunk co pl k) = Inr b" by (auto simp: write_at_def)
  have lb: "length b = length pl" using length_write_at [OF b] Cons.prems(2) by simp
  have nth: "b ! i = (if i div ?m = k then pl ! i else buf ! i)" if "i < length pl" for i
  proof (cases "i div ?m = k")
    case True
    then have at: "k * ?m \<le> i" "i < k * ?m + length (chunk co pl k)" using in_piece [OF assms k that] by blast+
    then have "i - k * ?m < length (chunk co pl k)" by linarith
    with at have "chunk co pl k ! (i - k * ?m) = pl ! i" using that by (simp add: chunk_def)
    then show ?thesis using nth_write_at [OF b, of i] that Cons.prems(2) in_piece [OF assms k that] True by simp
  next
    case False
    then show ?thesis using nth_write_at [OF b, of i] that Cons.prems(2) in_piece [OF assms k that] by auto
  qed
  have "copy_into buf (k * ?m) (k * ?m + length (chunk co pl k)) (chunk co pl k) = Inr b"
    using fits Cons.prems(2) b by (simp add: copy_into_def)
  moreover obtain buf' where "copy_fragments (map (sent_fragment co pl) ks) b = Inr buf'" "length buf' = length pl"
      "\<forall>i<length pl. buf' ! i = (if i div ?m \<in> set ks then pl ! i else b ! i)"
    using Cons.IH [OF _ lb] Cons.prems(1) by auto
  ultimately show ?case
    using unat_offset [OF assms k] nth by (intro exI [of _ buf']) (auto simp: data_sent)
qed simp

lemma sort_key_map: "sort_key f (map g xs) = map g (sort_key (\<lambda>x. f (g x)) xs)"
proof -
  have "insort_key f (g x) (map g ys) = map g (insort_key (\<lambda>x. f (g x)) x ys)" for x ys
    by (induction ys) auto
  then show ?thesis by (induction xs) auto
qed

lemma assemble_sent:
  assumes "compose_ok co pl" and "distinct ks" and "set ks \<subseteq> {..<ip_pieces co}"
  shows "if set ks = {..<ip_pieces co} then \<exists>p. assemble (gathered src dst co pl ks) = Inr (p, Some pl)
    else assemble (gathered src dst co pl ks) = Inr (gathered src dst co pl ks, None)"
proof (cases "set ks = {..<ip_pieces co}")
  case True
  have "ip_pieces co - 1 \<in> set ks" using True less_ip_pieces [OF assms(1), of 0] assms(1) by (simp add: compose_ok_def)
  then have total: "ip_total_length (gathered src dst co pl ks) = Some (of_nat (length pl))" by (simp add: gathered_def)
  have n: "unat (of_nat (length pl) :: u16) = length pl" using assms(1) by (intro unat_u16) (simp add: compose_ok_def)
  let ?ks = "sort_key (\<lambda>k. fr_offset (sent_fragment co pl k)) ks"
  obtain buf where buf: "copy_fragments (map (sent_fragment co pl) ?ks) (replicate (length pl) 0) = Inr buf" "length buf = length pl"
      "\<forall>i<length pl. buf ! i = (if i div co_payload_mtu co \<in> set ?ks then pl ! i else replicate (length pl) 0 ! i)"
    using copy_sent [OF assms(1), of ?ks "replicate (length pl) 0"] assms(3) by auto
  have "i div co_payload_mtu co < ip_pieces co" if "i < length pl" for i
  proof -
    have "i div co_payload_mtu co * co_payload_mtu co \<le> i" by simp
    with that have "i div co_payload_mtu co * co_payload_mtu co < length pl" by (rule le_less_trans [rotated])
    then show ?thesis by (simp only: less_ip_pieces [OF assms(1)])
  qed
  then have "buf = pl" using buf(2,3) True by (intro nth_equalityI) simp_all
  then show ?thesis
    using buf(1) True total n complete_sent [OF assms] by (simp add: assemble_def gathered_def sort_key_map unwrap_def)
next
  case False
  then show ?thesis using complete_sent [OF assms, of src dst] by (simp add: assemble_def)
qed

text \<open>The entry that holds the pieces \<open>ks\<close>; no entry means that none arrived.\<close>

definition holds_pieces :: "u32 \<Rightarrow> u32 \<Rightarrow> ComposeArgs \<Rightarrow> byte list \<Rightarrow> nat list \<Rightarrow> IpReassembler \<Rightarrow> bool" where
  "holds_pieces src dst co pl ks ir \<longleftrightarrow>
     (case dm_get (ir_packets ir) (src, dst, co_ip_id co) of None \<Rightarrow> ks = [] | Some (p, t) \<Rightarrow> p = gathered src dst co pl ks)"

definition with_piece :: "nat \<Rightarrow> nat list \<Rightarrow> nat list" where
  "with_piece k ks = (if k \<in> set ks then ks else ks @ [k])"

lemma set_with_piece [simp]: "set (with_piece k ks) = insert k (set ks)"
  by (auto simp: with_piece_def)

lemma distinct_with_piece [simp]: "distinct (with_piece k ks) \<longleftrightarrow> distinct ks"
  by (simp add: with_piece_def)

lemma gather_piece:
  assumes "compose_ok co pl" and "k < ip_pieces co" and "set ks \<subseteq> {..<ip_pieces co}"
  shows "ip_add_fragment (sent_fragment co pl k)
      (if k = ip_pieces co - 1 then set_total_length (of_nat (length pl)) (gathered src dst co pl ks) else gathered src dst co pl ks) =
    Inr (gathered src dst co pl (with_piece k ks))"
  using overlaps_sent [OF assms] by (auto simp: ip_add_fragment_def gathered_def set_total_length_def with_piece_def)

lemma payload_length:
  assumes "if_header_length p = 5" and "unat (if_total_length p) = 20 + length (if_payload p)"
  shows "checked_sub_u16 (if_total_length p) (ucast (if_header_length p) * 4) = Inr (of_nat (length (if_payload p)))"
proof -
  have le: "(20 :: u16) \<le> if_total_length p" using assms(2) by (simp add: word_le_nat_alt)
  then have "unat (if_total_length p - 20) = length (if_payload p)" using assms(2) by (simp add: unat_sub)
  moreover have "length (if_payload p) < 65536" using assms(2) unsigned_less [of "if_total_length p", where 'a = nat] by simp
  ultimately have "if_total_length p - 20 = of_nat (length (if_payload p))"
    by (intro word_unat_eq_iff [THEN iffD2]) (simp add: unat_u16)
  with le show ?thesis using assms(1) by (simp add: checked_sub_u16_def)
qed

lemma add_sent:
  assumes "compose_ok co pl" and "pnet_ip_ok lib" and "k < ip_pieces co"
    and "distinct ks" and "set ks \<subseteq> {..<ip_pieces co}" and "holds_pieces src dst co pl ks ir"
  shows "\<exists>ir'. add_fragment now src dst (pi_read lib (sent_packet lib co pl k)) ir =
      Inr (ir', if set (with_piece k ks) = {..<ip_pieces co} then Some pl else None) \<and>
    (if set (with_piece k ks) = {..<ip_pieces co} then dm_get (ir_packets ir') (src, dst, co_ip_id co) = None
     else holds_pieces src dst co pl (with_piece k ks) ir')"
proof -
  let ?p = "(sent_fields co pl k)\<lparr>if_payload := chunk co pl k\<rparr>" and ?l = "length (chunk co pl k)" and ?off = "k * co_payload_mtu co"
  let ?key = "(src, dst, co_ip_id co)"
  note f = sent_fields_ok [OF assms(1,3)]
  have l: "?off + ?l \<le> length pl" and n: "length pl < 65516" using piece_fits(1) [OF assms(1,3)] assms(1) by (simp_all add: compose_ok_def)
  have total: "checked_sub_u16 (if_total_length ?p) (ucast (if_header_length ?p) * 4) = Inr (of_nat ?l)"
    using payload_length [of ?p] f(4,5) by simp
  have frag: "fragment_of ?p = sent_fragment co pl k" using f(1,6) by (simp add: fragment_of_def sent_fragment_def)
  have v: "(case dm_get (ir_packets ir) ?key of Some (q, _) \<Rightarrow> q | None \<Rightarrow> ip_packet_new src dst) = gathered src dst co pl ks"
    using assms(6) by (auto simp: holds_pieces_def gathered_def ip_packet_new_def split: option.splits)
  have last_total: "checked_add (of_nat ?l) (fr_offset (sent_fragment co pl k)) = Inr (of_nat (length pl))" if "k = ip_pieces co - 1"
  proof -
    have "\<not> Suc k * co_payload_mtu co < length pl" using that assms(3) less_ip_pieces [OF assms(1), of "Suc k"] by simp
    then have "?l + ?off = length pl" using l by (simp add: length_chunk)
    then show ?thesis using checked_add_u16 [of ?l ?off] n by (simp add: sent_fragment_def)
  qed
  have v1: "(if is_last_fragment ?p
      then rmap (\<lambda>n. set_total_length n (gathered src dst co pl ks)) (checked_add (of_nat ?l) (fr_offset (sent_fragment co pl k)))
      else Inr (gathered src dst co pl ks)) =
    Inr (if k = ip_pieces co - 1 then set_total_length (of_nat (length pl)) (gathered src dst co pl ks) else gathered src dst co pl ks)"
    using f(7) last_total by simp
  have asm: "if set (with_piece k ks) = {..<ip_pieces co} then \<exists>p. assemble (gathered src dst co pl (with_piece k ks)) = Inr (p, Some pl)
      else assemble (gathered src dst co pl (with_piece k ks)) = Inr (gathered src dst co pl (with_piece k ks), None)"
    using assms(3,4,5) by (intro assemble_sent [OF assms(1)]) simp_all
  have id: "if_identification ?p = co_ip_id co" using f(6) by simp
  have "add_fragment now src dst ?p ir =
    rmap (\<lambda>(v3, data).
      case data of
        Some d \<Rightarrow> (ir\<lparr>ir_packets := dm_remove ?key (dm_insert ?key (v3, now) (ir_packets ir))\<rparr>, Some d)
      | None \<Rightarrow> (ir\<lparr>ir_packets := dm_insert ?key (v3, now) (ir_packets ir)\<rparr>, None)) (assemble (gathered src dst co pl (with_piece k ks)))"
    unfolding add_fragment_def total rbind_simps Let_def frag id v v1 gather_piece [OF assms(1,3,5)] by simp
  then show ?thesis
    using asm unfolding read_sent [OF assms(1,2,3)] by (auto simp: holds_pieces_def split: if_splits)
qed

text \<open>A sequence of arrivals, each with its time.\<close>

fun add_fragments :: "PnetIpv4 \<Rightarrow> u32 \<Rightarrow> u32 \<Rightarrow> (nat \<times> byte list) list \<Rightarrow> IpReassembler \<Rightarrow> (IpReassembler \<times> byte list option list) rust" where
  "add_fragments lib src dst [] ir = Inr (ir, [])"
| "add_fragments lib src dst ((now, packet) # as) ir =
     rbind (add_fragment now src dst (pi_read lib packet) ir) (\<lambda>(ir1, data).
       rmap (\<lambda>(ir2, datas). (ir2, data # datas)) (add_fragments lib src dst as ir1))"

lemma add_fragments_missing:
  assumes "compose_ok co pl" and "pnet_ip_ok lib"
  shows "distinct ks \<Longrightarrow> set ks \<union> set js \<subset> {..<ip_pieces co} \<Longrightarrow> holds_pieces src dst co pl ks ir \<Longrightarrow>
    map snd as = map (sent_packet lib co pl) js \<Longrightarrow>
    \<exists>ir' ks'. add_fragments lib src dst as ir = Inr (ir', replicate (length as) None) \<and>
      holds_pieces src dst co pl ks' ir' \<and> distinct ks' \<and> set ks' = set ks \<union> set js"
proof (induction js arbitrary: ks ir as)
  case (Cons j js)
  then obtain now as' where as: "as = (now, sent_packet lib co pl j) # as'" "map snd as' = map (sent_packet lib co pl) js" by auto
  have j: "j < ip_pieces co" "set ks \<subseteq> {..<ip_pieces co}" "insert j (set ks) \<noteq> {..<ip_pieces co}" using Cons.prems(2) by auto
  obtain ir1 where "add_fragment now src dst (pi_read lib (sent_packet lib co pl j)) ir = Inr (ir1, None)"
      "holds_pieces src dst co pl (with_piece j ks) ir1"
    using add_sent [OF assms j(1) Cons.prems(1) j(2) Cons.prems(3), of now] j(3) by auto
  moreover from this(2) obtain ir2 ks' where "add_fragments lib src dst as' ir1 = Inr (ir2, replicate (length as') None)"
      "holds_pieces src dst co pl ks' ir2" "distinct ks'" "set ks' = insert j (set ks) \<union> set js"
    using Cons.IH [of "with_piece j ks" ir1 as'] Cons.prems(1,2) as(2) by auto
  ultimately show ?case using as by auto
qed auto

lemma add_fragments_append:
  "add_fragments lib src dst (as @ bs) ir =
     rbind (add_fragments lib src dst as ir) (\<lambda>(ir1, xs). rmap (\<lambda>(ir2, ys). (ir2, xs @ ys)) (add_fragments lib src dst bs ir1))"
  by (induction as arbitrary: ir) (auto simp: rbind_def rmap_def split: sum.splits)

lemma inj_sent:
  assumes "compose_ok co pl" and "pnet_ip_ok lib"
  shows "inj_on (sent_packet lib co pl) {..<ip_pieces co}"
proof (rule inj_onI)
  fix j k
  assume "j \<in> {..<ip_pieces co}" and "k \<in> {..<ip_pieces co}" and eq: "sent_packet lib co pl j = sent_packet lib co pl k"
  then have j: "j < ip_pieces co" and k: "k < ip_pieces co" by simp_all
  have "if_fragment_offset (sent_fields co pl j) = if_fragment_offset (sent_fields co pl k)"
    using arg_cong [OF eq, of "\<lambda>x. if_fragment_offset (pi_read lib x)"] by (simp add: read_sent [OF assms j] read_sent [OF assms k])
  then have "fr_offset (sent_fragment co pl j) = fr_offset (sent_fragment co pl k)"
    using sent_fields_ok(1) [OF assms(1) j] sent_fields_ok(1) [OF assms(1) k] by (simp add: sent_fragment_def)
  then have "j * co_payload_mtu co = k * co_payload_mtu co" using unat_offset [OF assms(1) j] unat_offset [OF assms(1) k] by metis
  then show "j = k" using assms(1) by (simp add: compose_ok_def)
qed

text \<open>
  C11. A packet that is cut into fragments is put together again. \<open>compose_ipv4_packet\<close>, given a payload that fits an IPv4 packet and a
  fragment size that is a multiple of eight, passes all its fragments to the callback. When these arrive at a reassembler that has no entry
  for the packet, in any order and with any repetition, so that the last arrival is the one that completes them, then every arrival but the
  last gives nothing, the last gives the payload, and the entry is gone.
\<close>

theorem reassembly_restores_packet:
  assumes "pnet_ip_ok lib" and "compose_ok co pl" and "length buf = 20 + length pl" and "drop 20 buf = pl"
    and "dm_get (ir_packets ir) (src, dst, co_ip_id co) = None"
  shows "\<exists>packets. compose_ipv4_packet lib (\<lambda>_. True) co buf = Inr (packets, True) \<and>
    (\<forall>as. snd ` set as = set packets \<and> snd ` set (butlast as) \<noteq> set packets \<longrightarrow>
      (\<exists>ir'. add_fragments lib src dst as ir = Inr (ir', replicate (length as - 1) None @ [Some pl]) \<and>
             dm_get (ir_packets ir') (src, dst, co_ip_id co) = None))"
proof -
  let ?sent = "sent_packet lib co pl" and ?K = "{..<ip_pieces co}"
  have "\<exists>ir'. add_fragments lib src dst as ir = Inr (ir', replicate (length as - 1) None @ [Some pl]) \<and>
      dm_get (ir_packets ir') (src, dst, co_ip_id co) = None"
    if all: "snd ` set as = ?sent ` ?K" and missing: "snd ` set (butlast as) \<noteq> ?sent ` ?K" for as :: "(nat \<times> byte list) list"
  proof -
    have "0 < ip_pieces co" using less_ip_pieces [OF assms(2), of 0] assms(2) by (simp add: compose_ok_def)
    then have "?sent 0 \<in> snd ` set as" unfolding all by blast
    then have "as \<noteq> []" by auto
    then obtain bs t x where as: "as = bs @ [(t, x)]" by (metis rev_exhaust surj_pair)
    define ys where "ys = map snd bs"
    have "\<exists>k. k \<in> ?K \<and> ?sent k = y" if "y \<in> set ys" for y
    proof -
      have "y \<in> snd ` set as" using that by (simp add: as ys_def)
      then show ?thesis unfolding all by blast
    qed
    then obtain f where f: "\<And>y. y \<in> set ys \<Longrightarrow> f y \<in> ?K \<and> ?sent (f y) = y" by metis
    define js where "js = map f ys"
    have js: "map ?sent js = ys" unfolding js_def map_map by (rule map_idI) (simp add: f)
    have "set js \<subseteq> ?K" using f by (auto simp: js_def)
    have image: "?sent ` set js = snd ` set bs" using arg_cong [OF js, of set] by (simp add: ys_def)
    have "snd ` set bs \<noteq> ?sent ` ?K" using missing by (simp add: as)
    then have "set js \<noteq> ?K" unfolding image [symmetric] by metis
    with \<open>set js \<subseteq> ?K\<close> have sub: "set js \<subset> ?K" by blast
    obtain k where k: "x = ?sent k" "k < ip_pieces co" using all as by auto
    have "?sent ` insert k (set js) = ?sent ` ?K" using all k(1) image by (simp add: as)
    then have full: "insert k (set js) = ?K"
      using inj_on_image_eq_iff [OF inj_sent [OF assms(2,1)], of "insert k (set js)" ?K] k(2) sub by auto
    obtain ir1 ks where ir1: "add_fragments lib src dst bs ir = Inr (ir1, replicate (length bs) None)"
        "holds_pieces src dst co pl ks ir1" "distinct ks" "set ks = set js"
      using add_fragments_missing [OF assms(2,1), of "[]" js src dst ir bs] sub js assms(5) by (auto simp: holds_pieces_def ys_def)
    then obtain ir2 where "add_fragment t src dst (pi_read lib x) ir1 = Inr (ir2, Some pl)"
        "dm_get (ir_packets ir2) (src, dst, co_ip_id co) = None"
      using add_sent [OF assms(2,1) k(2) ir1(3) _ ir1(2), of t] full k(1) sub by auto
    then show ?thesis using ir1(1) by (auto simp: as add_fragments_append)
  qed
  then show ?thesis using compose_pieces [OF assms(2,1,3,4)] by (simp add: atLeast0LessThan)
qed

text \<open>An instance of the header library and a packet in two fragments.\<close>

definition example_pnet :: PnetIpv4 where
  "example_pnet =
     \<lparr>pi_header = (\<lambda>f. be_bytes 1 (if_header_length f) @ be_bytes 2 (if_total_length f) @ be_bytes 2 (if_identification f)
        @ be_bytes 1 (if_flags f) @ be_bytes 2 (if_fragment_offset f) @ be_bytes 4 (if_source f) @ be_bytes 4 (if_destination f)
        @ be_bytes 1 (if_next_level_protocol f) @ [0, 0, 0]),
      pi_read = (\<lambda>bs. \<lparr>if_header_length = be_word (take 1 bs), if_total_length = be_word (take 2 (drop 1 bs)),
        if_identification = be_word (take 2 (drop 3 bs)), if_flags = be_word (take 1 (drop 5 bs)),
        if_fragment_offset = be_word (take 2 (drop 6 bs)), if_source = be_word (take 4 (drop 8 bs)),
        if_destination = be_word (take 4 (drop 12 bs)), if_next_level_protocol = be_word (take 1 (drop 16 bs)), if_payload = drop 20 bs\<rparr>)\<rparr>"

lemma example_pnet_ok: "pnet_ip_ok example_pnet"
  by (simp add: pnet_ip_ok_def example_pnet_def)

definition example_compose :: ComposeArgs where
  "example_compose =
     \<lparr>co_src_v4 = 1, co_dst_v4 = 2, co_next_protocol = 17, co_payload_len = 11, co_payload_mtu = 8, co_ip_id = 9\<rparr>"

definition example_payload :: "byte list" where
  "example_payload = [1, 2, 3, 4, 5, 6, 7, 8, 9, 10, 11]"

lemma example_compose_ok: "compose_ok example_compose example_payload"
  by (simp add: compose_ok_def example_compose_def example_payload_def)

lemma example_packets:
  "compose_ipv4_packet example_pnet (\<lambda>_. True) example_compose (replicate 20 0 @ example_payload) =
     Inr (map (sent_packet example_pnet example_compose example_payload) [0, 1], True)"
proof -
  have "[0..<ip_pieces example_compose] = [0, 1]" by (simp add: ip_pieces_def example_compose_def upt_conv_Cons)
  then show ?thesis using compose_pieces [OF example_compose_ok example_pnet_ok, of "replicate 20 0 @ example_payload"] by simp
qed

definition example_piece :: "nat \<Rightarrow> byte list" where
  "example_piece = sent_packet example_pnet example_compose example_payload"

theorem reassembly_restores_packet_witness:
  "\<exists>ir'. add_fragments example_pnet 1 2 [(0, example_piece 1), (1, example_piece 1), (4, example_piece 0)] (ip_reassembler_new 10) =
    Inr (ir', [None, None, Some example_payload])"
proof -
  let ?as = "[(0, example_piece 1), (1, example_piece 1), (4 :: nat, example_piece 0)]"
  have ne: "example_piece 0 \<noteq> example_piece 1"
    using inj_onD [OF inj_sent [OF example_compose_ok example_pnet_ok], of 0 1]
    by (auto simp: example_piece_def ip_pieces_def example_compose_def)
  have "\<forall>as. snd ` set as = {example_piece 0, example_piece 1} \<and> snd ` set (butlast as) \<noteq> {example_piece 0, example_piece 1} \<longrightarrow>
      (\<exists>ir'. add_fragments example_pnet 1 2 as (ip_reassembler_new 10) = Inr (ir', replicate (length as - 1) None @ [Some example_payload]) \<and>
             dm_get (ir_packets ir') (1, 2, co_ip_id example_compose) = None)"
    using reassembly_restores_packet [OF example_pnet_ok example_compose_ok, of "replicate 20 0 @ example_payload" "ip_reassembler_new 10" 1 2]
    unfolding example_packets example_piece_def by (simp add: ip_reassembler_new_def)
  from spec [OF this, of ?as] show ?thesis using ne by (auto simp: numeral_2_eq_2)
qed
text \<open>
  C36. Two fragments of equal size that lie beyond each other bring the reassembler down. The last fragment of a packet arrives with as much
  missing in front of it as another fragment carries that lies behind it. The lengths then add up to the length of the packet, so the
  reassembler takes it for complete and copies the second fragment to a place behind the end of the buffer, which panics.
\<close>

theorem crafted_fragments_panic:
  assumes "is_last_fragment p" and "\<not> is_last_fragment q" and "if_identification q = if_identification p"
    and "if_header_length p = 5" and "unat (if_total_length p) = 20 + length (if_payload p)"
    and "if_header_length q = 5" and "unat (if_total_length q) = 20 + length (if_payload q)"
    and "if_payload p \<noteq> []" and "if_payload q \<noteq> []" and "unat (if_fragment_offset p) * 8 = length (if_payload q)"
    and "length (if_payload q) + length (if_payload p) \<le> unat (if_fragment_offset q) * 8"
    and "unat (if_fragment_offset q) * 8 + length (if_payload q) < 65536"
    and "dm_get (ir_packets ir) (src, dst, if_identification p) = None"
  shows "\<exists>ir'. add_fragment t src dst p ir = Inr (ir', None) \<and> add_fragment t' src dst q ir' = Inl IndexOutOfRange"
proof -
  let ?a = "length (if_payload p)" and ?b = "length (if_payload q)"
  define f g where "f = fragment_of p" and "g = fragment_of q"
  have off: "unat (fr_offset f) = ?b" "unat (fr_offset g) = unat (if_fragment_offset q) * 8"
    using assms(10,11,12) by (simp_all add: f_def g_def fragment_of_def unat_word_ariths)
  have data: "fr_data f = if_payload p" "fr_data g = if_payload q" by (simp_all add: f_def g_def fragment_of_def)
  have f: "fr_offset f = of_nat ?b" using off(1) assms(12) by (intro word_unat_eq_iff [THEN iffD2]) (simp add: unat_u16)
  have sums: "checked_add (of_nat ?a) (fr_offset f) = Inr (of_nat (?a + ?b) :: u16)" "checked_add (0 :: u16) (of_nat ?a) = Inr (of_nat ?a)"
      "checked_add (of_nat ?a :: u16) (of_nat ?b) = Inr (of_nat (?a + ?b))" "checked_add (fr_offset f) (of_nat ?a) = Inr (of_nat (?b + ?a) :: u16)"
    using checked_add_u16 [of ?a ?b] checked_add_u16 [of ?b ?a] checked_add_u16 [of 0 ?a] assms(11,12) f by (simp_all del: of_nat_add)
  have pos: "0 < ?a" "0 < ?b" using assms(8,9) by simp_all
  have u: "unat (of_nat (?a + ?b) :: u16) = ?a + ?b" "unat (of_nat ?a :: u16) = ?a" using unat_u16 [of "?a + ?b"] unat_u16 [of ?a] assms(11,12) by linarith+
  have ne: "(of_nat ?a :: u16) \<noteq> of_nat (?a + ?b)" using u16_eq [of ?a "?a + ?b"] assms(11,12) pos by (simp del: of_nat_add)
  define v where "v = \<lparr>ip_source = src, ip_destination = dst, ip_total_length = Some (of_nat (?a + ?b) :: u16), ip_fragments = [f]\<rparr>"
  have one: "add_fragment t src dst p ir = Inr (ir\<lparr>ir_packets := dm_insert (src, dst, if_identification p) (v, t) (ir_packets ir)\<rparr>, None)"
    unfolding add_fragment_def payload_length [OF assms(4,5)] rbind_simps Let_def f_def [symmetric] assms(13)
    using assms(1) sums ne data
    by (simp add: ip_packet_new_def set_total_length_def ip_add_fragment_def assemble_def is_complete_def v_def del: of_nat_add)
  have lt: "fr_offset f < fr_offset g" unfolding word_less_nat_alt off using assms(11) pos by linarith
  have far: "\<not> fr_offset g < of_nat (?b + ?a)" unfolding word_less_nat_alt off add.commute [of ?b] u(1) using assms(11) by linarith
  have overlap: "overlaps_any [f] g = Inr False" using lt far sums(4) data less_le_not_le [of "fr_offset f"] by (simp add: reaches_def del: of_nat_add)
  have "\<not> unat (if_fragment_offset q) * 8 \<le> ?a" using assms(11) pos by linarith
  then have "copy_fragments [f, g] (replicate (?a + ?b) 0) = Inl IndexOutOfRange"
    using off data by (simp add: copy_into_def write_at_def)
  then have "assemble (v\<lparr>ip_fragments := [f, g]\<rparr>) = Inl IndexOutOfRange"
    using less_imp_le [OF lt] sums data u by (simp add: assemble_def is_complete_def v_def unwrap_def del: of_nat_add)
  then have "add_fragment t' src dst q (ir\<lparr>ir_packets := dm_insert (src, dst, if_identification p) (v, t) (ir_packets ir)\<rparr>) = Inl IndexOutOfRange"
    unfolding add_fragment_def payload_length [OF assms(6,7)] rbind_simps Let_def g_def [symmetric]
    using assms(2,3) overlap by (simp add: ip_add_fragment_def v_def)
  with one show ?thesis by blast
qed

definition example_last_fragment :: Ipv4Fields where
  "example_last_fragment =
     \<lparr>if_header_length = 5, if_total_length = 28, if_identification = 9, if_flags = 0, if_fragment_offset = 1, if_source = 1,
      if_destination = 2, if_next_level_protocol = 17, if_payload = replicate 8 7\<rparr>"

definition example_far_fragment :: Ipv4Fields where
  "example_far_fragment = example_last_fragment\<lparr>if_flags := MoreFragments, if_fragment_offset := 10\<rparr>"

theorem crafted_fragments_panic_witness:
  "\<exists>ir'. add_fragment 0 1 2 example_last_fragment (ip_reassembler_new 10) = Inr (ir', None) \<and>
    add_fragment 1 1 2 example_far_fragment ir' = Inl IndexOutOfRange"
  by (rule crafted_fragments_panic)
    (simp_all add: example_last_fragment_def example_far_fragment_def is_last_fragment_def MoreFragments_def ip_reassembler_new_def)

end
