(* ===== verification/TcpFraming.thy ===== *)
theory TcpFraming
  imports PacketView
begin

text \<open>
  Packets on a byte stream (\<open>FramedReader\<close> and \<open>FramedWriter\<close> of \<open>src/app/src/tunnel/common.rs\<close>, \<open>BufList\<close> of
  \<open>src/app/src/tunnel/buf.rs\<close>), used by the TCP and the QUIC tunnel.

  The stream of the operating system is its contents together with a schedule: the number of bytes that each call moves at most. A call
  beyond the end of the schedule is pending. A poll of the reader or the writer takes the schedule and returns what is left of it, so that the
  properties hold for every way in which the bytes arrive.
\<close>

section \<open>Errors and polls\<close>

datatype IpVersion = V4Only | V6Only | VBoth

datatype TunnelError =
    IOError string
  | InvalidPacket string
  | ExceedMaxPacketSize usize usize
  | InvalidProtocol string
  | InvalidAddr string
  | InternalError string
  | ConnIdNotMatch u32 u32
  | BufferFull
  | TunnelTimeout
  | AnyhowError string
  | TunnelShutdown
  | NoDnsRecordFound IpVersion
  | WebSocketError string
  | TunError string

datatype 'a poll = Pending | Ready 'a

section \<open>The reader\<close>

record FramedReader =
  rd_buf :: BytesMut
  rd_max_packet_size :: usize
  rd_error :: "TunnelError option"

definition framed_reader_new :: "usize \<Rightarrow> FramedReader" where
  "framed_reader_new max_packet_size =
     \<lparr>rd_buf = bm_with_capacity max_packet_size, rd_max_packet_size = max_packet_size, rd_error = None\<rparr>"

text \<open>\<open>BytesMut::split_to(at)\<close>: the front part and what stays.\<close>

definition bm_split_to :: "nat \<Rightarrow> BytesMut \<Rightarrow> (BytesMut \<times> BytesMut) rust" where
  "bm_split_to at b =
     (if at \<le> length (bm_data b)
      then Inr (\<lparr>bm_data = take at (bm_data b), bm_cap = at\<rparr>, \<lparr>bm_data = drop at (bm_data b), bm_cap = bm_cap b - at\<rparr>)
      else Inl IndexOutOfRange)"

definition extract_one_packet :: "BytesMut \<Rightarrow> usize \<Rightarrow> (BytesMut \<times> (TunnelError + ZCPacket) option) rust" where
  "extract_one_packet buf max_packet_size =
     (if length (bm_data buf) < TCP_TUNNEL_HEADER_SIZE then Inr (buf, None)
      else rbind (unwrap (ref_from_prefix TCP_TUNNEL_HEADER_SIZE tcp_hdr_of (bm_data buf))) (\<lambda>header.
        let body_len = unat (tcp_len header)
        in if body_len > max_packet_size then Inr (buf, Some (Inl (InvalidPacket ''body too long'')))
           else if length (bm_data buf) < TCP_TUNNEL_HEADER_SIZE + body_len then Inr (buf, None)
           else rmap (\<lambda>(packet_buf, rest). (rest, Some (Inr (new_from_buf packet_buf TCP))))
                  (bm_split_to (TCP_TUNNEL_HEADER_SIZE + body_len) buf)))"

definition reserve_buf :: "usize \<Rightarrow> usize \<Rightarrow> BytesMut \<Rightarrow> BytesMut" where
  "reserve_buf min_size max_size buf = (if bm_cap buf < min_size then bm_reserve max_size buf else buf)"

text \<open>
  One round of the loop of \<open>poll_next\<close> up to the read: the outcome of the poll, or nothing when more bytes are needed, with room made for them.
\<close>

definition reader_round :: "FramedReader \<Rightarrow> (FramedReader \<times> (TunnelError + ZCPacket) option option) rust" where
  "reader_round rd =
     (if rd_error rd \<noteq> None then Inr (rd, Some None)
      else rmap (\<lambda>(buf, r).
        case r of
          Some (Inl e) \<Rightarrow>
            (rd\<lparr>rd_buf := buf, rd_error := (case e of InvalidPacket msg \<Rightarrow> Some (InvalidPacket msg) | _ \<Rightarrow> None)\<rparr>, Some (Some (Inl e)))
        | Some (Inr p) \<Rightarrow> (rd\<lparr>rd_buf := buf\<rparr>, Some (Some (Inr p)))
        | None \<Rightarrow> (rd\<lparr>rd_buf := reserve_buf (rd_max_packet_size rd) (rd_max_packet_size rd * 2) buf\<rparr>, None))
        (extract_one_packet (rd_buf rd) (rd_max_packet_size rd)))"

text \<open>The bytes that a read of at most \<open>n\<close> bytes moves from the stream \<open>s\<close> into the room of the buffer.\<close>

definition reader_read :: "nat \<Rightarrow> byte list \<Rightarrow> FramedReader \<Rightarrow> byte list" where
  "reader_read n s rd = take (min n (bm_cap (rd_buf rd) - length (bm_data (rd_buf rd)))) s"

text \<open>
  \<open>poll_next\<close> with the bytes \<open>s\<close> that are still in the stream and the schedule of the reads. The result is the reader, the bytes left in the
  stream, the schedule left, and the outcome of the poll. A read of no bytes is the end of the stream.
\<close>

primrec reader_poll_next ::
  "nat list \<Rightarrow> byte list \<Rightarrow> FramedReader \<Rightarrow> (FramedReader \<times> byte list \<times> nat list \<times> (TunnelError + ZCPacket) option poll) rust" where
  "reader_poll_next [] s rd =
     rmap (\<lambda>(rd1, r). (rd1, s, [], case r of Some outcome \<Rightarrow> Ready outcome | None \<Rightarrow> Pending)) (reader_round rd)"
| "reader_poll_next (n # sched) s rd =
     rbind (reader_round rd) (\<lambda>(rd1, r).
       case r of
         Some outcome \<Rightarrow> Inr (rd1, s, n # sched, Ready outcome)
       | None \<Rightarrow>
           let got = reader_read n s rd1
           in if got = [] then Inr (rd1, s, sched, Ready None)
              else reader_poll_next sched (drop (length got) s) (rd1\<lparr>rd_buf := (rd_buf rd1)\<lparr>bm_data := bm_data (rd_buf rd1) @ got\<rparr>\<rparr>))"

section \<open>The writer\<close>

definition tcp_zcpacket_into_bytes :: "(nat \<Rightarrow> byte) \<Rightarrow> ZCPacket \<Rightarrow> (TunnelError + byte list) rust" where
  "tcp_zcpacket_into_bytes junk item =
     rbind (convert_type junk TCP item) (\<lambda>item.
     rbind (payload_len item) (\<lambda>n.
       let tcp_len' = PEER_MANAGER_HEADER_SIZE + n
       in rbind (tcp_tunnel_header item) (\<lambda>hdr.
          if hdr = None then Inr (Inl (InvalidPacket ''packet too short''))
          else if 2 ^ 32 \<le> tcp_len' then Inl UnwrapNone
          else rbind (mut_tcp_tunnel_header (\<lambda>h. h\<lparr>tcp_len := of_nat tcp_len'\<rparr>) item) (\<lambda>r.
               rmap (\<lambda>item. Inr (zc_bytes item)) (unwrap r)))))"

text \<open>\<open>BufList\<close>.\<close>

definition bl_push :: "byte list \<Rightarrow> byte list list \<Rightarrow> byte list list" where
  "bl_push buf bufs = bufs @ [buf]"

definition bl_remaining :: "byte list list \<Rightarrow> nat" where
  "bl_remaining bufs = sum_list (map length bufs)"

definition bl_chunk :: "byte list list \<Rightarrow> byte list" where
  "bl_chunk bufs = (case bufs of [] \<Rightarrow> [] | b # _ \<Rightarrow> b)"

fun bl_advance :: "nat \<Rightarrow> byte list list \<Rightarrow> byte list list rust" where
  "bl_advance cnt [] = (if cnt = 0 then Inr [] else Inl IndexOutOfRange)"
| "bl_advance cnt (b # bs) =
     (if cnt = 0 then Inr (b # bs)
      else if length b > cnt then Inr (drop cnt b # bs)
      else bl_advance (cnt - length b) bs)"

text \<open>The bytes that one write can offer: all buffers up to \<open>dst.len()\<close> slices, or the first one.\<close>

definition bl_offered :: "bool \<Rightarrow> nat \<Rightarrow> byte list list \<Rightarrow> byte list" where
  "bl_offered vectored slices bufs = (if vectored then concat (take slices bufs) else bl_chunk bufs)"

record FramedWriter =
  wr_sending_bufs :: "byte list list"

definition MAX_BUFFER_COUNT :: nat where "MAX_BUFFER_COUNT = 64"

definition writer_start_send :: "(nat \<Rightarrow> byte) \<Rightarrow> ZCPacket \<Rightarrow> FramedWriter \<Rightarrow> (FramedWriter \<times> (TunnelError + unit)) rust" where
  "writer_start_send junk item wr =
     rmap (\<lambda>r. case r of Inl e \<Rightarrow> (wr, Inl e) | Inr bs \<Rightarrow> (wr\<lparr>wr_sending_bufs := bl_push bs (wr_sending_bufs wr)\<rparr>, Inr ()))
       (tcp_zcpacket_into_bytes junk item)"

text \<open>
  \<open>poll_flush\<close> with the bytes \<open>out\<close> written so far and the schedule of the writes. The slices of a vectored write are those of \<open>poll_write_buf\<close>.
\<close>

primrec writer_flush_loop ::
  "bool \<Rightarrow> nat list \<Rightarrow> nat \<Rightarrow> byte list \<Rightarrow> byte list list \<Rightarrow> (byte list list \<times> byte list \<times> nat list \<times> (TunnelError + unit) poll) rust" where
  "writer_flush_loop vectored [] remaining out bufs =
     Inr (bufs, out, [], if remaining = 0 then Ready (Inr ()) else Pending)"
| "writer_flush_loop vectored (k # sched) remaining out bufs =
     (if remaining = 0 then Inr (bufs, out, k # sched, Ready (Inr ()))
      else let offered = bl_offered vectored 64 bufs;
               n = min k (length offered)
           in rbind (bl_advance n bufs) (\<lambda>bufs1.
              if n = 0 then Inr (bufs1, out, sched, Ready (Inl (IOError ''failed to write frame to transport'')))
              else rbind (checked_sub remaining n) (\<lambda>remaining1.
                   writer_flush_loop vectored sched remaining1 (out @ take n offered) bufs1)))"

definition writer_poll_flush ::
  "bool \<Rightarrow> nat list \<Rightarrow> byte list \<Rightarrow> FramedWriter \<Rightarrow> (FramedWriter \<times> byte list \<times> nat list \<times> (TunnelError + unit) poll) rust" where
  "writer_poll_flush vectored sched out wr =
     rmap (\<lambda>(bufs, out1, sched1, r). (wr\<lparr>wr_sending_bufs := bufs\<rparr>, out1, sched1, r))
       (writer_flush_loop vectored sched (bl_remaining (wr_sending_bufs wr)) out (wr_sending_bufs wr))"

definition writer_poll_ready ::
  "bool \<Rightarrow> nat list \<Rightarrow> byte list \<Rightarrow> FramedWriter \<Rightarrow> (FramedWriter \<times> byte list \<times> nat list \<times> (TunnelError + unit) poll) rust" where
  "writer_poll_ready vectored sched out wr =
     (if length (wr_sending_bufs wr) \<ge> MAX_BUFFER_COUNT then writer_poll_flush vectored sched out wr
      else Inr (wr, out, sched, Ready (Inr ())))"

section \<open>Frames\<close>

definition frame :: "byte list \<Rightarrow> byte list" where
  "frame tp = tcp_hdr_bytes \<lparr>tcp_len = of_nat (length tp)\<rparr> @ tp"

definition frame_packet :: "byte list \<Rightarrow> ZCPacket" where
  "frame_packet tp = new_from_buf \<lparr>bm_data = frame tp, bm_cap = TCP_TUNNEL_HEADER_SIZE + length tp\<rparr> TCP"

definition tunnel_bytes :: "ZCPacket \<Rightarrow> byte list" where
  "tunnel_bytes p = drop (peer_manager_header_offset (get_packet_offsets (zc_type p))) (zc_bytes p)"

lemma length_frame: "length (frame tp) = TCP_TUNNEL_HEADER_SIZE + length tp"
  by (simp add: frame_def tcp_hdr.enc_length)

lemma frame_not_Nil: "frame tp \<noteq> []"
  using length_frame [of tp] by (auto simp: TCP_TUNNEL_HEADER_SIZE_def)

lemma frame_header: "ref_from_prefix TCP_TUNNEL_HEADER_SIZE tcp_hdr_of (frame tp @ rest) = Some \<lparr>tcp_len = of_nat (length tp)\<rparr>"
  by (simp add: frame_def tcp_hdr.read_back)

lemma tunnel_bytes_eq: "zc_inv p \<Longrightarrow> tunnel_payload p = Inr (tunnel_bytes p)"
  by (simp add: tunnel_bytes_def zc_inv_def tunnel_payload_ok)

lemma frame_packet_payload: "tunnel_payload (frame_packet tp) = Inr tp"
  by (simp add: frame_packet_def tunnel_payload_def new_from_buf_def slice_from_def length_frame)
    (simp add: frame_def tcp_hdr.enc_length)

lemma into_bytes_frame:
  assumes "zc_inv p" and "length (tunnel_bytes p) < 2 ^ 32"
  shows "tcp_zcpacket_into_bytes junk p = Inr (Inr (frame (tunnel_bytes p)))"
proof -
  obtain q where q: "convert_type junk TCP p = Inr q" "zc_inv q" "zc_type q = TCP" "tunnel_payload q = tunnel_payload p"
    using convert_type_keeps [OF assms(1), of TCP junk] by auto
  let ?n = TCP_TUNNEL_HEADER_SIZE
  have len: "?n + PEER_MANAGER_HEADER_SIZE \<le> length (zc_bytes q)"
    using q(2,3) by (simp add: zc_inv_def payload_offset_def)
  have tp: "drop ?n (zc_bytes q) = tunnel_bytes p"
    using q(2-4) tunnel_bytes_eq [OF assms(1)] tunnel_bytes_eq [OF q(2)] by (simp add: tunnel_bytes_def)
  have pl: "payload_len q = Inr (length (zc_bytes q) - (?n + PEER_MANAGER_HEADER_SIZE))"
    using len q(3) by (simp add: payload_len_def payload_offset_def checked_sub_def)
  have n: "PEER_MANAGER_HEADER_SIZE + (length (zc_bytes q) - (?n + PEER_MANAGER_HEADER_SIZE)) = length (tunnel_bytes p)"
    using len arg_cong [OF tp, of length] by simp
  have hdr: "tcp_tunnel_header q = Inr (Some (tcp_hdr_of (take ?n (zc_bytes q))))"
    using len q(3) by (simp add: tcp_tunnel_header_def slice_from_def ref_from_prefix_def)
  have "mut_tcp_tunnel_header (\<lambda>h. h\<lparr>tcp_len := of_nat (length (tunnel_bytes p))\<rparr>) q = Inr (Some (set_bytes (frame (tunnel_bytes p)) q))"
    using len q(3) tcp_hdr.modify_hdr_ok [of 0 "zc_bytes q" "\<lambda>h. h\<lparr>tcp_len := of_nat (length (tunnel_bytes p))\<rparr>"] tp
    by (simp add: mut_tcp_tunnel_header_def frame_def tcp_hdr_of_def)
  then show ?thesis
    using assms(2) q(1) pl hdr by (simp add: tcp_zcpacket_into_bytes_def Let_def n set_bytes_def unwrap_def)
qed

section \<open>The reader takes frames apart\<close>

lemma extract_partial:
  assumes "bm_data buf @ lost = frame tp" and "lost \<noteq> []" and "length tp \<le> max_size" and "length tp < 2 ^ 32"
  shows "extract_one_packet buf max_size = Inr (buf, None)"
proof (cases "length (bm_data buf) < TCP_TUNNEL_HEADER_SIZE")
  case False
  have "take TCP_TUNNEL_HEADER_SIZE (bm_data buf) = take TCP_TUNNEL_HEADER_SIZE (frame tp)"
    using False arg_cong [OF assms(1), of "take TCP_TUNNEL_HEADER_SIZE"] by simp
  then have hdr: "ref_from_prefix TCP_TUNNEL_HEADER_SIZE tcp_hdr_of (bm_data buf) = Some \<lparr>tcp_len = of_nat (length tp)\<rparr>"
    using False frame_header [of tp "[]"] length_frame [of tp] by (simp add: ref_from_prefix_def)
  have "length (bm_data buf) < TCP_TUNNEL_HEADER_SIZE + length tp"
  proof -
    have "length (bm_data buf) + length lost = TCP_TUNNEL_HEADER_SIZE + length tp"
      using arg_cong [OF assms(1), of length] by (simp add: length_frame)
    moreover have "0 < length lost" using assms(2) by simp
    ultimately show ?thesis by linarith
  qed
  with False hdr assms(3,4) show ?thesis by (simp add: extract_one_packet_def unwrap_def unat_of_nat Let_def)
qed (simp add: extract_one_packet_def)

lemma extract_full:
  assumes "bm_data buf = frame tp @ rest" and "length tp \<le> max_size" and "length tp < 2 ^ 32"
  shows "extract_one_packet buf max_size =
    Inr (\<lparr>bm_data = rest, bm_cap = bm_cap buf - length (frame tp)\<rparr>, Some (Inr (frame_packet tp)))"
  using assms frame_header [of tp rest] length_frame [of tp]
  by (simp add: extract_one_packet_def unwrap_def unat_of_nat bm_split_to_def frame_packet_def Let_def)

text \<open>
  The reader has taken in a part of the frames of \<open>tps\<close>, \<open>s\<close> is still in the stream and \<open>lost\<close> never arrives.
\<close>

definition reading :: "usize \<Rightarrow> byte list \<Rightarrow> byte list list \<Rightarrow> byte list \<Rightarrow> FramedReader \<Rightarrow> bool" where
  "reading max_size lost tps s rd \<longleftrightarrow>
     rd_error rd = None \<and> rd_max_packet_size rd = max_size \<and> bm_data (rd_buf rd) @ s @ lost = concat (map frame tps) \<and>
     (\<forall>tp \<in> set tps. TCP_TUNNEL_HEADER_SIZE + length tp \<le> max_size)"

lemma reader_round_cases:
  assumes "reading max_size lost tps s rd" and "0 < max_size" and "max_size < 2 ^ 32"
  shows "(\<exists>tp tps' rd'. tps = tp # tps' \<and> reader_round rd = Inr (rd', Some (Some (Inr (frame_packet tp)))) \<and> reading max_size lost tps' s rd') \<or>
    (\<exists>rd'. reader_round rd = Inr (rd', None) \<and> reading max_size lost tps s rd' \<and> length (bm_data (rd_buf rd')) < bm_cap (rd_buf rd') \<and>
      (s = [] \<and> lost = [] \<longrightarrow> tps = []))"
proof -
  let ?d = "bm_data (rd_buf rd)"
  let ?rd = "rd\<lparr>rd_buf := reserve_buf max_size (max_size * 2) (rd_buf rd)\<rparr>"
  have e: "rd_error rd = None" and m: "rd_max_packet_size rd = max_size" and bytes: "?d @ s @ lost = concat (map frame tps)"
    and fit: "\<forall>tp \<in> set tps. TCP_TUNNEL_HEADER_SIZE + length tp \<le> max_size"
    using assms(1) by (simp_all add: reading_def)
  have room: "length (bm_data (rd_buf ?rd)) < bm_cap (rd_buf ?rd)" if "length ?d < max_size"
    using that assms(2) by (auto simp: reserve_buf_def bm_reserve_def)
  have keep: "reading max_size lost tps s ?rd" using assms(1) by (simp add: reading_def reserve_buf_def bm_reserve_def)
  have wait: "reader_round rd = Inr (?rd, None)" if "extract_one_packet (rd_buf rd) max_size = Inr (rd_buf rd, None)"
    using that e m by (simp add: reader_round_def)
  show ?thesis
  proof (cases tps)
    case Nil
    then have "?d = []" using bytes by simp
    then have "extract_one_packet (rd_buf rd) max_size = Inr (rd_buf rd, None)"
      by (simp add: extract_one_packet_def TCP_TUNNEL_HEADER_SIZE_def)
    with wait keep room \<open>?d = []\<close> assms(2) Nil show ?thesis by auto
  next
    case (Cons tp tps')
    have tp: "TCP_TUNNEL_HEADER_SIZE + length tp \<le> max_size" using fit Cons by simp
    have split: "?d @ s @ lost = frame tp @ concat (map frame tps')" using bytes Cons by simp
    show ?thesis
    proof (cases "length ?d < length (frame tp)")
      case True
      have "?d = take (length ?d) (frame tp)" using True arg_cong [OF split, of "take (length ?d)"] by simp
      then have r: "?d @ drop (length ?d) (frame tp) = frame tp" "drop (length ?d) (frame tp) \<noteq> []"
        using True by (metis append_take_drop_id) (use True in simp)
      have "extract_one_packet (rd_buf rd) max_size = Inr (rd_buf rd, None)"
        by (rule extract_partial [OF r]) (use tp assms(3) in simp_all)
      moreover have "length ?d < max_size" using True tp by (simp add: length_frame)
      moreover have "\<not> (s = [] \<and> lost = [])" using True split by auto
      ultimately show ?thesis using wait keep room by blast
    next
      case False
      then have "take (length (frame tp)) ?d = frame tp" using arg_cong [OF split, of "take (length (frame tp))"] by simp
      then obtain rest where rest: "?d = frame tp @ rest" by (metis append_take_drop_id)
      with split have rest2: "rest @ s @ lost = concat (map frame tps')" by simp
      have "extract_one_packet (rd_buf rd) max_size =
          Inr (\<lparr>bm_data = rest, bm_cap = bm_cap (rd_buf rd) - length (frame tp)\<rparr>, Some (Inr (frame_packet tp)))"
        by (rule extract_full [OF rest]) (use tp assms(3) in simp_all)
      then show ?thesis using Cons e m rest2 fit by (auto simp: reader_round_def reading_def)
    qed
  qed
qed
lemma reading_read:
  assumes "reading max_size lost tps s rd" and "got = reader_read n s rd"
  shows "reading max_size lost tps (drop (length got) s) (rd\<lparr>rd_buf := (rd_buf rd)\<lparr>bm_data := bm_data (rd_buf rd) @ got\<rparr>\<rparr>)"
proof -
  have "got @ drop (length got) s = s" by (simp add: assms(2) reader_read_def min_def)
  then show ?thesis using assms(1) by (simp add: reading_def) (metis append_assoc)
qed

text \<open>A poll: it delivers the packet of the next frame, or the stream has nothing more for now.\<close>

lemma poll_delivers:
  assumes "0 < max_size" and "max_size < 2 ^ 32"
  shows "reading max_size lost tps s rd \<Longrightarrow> \<forall>n \<in> set sched. 0 < n \<Longrightarrow>
    \<exists>rd' s' sched' out. reader_poll_next sched s rd = Inr (rd', s', sched', out) \<and> set sched' \<subseteq> set sched \<and>
      (length s \<le> length sched \<longrightarrow> length s' \<le> length sched') \<and>
      ((\<exists>tp tps'. tps = tp # tps' \<and> out = Ready (Some (Inr (frame_packet tp))) \<and> reading max_size lost tps' s' rd') \<or>
       (out = Pending \<or> out = Ready None) \<and> reading max_size lost tps s' rd' \<and> (length s \<le> length sched \<and> lost = [] \<longrightarrow> tps = []))"
proof (induction sched arbitrary: s rd)
  case Nil
  then show ?case using reader_round_cases [OF Nil.prems(1) assms] by force
next
  case (Cons n sched)
  consider (packet) tp tps' rd' where "tps = tp # tps'" "reader_round rd = Inr (rd', Some (Some (Inr (frame_packet tp))))" "reading max_size lost tps' s rd'"
    | (wait) rd' where "reader_round rd = Inr (rd', None)" "reading max_size lost tps s rd'"
        "length (bm_data (rd_buf rd')) < bm_cap (rd_buf rd')" "s = [] \<and> lost = [] \<longrightarrow> tps = []"
    using reader_round_cases [OF Cons.prems(1) assms] by blast
  then show ?case
  proof cases
    case packet
    then show ?thesis by auto
  next
    case wait
    let ?got = "reader_read n s rd'"
    let ?rd = "rd'\<lparr>rd_buf := (rd_buf rd')\<lparr>bm_data := bm_data (rd_buf rd') @ ?got\<rparr>\<rparr>"
    have n: "0 < n" using Cons.prems(2) by simp
    then have empty: "?got = [] \<longleftrightarrow> s = []" using wait(3) by (auto simp: reader_read_def)
    show ?thesis
    proof (cases "s = []")
      case True
      then show ?thesis using wait empty by auto
    next
      case False
      have nxt: "reading max_size lost tps (drop (length ?got) s) ?rd" by (rule reading_read [OF wait(2) refl])
      have shorter: "length s \<le> length (n # sched) \<Longrightarrow> length (drop (length ?got) s) \<le> length sched"
        using False empty by (cases ?got) auto
      from Cons.IH [OF nxt] Cons.prems(2) obtain rd2 s2 sched2 out where IH:
        "reader_poll_next sched (drop (length ?got) s) ?rd = Inr (rd2, s2, sched2, out)" "set sched2 \<subseteq> set sched"
        "length (drop (length ?got) s) \<le> length sched \<longrightarrow> length s2 \<le> length sched2"
        "(\<exists>tp tps'. tps = tp # tps' \<and> out = Ready (Some (Inr (frame_packet tp))) \<and> reading max_size lost tps' s2 rd2) \<or>
         (out = Pending \<or> out = Ready None) \<and> reading max_size lost tps s2 rd2 \<and>
         (length (drop (length ?got) s) \<le> length sched \<and> lost = [] \<longrightarrow> tps = [])"
        by auto
      have run: "reader_poll_next (n # sched) s rd = Inr (rd2, s2, sched2, out)"
        using wait(1) empty False IH(1) by (simp add: Let_def)
      show ?thesis unfolding run using IH(2-4) shorter by auto
    qed
  qed
qed

text \<open>The polls of a consumer, and the packets it gets.\<close>

primrec reader_polls :: "nat \<Rightarrow> nat list \<Rightarrow> byte list \<Rightarrow> FramedReader \<Rightarrow> (TunnelError + ZCPacket) option poll list rust" where
  "reader_polls 0 sched s rd = Inr []"
| "reader_polls (Suc k) sched s rd =
     rbind (reader_poll_next sched s rd) (\<lambda>(rd1, s1, sched1, out). rmap (\<lambda>outs. out # outs) (reader_polls k sched1 s1 rd1))"

definition packets_in :: "(TunnelError + ZCPacket) option poll list \<Rightarrow> ZCPacket list" where
  "packets_in outs = List.map_filter (\<lambda>out. case out of Ready (Some (Inr p)) \<Rightarrow> Some p | _ \<Rightarrow> None) outs"

lemma packets_in_simps [simp]:
  "packets_in [] = []" "packets_in (Ready (Some (Inr p)) # outs) = p # packets_in outs"
  "packets_in (Pending # outs) = packets_in outs" "packets_in (Ready None # outs) = packets_in outs"
  by (simp_all add: packets_in_def List.map_filter_simps)

lemma polls_deliver:
  assumes "0 < max_size" and "max_size < 2 ^ 32"
  shows "reading max_size lost tps s rd \<Longrightarrow> \<forall>n \<in> set sched. 0 < n \<Longrightarrow>
    \<exists>outs j. reader_polls k sched s rd = Inr outs \<and> packets_in outs = map frame_packet (take j tps) \<and>
      (length s \<le> length sched \<and> lost = [] \<and> length tps \<le> k \<longrightarrow> j = length tps)"
proof (induction k arbitrary: tps s rd sched)
  case (Suc k)
  obtain rd' s' sched' out where poll: "reader_poll_next sched s rd = Inr (rd', s', sched', out)" "set sched' \<subseteq> set sched"
      "length s \<le> length sched \<longrightarrow> length s' \<le> length sched'"
      "(\<exists>tp tps'. tps = tp # tps' \<and> out = Ready (Some (Inr (frame_packet tp))) \<and> reading max_size lost tps' s' rd') \<or>
       (out = Pending \<or> out = Ready None) \<and> reading max_size lost tps s' rd' \<and> (length s \<le> length sched \<and> lost = [] \<longrightarrow> tps = [])"
    using poll_delivers [OF assms Suc.prems] by blast
  from poll(4) show ?case
  proof (elim disjE exE conjE)
    fix tp tps'
    assume c: "tps = tp # tps'" "out = Ready (Some (Inr (frame_packet tp)))" "reading max_size lost tps' s' rd'"
    obtain outs j where "reader_polls k sched' s' rd' = Inr outs" "packets_in outs = map frame_packet (take j tps')"
        "length s' \<le> length sched' \<and> lost = [] \<and> length tps' \<le> k \<longrightarrow> j = length tps'"
      using Suc.IH [OF c(3)] Suc.prems(2) poll(2) by blast
    then show ?thesis using poll(1,3) c by (intro exI [of _ "out # outs"] exI [of _ "Suc j"]) auto
  next
    assume c: "reading max_size lost tps s' rd'" "length s \<le> length sched \<and> lost = [] \<longrightarrow> tps = []" and out: "out = Pending"
    obtain outs j where "reader_polls k sched' s' rd' = Inr outs" "packets_in outs = map frame_packet (take j tps)"
      using Suc.IH [OF c(1)] Suc.prems(2) poll(2) by blast
    then show ?thesis using poll(1) c(2) out
      by (intro exI [of _ "out # outs"] exI [of _ "if tps = [] then 0 else j"]) auto
  next
    assume c: "reading max_size lost tps s' rd'" "length s \<le> length sched \<and> lost = [] \<longrightarrow> tps = []" and out: "out = Ready None"
    obtain outs j where "reader_polls k sched' s' rd' = Inr outs" "packets_in outs = map frame_packet (take j tps)"
      using Suc.IH [OF c(1)] Suc.prems(2) poll(2) by blast
    then show ?thesis using poll(1) c(2) out
      by (intro exI [of _ "out # outs"] exI [of _ "if tps = [] then 0 else j"]) auto
  qed
qed auto
section \<open>The writer keeps the order of the bytes\<close>

lemma bl_advance_ok:
  "n \<le> length (concat bufs) \<Longrightarrow> \<forall>b \<in> set bufs. b \<noteq> [] \<Longrightarrow>
   \<exists>bufs1. bl_advance n bufs = Inr bufs1 \<and> concat bufs1 = drop n (concat bufs) \<and> (\<forall>b \<in> set bufs1. b \<noteq> [])"
proof (induction bufs arbitrary: n)
  case (Cons b bufs)
  consider "n = 0" | "0 < n" "n < length b" | "0 < n" "length b \<le> n" by linarith
  then show ?case
  proof cases
    case 3
    then show ?thesis using Cons.IH [of "n - length b"] Cons.prems by auto
  qed (use Cons.prems in auto)
qed simp

lemma offered_prefix:
  "n \<le> length (bl_offered vectored k bufs) \<Longrightarrow> take n (bl_offered vectored k bufs) = take n (concat bufs) \<and> n \<le> length (concat bufs)"
proof (cases vectored)
  case True
  assume n: "n \<le> length (bl_offered vectored k bufs)"
  have "concat bufs = concat (take k bufs) @ concat (drop k bufs)" by (metis append_take_drop_id concat_append)
  with n True show ?thesis by (simp add: bl_offered_def)
qed (cases bufs; simp add: bl_offered_def bl_chunk_def)

lemma offered_not_Nil:
  "bufs \<noteq> [] \<Longrightarrow> \<forall>b \<in> set bufs. b \<noteq> [] \<Longrightarrow> 0 < k \<Longrightarrow> bl_offered vectored k bufs \<noteq> []"
  by (cases bufs; cases k) (auto simp: bl_offered_def bl_chunk_def)

lemma flush_loop_keeps:
  assumes "\<forall>b \<in> set bufs. b \<noteq> []"
  shows "\<exists>bufs' out' sched' r. writer_flush_loop vectored sched (length (concat bufs)) out bufs = Inr (bufs', out', sched', r) \<and>
    out' @ concat bufs' = out @ concat bufs \<and> (r = Ready (Inr ()) \<longrightarrow> bufs' = []) \<and>
    ((\<forall>k \<in> set sched. 0 < k) \<and> length (concat bufs) \<le> length sched \<longrightarrow> r = Ready (Inr ()))"
  using assms
proof (induction sched arbitrary: out bufs)
  case Nil
  then show ?case by (cases bufs) auto
next
  case (Cons k sched)
  show ?case
  proof (cases "concat bufs = []")
    case True
    then have "bufs = []" using Cons.prems by (cases bufs) auto
    then show ?thesis by simp
  next
    case False
    let ?offered = "bl_offered vectored 64 bufs"
    let ?n = "min k (length ?offered)"
    have ne: "?offered \<noteq> []" using offered_not_Nil [of bufs 64 vectored] False Cons.prems by auto
    have pre: "take ?n ?offered = take ?n (concat bufs)" "?n \<le> length (concat bufs)" using offered_prefix [of ?n vectored 64 bufs] by simp_all
    obtain bufs1 where b1: "bl_advance ?n bufs = Inr bufs1" "concat bufs1 = drop ?n (concat bufs)" "\<forall>b \<in> set bufs1. b \<noteq> []"
      using bl_advance_ok [OF pre(2) Cons.prems] by blast
    show ?thesis
    proof (cases "?n = 0")
      case True
      then have "k = 0" using ne by (auto simp: min_def split: if_splits)
      then show ?thesis using False b1 by (auto simp: Let_def)
    next
      case n: False
      obtain bufs' out' sched' r where IH:
        "writer_flush_loop vectored sched (length (concat bufs1)) (out @ take ?n ?offered) bufs1 = Inr (bufs', out', sched', r)"
        "out' @ concat bufs' = (out @ take ?n ?offered) @ concat bufs1" "r = Ready (Inr ()) \<longrightarrow> bufs' = []"
        "(\<forall>k \<in> set sched. 0 < k) \<and> length (concat bufs1) \<le> length sched \<longrightarrow> r = Ready (Inr ())"
        using Cons.IH [OF b1(3)] by blast
      have sub: "checked_sub (length (concat bufs)) ?n = Inr (length (concat bufs1))" using pre(2) b1(2) by (simp add: checked_sub_def)
      have "length (concat bufs) \<noteq> 0" using False by simp
      then have "writer_flush_loop vectored (k # sched) (length (concat bufs)) out bufs = Inr (bufs', out', sched', r)"
        by (simp only: writer_flush_loop.simps Let_def if_False n b1(1) rbind_simps sub IH(1))
      moreover have "out' @ concat bufs' = out @ concat bufs" using IH(2) pre(1) b1(2) by simp
      moreover have "length (concat bufs1) < length (concat bufs)" unfolding b1(2) length_drop using n pre(2) by linarith
      ultimately show ?thesis using IH(3,4) by auto
    qed
  qed
qed

lemma length_concat_eq: "bl_remaining bufs = length (concat bufs)"
  by (simp add: bl_remaining_def length_concat)

text \<open>A client that feeds packets to the writer.\<close>

primrec writer_sends :: "(nat \<Rightarrow> byte) \<Rightarrow> ZCPacket list \<Rightarrow> FramedWriter \<Rightarrow> (FramedWriter \<times> (TunnelError + unit) list) rust" where
  "writer_sends junk [] wr = Inr (wr, [])"
| "writer_sends junk (p # ps) wr =
     rbind (writer_start_send junk p wr) (\<lambda>(wr1, r). rmap (\<lambda>(wr2, rs). (wr2, r # rs)) (writer_sends junk ps wr1))"

lemma sends_frames:
  "\<forall>p \<in> set ps. zc_inv p \<and> length (tunnel_bytes p) < 2 ^ 32 \<Longrightarrow>
   writer_sends junk ps wr =
     Inr (wr\<lparr>wr_sending_bufs := wr_sending_bufs wr @ map (\<lambda>p. frame (tunnel_bytes p)) ps\<rparr>, replicate (length ps) (Inr ()))"
  by (induction ps arbitrary: wr) (auto simp: writer_start_send_def into_bytes_frame bl_push_def)

section \<open>A tunnel over a stream\<close>

definition fits_frame :: "usize \<Rightarrow> ZCPacket \<Rightarrow> bool" where
  "fits_frame max_size p \<longleftrightarrow> zc_inv p \<and> TCP_TUNNEL_HEADER_SIZE + length (tunnel_bytes p) \<le> max_size"

definition total_bytes :: "ZCPacket list \<Rightarrow> nat" where
  "total_bytes ps = length (concat (map (\<lambda>p. frame (tunnel_bytes p)) ps))"

lemma total_bytes_sum: "total_bytes ps = (\<Sum>p\<leftarrow>ps. TCP_TUNNEL_HEADER_SIZE + length (tunnel_bytes p))"
  by (simp add: total_bytes_def length_concat comp_def length_frame)

text \<open>The received packet holds the same peer manager header and payload as the sent one.\<close>

definition same_contents :: "ZCPacket \<Rightarrow> ZCPacket \<Rightarrow> bool" where
  "same_contents p q \<longleftrightarrow>
     zc_type q = TCP \<and> tunnel_payload q = tunnel_payload p \<and> peer_manager_header q = peer_manager_header p \<and> payload q = payload p"

lemma frame_same_contents:
  assumes "zc_inv p"
  shows "same_contents p (frame_packet (tunnel_bytes p))"
proof -
  note p = tunnel_bytes_eq [OF assms] and q = frame_packet_payload [of "tunnel_bytes p"]
  have "PEER_MANAGER_HEADER_SIZE \<le> length (tunnel_bytes p)"
    using assms unfolding zc_inv_def tunnel_bytes_def payload_offset_def payload_after_header length_drop by linarith
  then show ?thesis
    using header_from_tunnel_payload [OF p] header_from_tunnel_payload [OF q] p q
    by (simp add: same_contents_def) (simp add: frame_packet_def new_from_buf_def)
qed

text \<open>
  C8. A tunnel over a byte stream delivers packets whole and in order. Packets that fit the limit of the reader together with their length field
  are fed to the writer, which flushes them in pieces of any size; the reader gets what was written in pieces of any size. No operation
  panics, the packets that a consumer gets are the first of those sent, with the same header and payload and in the same
  order, whatever the schedule; and if the schedules move all bytes and the consumer polls often enough, it gets all of them.
\<close>

theorem framed_tunnel_delivers:
  assumes "\<forall>p \<in> set ps. fits_frame max_size p" and "0 < max_size" and "max_size < 2 ^ 32"
    and "\<forall>n \<in> set wsched. 0 < n" and "\<forall>n \<in> set rsched. 0 < n"
  shows "\<exists>wr wr' out wsched' r outs qs.
    writer_sends junk ps \<lparr>wr_sending_bufs = []\<rparr> = Inr (wr, replicate (length ps) (Inr ())) \<and>
    writer_poll_flush vectored wsched [] wr = Inr (wr', out, wsched', r) \<and>
    reader_polls k rsched out (framed_reader_new max_size) = Inr outs \<and> packets_in outs = qs \<and>
    list_all2 same_contents (take (length qs) ps) qs \<and>
    (total_bytes ps \<le> length wsched \<and> total_bytes ps \<le> length rsched \<and> length ps \<le> k \<longrightarrow> length qs = length ps)"
proof -
  let ?tps = "map tunnel_bytes ps" and ?wr = "\<lparr>wr_sending_bufs = map (\<lambda>p. frame (tunnel_bytes p)) ps\<rparr>"
  let ?bytes = "concat (map (\<lambda>p. frame (tunnel_bytes p)) ps)"
  have sends: "writer_sends junk ps \<lparr>wr_sending_bufs = []\<rparr> = Inr (?wr, replicate (length ps) (Inr ()))"
    by (subst sends_frames) (use assms(1,3) in \<open>auto simp: fits_frame_def\<close>)
  obtain bufs out wsched' r where flush:
    "writer_flush_loop vectored wsched (length ?bytes) [] (wr_sending_bufs ?wr) = Inr (bufs, out, wsched', r)"
    "out @ concat bufs = ?bytes" "r = Ready (Inr ()) \<longrightarrow> bufs = []"
    "(\<forall>k \<in> set wsched. 0 < k) \<and> length ?bytes \<le> length wsched \<longrightarrow> r = Ready (Inr ())"
    using flush_loop_keeps [of "wr_sending_bufs ?wr" vectored wsched "[]"] frame_not_Nil
    by (simp only: FramedWriter.select_convs append_Nil list.set_map ball_simps) blast
  have start: "reading max_size (concat bufs) ?tps out (framed_reader_new max_size)"
    using flush(2) assms(1) by (auto simp: reading_def framed_reader_new_def bm_with_capacity_def fits_frame_def comp_def)
  obtain outs j where polls: "reader_polls k rsched out (framed_reader_new max_size) = Inr outs"
      "packets_in outs = map frame_packet (take j ?tps)"
      "length out \<le> length rsched \<and> concat bufs = [] \<and> length ?tps \<le> k \<longrightarrow> j = length ?tps"
    using polls_deliver [OF assms(2,3) start assms(5)] by blast
  have "list_all2 same_contents (take j ps) (map frame_packet (take j ?tps))"
    using assms(1) frame_same_contents by (auto simp: list_all2_conv_all_nth fits_frame_def)
  moreover have "take (length (packets_in outs)) ps = take j ps" by (simp add: polls(2) min_def)
  ultimately have same: "list_all2 same_contents (take (length (packets_in outs)) ps) (packets_in outs)"
    by (simp only: polls(2))
  have "length (packets_in outs) = length ps"
    if "total_bytes ps \<le> length wsched" "total_bytes ps \<le> length rsched" "length ps \<le> k"
  proof -
    have "bufs = []" using flush(3,4) assms(4) that(1) by (simp add: total_bytes_def)
    then have "j = length ps" using polls(3) flush(2) that by (simp add: total_bytes_def)
    then show ?thesis by (simp add: polls(2))
  qed
  moreover have "writer_poll_flush vectored wsched [] ?wr = Inr (\<lparr>wr_sending_bufs = bufs\<rparr>, out, wsched', r)"
    using flush(1) by (simp add: writer_poll_flush_def length_concat_eq)
  ultimately show ?thesis using sends polls(1) same by blast
qed
definition example_frames :: "ZCPacket list" where
  "example_frames = [new_from_buf \<lparr>bm_data = replicate 18 7, bm_cap = 20\<rparr> DummyTunnel, new_from_buf \<lparr>bm_data = replicate 26 9, bm_cap = 26\<rparr> UDP]"

theorem framed_tunnel_delivers_witness:
  "\<exists>wr wr' out wsched' r outs.
    writer_sends (\<lambda>_. 0) example_frames \<lparr>wr_sending_bufs = []\<rparr> = Inr (wr, [Inr (), Inr ()]) \<and>
    writer_poll_flush True (replicate 50 3) [] wr = Inr (wr', out, wsched', r) \<and>
    reader_polls 2 (replicate 50 5) out (framed_reader_new 2000) = Inr outs \<and>
    list_all2 same_contents example_frames (packets_in outs)"
proof -
  have fits: "\<forall>p \<in> set example_frames. fits_frame 2000 p"
    by (simp add: example_frames_def fits_frame_def zc_inv_def bm_inv_def new_from_buf_def payload_offset_def tunnel_bytes_def size_defs)
  have total: "total_bytes example_frames \<le> 50"
    by (simp add: total_bytes_sum example_frames_def new_from_buf_def tunnel_bytes_def size_defs)
  have len: "length example_frames = 2" by (simp add: example_frames_def)
  obtain wr wr' out wsched' r outs where run:
    "writer_sends (\<lambda>_. 0) example_frames \<lparr>wr_sending_bufs = []\<rparr> = Inr (wr, replicate (length example_frames) (Inr ()))"
    "writer_poll_flush True (replicate 50 3) [] wr = Inr (wr', out, wsched', r)"
    "reader_polls 2 (replicate 50 5) out (framed_reader_new 2000) = Inr outs"
    "list_all2 same_contents (take (length (packets_in outs)) example_frames) (packets_in outs)"
    "length (packets_in outs) = length example_frames"
    using framed_tunnel_delivers [OF fits, of "replicate 50 3" "replicate 50 5" "\<lambda>_. 0" True 2] total len
    by (auto simp del: replicate.simps)
  then show ?thesis using len by (auto simp: numeral_2_eq_2)
qed

text \<open>
  C37. The limit of the reader is not the limit of what it can read. A frame whose body is at most as long as the limit, but longer than the limit
  without the length field, is not too long for the reader, yet a fresh reader cannot take it in: its buffer has room for the limit
  only, so it reads that many bytes, finds no room for the rest and reports the end of the stream, with the packet lost and the stream not at its end.
\<close>

theorem limit_frame_ends_stream:
  assumes "length tp \<le> max_size" and "max_size < TCP_TUNNEL_HEADER_SIZE + length tp" and "TCP_TUNNEL_HEADER_SIZE < max_size"
    and "max_size < 2 ^ 32" and "max_size \<le> n"
  shows "\<exists>rd. reader_poll_next [n, n'] (frame tp @ rest) (framed_reader_new max_size) =
    Inr (rd, drop max_size (frame tp @ rest), [], Ready None) \<and> drop max_size (frame tp @ rest) \<noteq> []"
proof -
  let ?s = "frame tp @ rest"
  let ?rd = "(framed_reader_new max_size)\<lparr>rd_buf := \<lparr>bm_data = take max_size (frame tp), bm_cap = max_size\<rparr>\<rparr>"
  have len: "max_size < length (frame tp)" using assms(2) by (simp add: length_frame)
  have first: "reader_round (framed_reader_new max_size) = Inr (framed_reader_new max_size, None)"
    by (simp add: reader_round_def framed_reader_new_def bm_with_capacity_def extract_one_packet_def reserve_buf_def TCP_TUNNEL_HEADER_SIZE_def)
  have got: "reader_read n ?s (framed_reader_new max_size) = take max_size (frame tp)"
    using len assms(5) by (simp add: reader_read_def framed_reader_new_def bm_with_capacity_def min_def)
  have "extract_one_packet (rd_buf ?rd) max_size = Inr (rd_buf ?rd, None)"
    by (rule extract_partial [of _ "drop max_size (frame tp)", OF _ _ assms(1) le_less_trans [OF assms(1,4)]]) (use len in simp_all)
  then have second: "reader_round ?rd = Inr (?rd, None)" by (simp add: reader_round_def framed_reader_new_def reserve_buf_def)
  have "take max_size (frame tp) \<noteq> []" using assms(3) frame_not_Nil [of tp] by auto
  moreover have "reader_read n' (drop (length (take max_size (frame tp))) ?s) ?rd = []"
    using len by (simp add: reader_read_def framed_reader_new_def)
  ultimately show ?thesis
    using first got second len by (simp add: Let_def framed_reader_new_def bm_with_capacity_def)
qed

definition example_body :: "byte list" where
  "example_body = replicate 1998 1"

lemma length_example_body: "length example_body = 1998"
  by (simp only: example_body_def length_replicate)

theorem limit_frame_ends_stream_witness:
  "\<exists>rd. reader_poll_next [4096, 4096] (frame example_body @ []) (framed_reader_new 2000) =
    Inr (rd, drop 2000 (frame example_body @ []), [], Ready None) \<and> drop 2000 (frame example_body @ []) \<noteq> []"
  by (rule limit_frame_ends_stream) (simp_all add: length_example_body TCP_TUNNEL_HEADER_SIZE_def)

end
