(* ===== verification/Spec2Isabelle.thy ===== *)
theory Spec2Isabelle
  imports Text PacketDef TokenBucket OspfBitmap OspfVersions OspfAddresses OspfDelivery OspfInitiator OspfQueries AclPolicy ContractProps DataPath RpcCalls IpReassembler TcpFraming
begin

text \<open>
  PeerLink: a verification library for the Rust core under \<open>src/app/src\<close> and the Move contract under \<open>src/contract\<close>.

  \<^bold>\<open>The program.\<close> A PeerLink node joins a mesh network. It keeps connections to some peers (\<open>peers/peer_map.rs\<close>), learns the
  links of all peers by a link state protocol (\<open>peers/peer_ospf_route.rs\<close>) and computes next hops from them (\<open>peers/graph_algo.rs\<close>).
  Packets from the virtual device are addressed, compressed (\<open>common/compressor.rs\<close>), encrypted (\<open>peers/encrypt\<close>) and sent to the next hop
  by the peer manager (\<open>peers/peer_manager.rs\<close>), which on the other nodes relays them or passes them through the access control
  filter (\<open>peers/acl_filter.rs\<close>, \<open>common/acl_processor.rs\<close>) to the device. All share one packet buffer (\<open>tunnel/packet_def.rs\<close>).
  Nodes call each other by a small RPC layer (\<open>proto/rpc_impl\<close>). Gateways cut and reassemble IP packets
  (\<open>gateway/ip_reassembler.rs\<close>). Rates are limited by token buckets (\<open>common/token_bucket.rs\<close>). Networks and exit nodes are
  registered on the Sui chain (\<open>contract/sui_move/peerlink/sources/peerlink.move\<close>).

  \<^bold>\<open>Conventions.\<close> A panic of the Rust code is the left value of \<open>'a rust\<close> (theory Prelude): indexing, slicing, \<open>unwrap\<close>, assertions
  and arithmetic that overflows. The last is the behaviour of a build with overflow checks; the workspace sets no profile of its own.
  Errors of the code are values of its own error types. Concurrent maps are association lists with unique keys (\<open>dmap\<close>), whose
  laws are the locale \<open>keyed_store\<close>. Integers have the widths of the code. Times are natural numbers in the unit of the component; a
  handler takes the time at which it runs as an argument. Uninitialised memory is an argument as well.

  Third-party code is a parameter, with what the code relies on as a named hypothesis: zstd (\<open>ZstdLib\<close>, \<open>zstd_ok\<close>), the AEAD ciphers
  (\<open>Aead\<close>, \<open>aead_ok\<close>), pnet (\<open>PnetLib\<close>; \<open>PnetIpv4\<close>, \<open>pnet_ip_ok\<close>), cidr (\<open>CidrLib\<close>), protobuf (\<open>RpcCodec\<close>, \<open>MsgCodec\<close>,
  \<open>codec_ok\<close>, \<open>msg_codec_ok\<close>) and the environment of the route service (\<open>RouteEnv\<close>). Each hypothesis has an instance in the
  witnesses of the properties that use it.

  \<^bold>\<open>Theories.\<close>
  \<^item> Prelude, Text, Float64: machine integers and their byte codecs, panics, maps, decimal numbers and strings, \<open>f64\<close> on
    non-negative values by exact rounding.
  \<^item> PacketDef, PacketView: headers, the offset table, every operation of \<open>ZCPacket\<close>. Conversion between tunnel types keeps
    header and payload; encapsulation for a foreign network is undone by decapsulation.
  \<^item> TcpFraming: packets on byte streams. Whatever the sizes of the reads and writes, the reader delivers the writer's packets whole and in
    order; frames at the packet limit end the stream.
  \<^item> TokenBucket: configuration, refill and consumption, the table of buckets. Consumers and the refill task run as interleaved atomic
    steps; no interleaving grants more than was put in, and grants are bounded by rate times elapsed time.
  \<^item> GraphAlgo, Paths: \<open>dijkstra_with_first_hop\<close> with its heap (locale \<open>min_heap\<close>) always returns and gives exactly the least costs.
  \<^item> OspfSynced, OspfBitmap, OspfVersions: \<open>SyncedRouteInfo\<close>. Merging is independent of order, batches and repetition (locale
    \<open>versioned_merge\<close>); the store keeps its invariant; group trust has a verified proof; the connection bitmap round trips, and the
    bitmaps that panic are characterised.
  \<^item> OspfTable, OspfRouting, OspfRoutes, OspfAddresses: \<open>RouteTable\<close>. A build gives next hops on optimal paths to exactly the reachable peers
    for both policies, forwarding by them reaches the destination, addresses lead to the nearest claimant.
  \<^item> OspfSession, OspfService, OspfSync, OspfDelivery, OspfInitiator, OspfQueries: sessions, the two ends of the sync protocol, the service's state machine
    and its queries. Two answered rounds settle a session, an accepted request is delivered, at most one session is
    the initiator, expiry and foreign network owners are exact.
  \<^item> AclRules, AclProcessor, AclDecision, AclPolicy, AclFilter: rules, their compilation, the processor with its cache, connection table
    and rate limits, and the filter. The cache (locale \<open>memo_table\<close>) never changes a decision, priorities decide, and the filter
    enforces the rules on every readable packet.
  \<^item> Compressor, Encrypt: compression and all ciphers behind one contract (locale \<open>encryptor\<close>). A sealed packet is opened to itself.
  \<^item> PeerMap, PeerManager, DataPath: the tables of peers and the data path. A payload sent by address and relayed over any tunnels arrives
    unchanged at the device, and no routing loop relays a packet more than eight times.
  \<^item> RpcPacket, RpcService, RpcCalls: messages in pieces, registry, server and client. A call whose packets arrive in any order and with
    repetitions returns what the service returned.
  \<^item> IpReassembler: IPv4 fragments. Fragments in any order are put together again; crafted ones bring the reassembler down.
  \<^item> Contract, ContractProps: the registry on chain as a state machine of transactions: who can change what, and that listings never abort.

  \<^bold>\<open>Termination and bounds.\<close> Nothing runs on fuel. Loops are structural recursions or functions with a measure: unvisited nodes of the
  graph search, bytes left to send, hops left to relay. Loops of tasks are step relations, and properties hold in all reachable states.

  \<^bold>\<open>Not modelled.\<close> Sockets, the set-up of tunnels, connectors, hole punching and STUN, the gateway proxies and the SOCKS server, the virtual device, DNS,
  launcher, command line, the Sui client and the operating system interfaces: they are input and output on asynchronous tasks over
  third-party libraries. Timers that trigger steps are replaced by steps at any time. Log output and metrics do not feed back
  into the modelled behaviour and are left out, except the counters of the access control processor, whose overflow is a panic.
\<close>

end
